(* ===== verification/Prelude.thy ===== *)
theory Prelude
  imports Main "HOL-Library.Word"
begin

text \<open>
  Shared vocabulary of the development: the machine integers of the Rust sources, the
  \<open>Result\<close> type with its question-mark operator, \<open>require!\<close> and \<open>ok_or\<close>, the checked
  and saturating arithmetic of the Rust standard library, and the generic facts on words
  and lists that the component theories share.
\<close>

section \<open>Machine integers\<close>

type_synonym u8 = "8 word"
type_synonym u16 = "16 word"
type_synonym u64 = "64 word"
type_synonym u128 = "128 word"
type_synonym i64 = "64 word"  \<comment> \<open>read through \<open>sint\<close>\<close>
type_synonym pubkey = "256 word"  \<comment> \<open>the 32 bytes of a \<open>Pubkey\<close>, first byte lowest\<close>

named_theorems result_simps \<open>equations that run a fallible computation\<close>
named_theorems checked_simps \<open>characterisations of checked arithmetic\<close>

section \<open>Results\<close>

text \<open>\<open>and_then r f\<close> is \<open>r?\<close> followed by \<open>f\<close>: an error returns early.\<close>

definition and_then :: "'e + 'a \<Rightarrow> ('a \<Rightarrow> 'e + 'b) \<Rightarrow> 'e + 'b" where
  "and_then r f = (case r of Inl e \<Rightarrow> Inl e | Inr x \<Rightarrow> f x)"

definition require :: "bool \<Rightarrow> 'e \<Rightarrow> 'e + unit" where
  "require b e = (if b then Inr () else Inl e)"

definition ok_or :: "'a option \<Rightarrow> 'e \<Rightarrow> 'e + 'a" where
  "ok_or x e = (case x of None \<Rightarrow> Inl e | Some a \<Rightarrow> Inr a)"

lemma and_then_Inl [simp, result_simps]: "and_then (Inl e) f = Inl e"
  by (simp add: and_then_def)

lemma and_then_Inr [simp, result_simps]: "and_then (Inr x) f = f x"
  by (simp add: and_then_def)

lemma and_then_eq_Inr: "and_then r f = Inr y \<longleftrightarrow> (\<exists>x. r = Inr x \<and> f x = Inr y)"
  by (cases r) auto

lemma and_then_eq_Inl:
  "and_then r f = Inl e \<longleftrightarrow> r = Inl e \<or> (\<exists>x. r = Inr x \<and> f x = Inl e)"
  by (cases r) auto

lemma and_then_assoc: "and_then (and_then r f) g = and_then r (\<lambda>x. and_then (f x) g)"
  by (cases r) auto

lemma and_then_require [simp, result_simps]:
  "and_then (require b e) f = (if b then f () else Inl e)"
  by (simp add: require_def)

lemma require_eq_Inr [simp]: "require b e = Inr u \<longleftrightarrow> b"
  by (simp add: require_def)

lemma require_eq_Inl [simp]: "require b e = Inl e' \<longleftrightarrow> \<not> b \<and> e' = e"
  by (auto simp: require_def)

lemma ok_or_simps [simp, result_simps]:
  "ok_or None e = Inl e" "ok_or (Some a) e = Inr a"
  by (simp_all add: ok_or_def)

lemma ok_or_eq_Inr [simp]: "ok_or x e = Inr a \<longleftrightarrow> x = Some a"
  by (cases x) auto

lemma ok_or_eq_Inl [simp]: "ok_or x e = Inl e' \<longleftrightarrow> x = None \<and> e' = e"
  by (cases x) auto

lemma and_then_cong [fundef_cong]:
  "r = r' \<Longrightarrow> (\<And>x. r' = Inr x \<Longrightarrow> f x = g x) \<Longrightarrow> and_then r f = and_then r' g"
  by (cases r') auto

section \<open>Checked arithmetic of the Rust standard library\<close>

definition checked_add :: "'a::len word \<Rightarrow> 'a word \<Rightarrow> 'a word option" where
  "checked_add a b = (if unat a + unat b < 2 ^ LENGTH('a) then Some (a + b) else None)"

definition checked_sub :: "'a::len word \<Rightarrow> 'a word \<Rightarrow> 'a word option" where
  "checked_sub a b = (if b \<le> a then Some (a - b) else None)"

definition checked_mul :: "'a::len word \<Rightarrow> 'a word \<Rightarrow> 'a word option" where
  "checked_mul a b = (if unat a * unat b < 2 ^ LENGTH('a) then Some (a * b) else None)"

definition checked_div :: "'a::len word \<Rightarrow> 'a word \<Rightarrow> 'a word option" where
  "checked_div a b = (if b = 0 then None else Some (a div b))"

definition saturating_sub :: "'a::len word \<Rightarrow> 'a word \<Rightarrow> 'a word" where
  "saturating_sub a b = (if b \<le> a then a - b else 0)"

text \<open>Signed addition on \<open>i64\<close>: the operands are read in two's complement.\<close>

definition checked_add_i64 :: "i64 \<Rightarrow> i64 \<Rightarrow> i64 option" where
  "checked_add_i64 a b =
     (if - (2 ^ 63) \<le> sint a + sint b \<and> sint a + sint b < 2 ^ 63 then Some (a + b) else None)"

lemma unat_less: "unat w < 2 ^ LENGTH('a)" for w :: "'a::len word"
  by (rule unsigned_less)

lemma unat_ucast_up:
  fixes w :: "'a::len word"
  assumes "LENGTH('a) \<le> LENGTH('b)"
  shows "unat (ucast w :: 'b::len word) = unat w"
proof -
  have "unat w < 2 ^ LENGTH('b)"
    using unat_less [of w] power_increasing [OF assms, of "2::nat"] by linarith
  then show ?thesis by (simp add: unsigned_ucast_eq take_bit_nat_eq_self)
qed

lemma unat_eqI: "unat a = unat b \<Longrightarrow> a = b" for a b :: "'a::len word"
  by (rule word_unat_eq_iff [THEN iffD2])

lemma checked_add_Some [checked_simps]:
  "checked_add a b = Some c \<longleftrightarrow> unat c = unat a + unat b"
  for a b c :: "'a::len word"
proof
  assume "checked_add a b = Some c"
  then show "unat c = unat a + unat b"
    by (auto simp: checked_add_def unat_word_ariths split: if_splits)
next
  assume c: "unat c = unat a + unat b"
  then have lt: "unat a + unat b < 2 ^ LENGTH('a)" by (metis unsigned_less)
  then have "unat (a + b) = unat c" using c by (simp add: unat_word_ariths)
  then have "a + b = c" by (rule unat_eqI)
  then show "checked_add a b = Some c" using lt by (simp add: checked_add_def)
qed

lemma checked_add_None [checked_simps]:
  "checked_add a b = None \<longleftrightarrow> 2 ^ LENGTH('a) \<le> unat a + unat b" for a b :: "'a::len word"
  by (auto simp: checked_add_def not_less)

lemma checked_sub_Some [checked_simps]:
  "checked_sub a b = Some c \<longleftrightarrow> unat a = unat b + unat c"
  for a b c :: "'a::len word"
proof
  assume "checked_sub a b = Some c"
  then show "unat a = unat b + unat c"
    by (auto simp: checked_sub_def unat_sub word_le_nat_alt split: if_splits)
next
  assume eq: "unat a = unat b + unat c"
  then have le: "b \<le> a" by (simp add: word_le_nat_alt)
  then have "unat (a - b) = unat c" using eq by (simp add: unat_sub)
  then have "a - b = c" by (rule unat_eqI)
  then show "checked_sub a b = Some c" using le by (simp add: checked_sub_def)
qed

lemma checked_sub_None [checked_simps]:
  "checked_sub a b = None \<longleftrightarrow> unat a < unat b"
  by (simp add: checked_sub_def word_le_nat_alt not_le)

lemma checked_mul_Some:
  "checked_mul a b = Some c \<Longrightarrow> unat c = unat a * unat b" for a b c :: "'a::len word"
  by (auto simp: checked_mul_def unat_word_ariths split: if_splits)

lemma unat_saturating_sub [simp]: "unat (saturating_sub a b) = unat a - unat b"
  by (auto simp: saturating_sub_def unat_sub word_le_nat_alt)

lemma unat_minus_le: "unat b \<le> unat a \<Longrightarrow> unat (a - b) = unat a - unat b"
  for a b :: "'a::len word"
  by (simp add: unat_sub word_le_nat_alt)

lemma checked_add_i64_Some [checked_simps]:
  "checked_add_i64 a b = Some c \<longleftrightarrow> sint c = sint a + sint b"
proof
  assume "checked_add_i64 a b = Some c"
  then show "sint c = sint a + sint b"
    by (auto simp: checked_add_i64_def sint_word_ariths signed_take_bit_int_eq_self split: if_splits)
next
  assume c: "sint c = sint a + sint b"
  have range: "- (2 ^ 63) \<le> sint c" "sint c < 2 ^ 63"
    using sint_range_size [of c] by (simp_all add: word_size)
  have "sint (a + b) = signed_take_bit 63 (sint c)"
    using c by (simp add: sint_word_ariths)
  also have "\<dots> = sint c"
    using range by (simp add: signed_take_bit_int_eq_self)
  finally have "a + b = c" by (rule signed_word_eqI)
  then show "checked_add_i64 a b = Some c"
    using range c by (simp add: checked_add_i64_def)
qed

lemma checked_add_i64_None [checked_simps]:
  "checked_add_i64 a b = None \<longleftrightarrow> sint a + sint b < - (2 ^ 63) \<or> 2 ^ 63 \<le> sint a + sint b"
  by (auto simp: checked_add_i64_def)

section \<open>Lists\<close>

text \<open>\<open>position p xs\<close> is \<open>iter().position(p)\<close>: the index of the first match.\<close>

fun position :: "('a \<Rightarrow> bool) \<Rightarrow> 'a list \<Rightarrow> nat option" where
  "position p [] = None"
| "position p (x # xs) = (if p x then Some 0 else map_option Suc (position p xs))"

lemma position_None: "position p xs = None \<longleftrightarrow> (\<forall>x\<in>set xs. \<not> p x)"
  by (induction xs) auto

lemma position_Some:
  "position p xs = Some i \<longleftrightarrow> i < length xs \<and> p (xs ! i) \<and> (\<forall>j<i. \<not> p (xs ! j))"
proof (induction xs arbitrary: i)
  case Nil
  then show ?case by simp
next
  case (Cons x xs)
  show ?case
  proof (cases i)
    case 0
    then show ?thesis by auto
  next
    case (Suc j)
    then show ?thesis using Cons.IH [of j] by (auto simp: less_Suc_eq_0_disj)
  qed
qed

lemma fresh_image: "y \<notin> f ` A \<Longrightarrow> x \<in> A \<Longrightarrow> f x = y \<longleftrightarrow> False"
  by (metis image_eqI)

lemma sum_list_div_le:
  "sum_list (map (\<lambda>x. p * f x div d) xs) \<le> p * sum_list (map f xs) div d" for p d :: nat
proof (induction xs)
  case Nil
  then show ?case by simp
next
  case (Cons x xs)
  have "p * f x div d + p * sum_list (map f xs) div d
        \<le> (p * f x + p * sum_list (map f xs)) div d"
    by (simp add: div_add1_eq [of "p * f x"])
  then show ?case using Cons.IH by (simp add: algebra_simps)
qed

text \<open>Turning off one element of a filtered list removes exactly that element.\<close>

lemma filter_update_remove1:
  assumes "distinct xs" "i < length xs" "P (xs ! i)" "\<not> P y"
  shows "filter P (xs[i := y]) = remove1 (xs ! i) (filter P xs)"
  using assms
proof (induction xs arbitrary: i)
  case Nil
  then show ?case by simp
next
  case (Cons x xs)
  then show ?case by (cases i) auto
qed

lemma sum_list_remove1:
  "x \<in> set xs \<Longrightarrow> sum_list (map f xs) = f x + sum_list (map f (remove1 x xs))"
  for f :: "'a \<Rightarrow> nat"
  by (induction xs) auto

lemma length_1_iff: "length xs = Suc 0 \<and> x \<in> set xs \<longleftrightarrow> xs = [x]"
  by (cases xs) auto

lemma distinct_map_single:
  "distinct (map f xs) \<Longrightarrow> \<forall>x\<in>set xs. f x = k \<Longrightarrow> xs \<noteq> [] \<Longrightarrow> length xs = 1"
  by (cases xs; cases "tl xs") auto

lemma filter_neq_remove1:
  assumes "distinct (map f xs)" "x \<in> set xs"
  shows "filter (\<lambda>y. f y \<noteq> f x) xs = remove1 x xs"
  using assms
proof (induction xs)
  case Nil
  then show ?case by simp
next
  case (Cons y ys)
  show ?case
  proof (cases "y = x")
    case True
    then have "\<forall>z\<in>set ys. f z \<noteq> f x" using Cons.prems(1) by (auto simp: image_iff)
    then show ?thesis using True by simp
  next
    case False
    then have "x \<in> set ys" using Cons.prems(2) by simp
    then have "f y \<noteq> f x" using Cons.prems(1) by (auto simp: image_iff)
    then show ?thesis using False Cons.IH Cons.prems(1) \<open>x \<in> set ys\<close> by simp
  qed
qed

section \<open>Bytes\<close>

text \<open>The first \<open>n\<close> bytes of a word, least significant first (\<open>to_le_bytes\<close>).\<close>

definition le_bytes :: "nat \<Rightarrow> 'a::len word \<Rightarrow> u8 list" where
  "le_bytes n w = map (\<lambda>i. ucast (drop_bit (8 * i) w)) [0..<n]"

lemma length_le_bytes [simp]: "length (le_bytes n w) = n"
  by (simp add: le_bytes_def)

section \<open>Numbers as text\<close>

fun decimal :: "nat \<Rightarrow> string" where
  "decimal n = (if n < 10 then [char_of (48 + n)] else decimal (n div 10) @ [char_of (48 + n mod 10)])"

declare decimal.simps [simp del]

definition read_decimal :: "string \<Rightarrow> nat" where
  "read_decimal cs = foldl (\<lambda>n c. 10 * n + (of_char c - 48)) 0 cs"

definition digit :: "char \<Rightarrow> bool" where
  "digit c \<longleftrightarrow> 48 \<le> (of_char c :: nat) \<and> (of_char c :: nat) \<le> 57"

lemma read_decimal: "read_decimal (decimal n) = n"
proof (induction n rule: decimal.induct)
  case (1 n)
  then show ?case
    by (cases "n < 10") (simp_all add: decimal.simps [of n] read_decimal_def)
qed

lemma decimal_digits: "list_all digit (decimal n)"
proof (induction n rule: decimal.induct)
  case (1 n)
  have "digit (char_of (48 + d))" if "d < 10" for d :: nat
    using that by (simp add: digit_def)
  from this [of n] this [of "n mod 10"] show ?case
    using 1 by (cases "n < 10") (simp_all add: decimal.simps [of n])
qed

lemma decimal_not_Nil: "decimal n \<noteq> []"
  by (subst decimal.simps) simp

lemma decimal_no_colon: "c \<in> set (decimal n) \<Longrightarrow> c \<noteq> CHR '':''"
  using decimal_digits [of n] by (auto simp: list_all_iff digit_def)

end
