(* ===== verification/Dms_Error.thy ===== *)
theory Dms_Error
  imports Prelude
begin

text \<open>
  The constants of \<open>constants.rs\<close> and the errors of \<open>error.rs\<close>. An instruction fails
  with one of the program's own errors (\<open>Dms\<close>), with a check of the account validation
  that the \<open>#[derive(Accounts)]\<close> attributes ask for (\<open>Anchor\<close>), with an error of a
  program it calls (\<open>External\<close>, the number is that program's business), or by a Rust
  panic (\<open>Panicked\<close>).
\<close>

section \<open>Constants\<close>

definition VAULT_SEED :: "u8 list" where
  "VAULT_SEED = [118, 97, 117, 108, 116]"  \<comment> \<open>\<open>b"vault"\<close>\<close>

definition MAX_BENEFICIARIES :: nat where
  "MAX_BENEFICIARIES = 5"

definition TOTAL_SHARE_BPS :: u16 where
  "TOTAL_SHARE_BPS = 10000"

definition MIN_TIMEOUT_SECONDS :: i64 where
  "MIN_TIMEOUT_SECONDS = 60"

definition MAX_TIMEOUT_SECONDS :: i64 where
  "MAX_TIMEOUT_SECONDS = 10 * 365 * 24 * 60 * 60"

section \<open>Errors\<close>

datatype dms_error =
    Unauthorized
  | TimeoutNotReached
  | AlreadyClaimed
  | InvalidShares
  | TooManyBeneficiaries
  | MathOverflow
  | InvalidTimeout
  | NoBeneficiaries
  | DuplicateBeneficiary
  | InvalidBeneficiary
  | InvalidAmount
  | MintMismatch
  | NotSolVault
  | NotSplVault
  | VaultTriggered
  | InsufficientFunds
  | VaultNotEmpty
  | MissingTokenAccount

datatype anchor_error =
    AccountNotSigner
  | AccountDidNotDeserialize
  | ConstraintSeeds
  | ConstraintTokenMint
  | ConstraintTokenOwner
  | ConstraintTokenTokenProgram
  | ConstraintAssociated
  | InvalidProgramId

datatype error =
    Dms dms_error
  | Anchor anchor_error
  | External nat
  | Panicked

lemma unat_TOTAL_SHARE_BPS [simp]: "unat TOTAL_SHARE_BPS = 10000"
  by (simp add: TOTAL_SHARE_BPS_def)

lemma sint_MIN_TIMEOUT_SECONDS [simp]: "sint MIN_TIMEOUT_SECONDS = 60"
  by (simp add: MIN_TIMEOUT_SECONDS_def)

lemma sint_MAX_TIMEOUT_SECONDS [simp]: "sint MAX_TIMEOUT_SECONDS = 315360000"
  by (simp add: MAX_TIMEOUT_SECONDS_def)

lemma TOTAL_SHARE_BPS_nonzero [simp]: "TOTAL_SHARE_BPS \<noteq> 0"
  by (simp add: TOTAL_SHARE_BPS_def)

end
