(* ===== verification/Vault_State.thy ===== *)
theory Vault_State
  imports Dms_Error
begin

text \<open>
  \<open>state.rs\<close>: the records \<open>Beneficiary\<close>, \<open>BeneficiaryInput\<close>, \<open>Vault\<close> and \<open>ClaimTicket\<close>
  and the methods of \<open>impl Vault\<close>, translated one by one, with the invariant of a stored
  vault and the exact behaviour of each method. Methods that slice the heir table keep
  the panic of an out-of-range slice; under the invariant it never happens.
\<close>

section \<open>Data\<close>

record beneficiary =
  address :: pubkey
  share_bps :: u16
  claimed :: bool

definition beneficiary_default :: beneficiary where
  "beneficiary_default = \<lparr>address = 0, share_bps = 0, claimed = False\<rparr>"

record beneficiary_input =
  input_address :: pubkey
  input_share_bps :: u16

record vault =
  owner :: pubkey
  vault_id :: u64
  mint :: "pubkey option"
  last_checkin :: i64
  timeout_seconds :: i64
  beneficiaries :: "beneficiary list"
  beneficiary_count :: u8
  is_claimed :: bool
  claim_pool :: u64
  bump :: u8

record claim_ticket =
  ticket_share_bps :: u16
  is_last :: bool

text \<open>\<open>INIT_SPACE\<close>: the largest serialised size, as \<open>#[derive(InitSpace)]\<close> adds it up.\<close>

definition beneficiary_init_space :: nat where
  "beneficiary_init_space = 32 + 2 + 1"

definition vault_init_space :: nat where
  "vault_init_space =
     32 + 8 + (1 + 32) + 8 + 8 + MAX_BENEFICIARIES * beneficiary_init_space + 1 + 1 + 8 + 1"

section \<open>Methods\<close>

text \<open>\<open>&self.beneficiaries[..count]\<close> panics when \<open>count\<close> is past the end of the array.\<close>

definition active :: "vault \<Rightarrow> error + beneficiary list" where
  "active self =
     (if unat (beneficiary_count self) \<le> length (beneficiaries self)
      then Inr (take (unat (beneficiary_count self)) (beneficiaries self))
      else Inl Panicked)"

text \<open>A mutable view: \<open>f\<close> is what its holder does to the slots.\<close>

definition active_mut :: "(beneficiary list \<Rightarrow> beneficiary list) \<Rightarrow> vault \<Rightarrow> error + vault" where
  "active_mut f self =
     (let count = unat (beneficiary_count self)
      in if count \<le> length (beneficiaries self)
         then Inr (self\<lparr>beneficiaries := f (take count (beneficiaries self)) @ drop count (beneficiaries self)\<rparr>)
         else Inl Panicked)"

definition deadline :: "vault \<Rightarrow> error + i64" where
  "deadline self =
     ok_or (checked_add_i64 (last_checkin self) (timeout_seconds self)) (Dms MathOverflow)"

definition is_expired :: "vault \<Rightarrow> i64 \<Rightarrow> error + bool" where
  "is_expired self now = and_then (deadline self) (\<lambda>d. Inr (sint d \<le> sint now))"

definition index_of :: "vault \<Rightarrow> pubkey \<Rightarrow> error + nat option" where
  "index_of self key =
     and_then (active self) (\<lambda>heirs. Inr (position (\<lambda>b. address b = key) heirs))"

definition is_sol :: "vault \<Rightarrow> bool" where
  "is_sol self \<longleftrightarrow> mint self = None"

text \<open>
  The loop of \<open>validate_slots\<close>: \<open>prev\<close> is \<open>slots[..i]\<close>, the second argument the slots
  still to come, \<open>tot\<close> the running sum.
\<close>

fun validate_loop :: "beneficiary list \<Rightarrow> beneficiary list \<Rightarrow> u16 \<Rightarrow> error + u16" where
  "validate_loop prev [] tot = Inr tot"
| "validate_loop prev (slot # rest) tot =
     and_then (require (address slot \<noteq> 0) (Dms InvalidBeneficiary)) (\<lambda>_.
     and_then (require (0 < share_bps slot) (Dms InvalidShares)) (\<lambda>_.
     and_then (require (\<not> list_ex (\<lambda>p. address p = address slot) prev)
                 (Dms DuplicateBeneficiary)) (\<lambda>_.
     and_then (ok_or (checked_add tot (share_bps slot)) (Dms MathOverflow)) (\<lambda>tot'.
       validate_loop (prev @ [slot]) rest tot'))))"

definition validate_slots :: "beneficiary list \<Rightarrow> error + unit" where
  "validate_slots slots =
     and_then (require (slots \<noteq> []) (Dms NoBeneficiaries)) (\<lambda>_.
     and_then (require (length slots \<le> MAX_BENEFICIARIES) (Dms TooManyBeneficiaries)) (\<lambda>_.
     and_then (validate_loop [] slots 0) (\<lambda>total.
       require (total = TOTAL_SHARE_BPS) (Dms InvalidShares))))"

text \<open>\<open>u64::try_from\<close> of a \<open>u128\<close>.\<close>

definition try_u64 :: "u128 \<Rightarrow> u64 option" where
  "try_u64 w = (if unat w < 2 ^ 64 then Some (ucast w) else None)"

definition share_of :: "u64 \<Rightarrow> u16 \<Rightarrow> error + u64" where
  "share_of pool bps =
     and_then
       (ok_or
         (Option.bind (checked_mul (ucast pool :: u128) (ucast bps))
            (\<lambda>v. checked_div v (ucast TOTAL_SHARE_BPS)))
         (Dms MathOverflow))
       (\<lambda>amount. ok_or (try_u64 amount) (Dms MathOverflow))"

definition authorize_claim ::
  "vault \<Rightarrow> pubkey \<Rightarrow> i64 \<Rightarrow> u64 \<Rightarrow> error + claim_ticket \<times> vault" where
  "authorize_claim self claimant now pool =
     and_then (is_expired self now) (\<lambda>expired.
     and_then (require expired (Dms TimeoutNotReached)) (\<lambda>_.
     and_then (index_of self claimant) (\<lambda>found.
     and_then (ok_or found (Dms Unauthorized)) (\<lambda>index.
     and_then (require (\<not> claimed (beneficiaries self ! index)) (Dms AlreadyClaimed)) (\<lambda>_.
       let self1 = (if \<not> is_claimed self
                    then self\<lparr>is_claimed := True, claim_pool := pool\<rparr> else self) in
       and_then (active self1) (\<lambda>heirs.
         let last = (length (filter (\<lambda>b. \<not> claimed b) heirs) = 1);
             slot = beneficiaries self1 ! index;
             self2 = self1\<lparr>beneficiaries :=
                       (beneficiaries self1)[index := slot\<lparr>claimed := True\<rparr>]\<rparr>
         in Inr (\<lparr>ticket_share_bps = share_bps slot, is_last = last\<rparr>, self2)))))))"

section \<open>What a stored vault satisfies\<close>

text \<open>The heir slots in use, as a list.\<close>

definition heirs :: "vault \<Rightarrow> beneficiary list" where
  "heirs v = take (unat (beneficiary_count v)) (beneficiaries v)"

definition shares_total :: "beneficiary list \<Rightarrow> nat" where
  "shares_total bs = sum_list (map (\<lambda>b. unat (share_bps b)) bs)"

definition valid_table :: "beneficiary list \<Rightarrow> bool" where
  "valid_table bs \<longleftrightarrow>
     bs \<noteq> [] \<and> length bs \<le> MAX_BENEFICIARIES \<and> distinct (map address bs) \<and>
     list_all (\<lambda>b. address b \<noteq> 0 \<and> 0 < share_bps b) bs \<and> shares_total bs = 10000"

definition unpaid :: "vault \<Rightarrow> beneficiary list" where
  "unpaid v = filter (\<lambda>b. \<not> claimed b) (heirs v)"

text \<open>One heir's entitlement out of a pool, and what a vault still owes.\<close>

definition entitlement :: "nat \<Rightarrow> beneficiary \<Rightarrow> nat" where
  "entitlement pool b = pool * unat (share_bps b) div 10000"

definition owed :: "vault \<Rightarrow> nat" where
  "owed v = sum_list (map (entitlement (unat (claim_pool v))) (unpaid v))"

definition vault_inv :: "vault \<Rightarrow> bool" where
  "vault_inv v \<longleftrightarrow>
     length (beneficiaries v) = MAX_BENEFICIARIES \<and>
     unat (beneficiary_count v) \<le> MAX_BENEFICIARIES \<and>
     valid_table (heirs v) \<and>
     sint MIN_TIMEOUT_SECONDS \<le> sint (timeout_seconds v) \<and>
     sint (timeout_seconds v) \<le> sint MAX_TIMEOUT_SECONDS \<and>
     sint (last_checkin v) + sint (timeout_seconds v) < 2 ^ 63 \<and>
     (if is_claimed v then 0 < claim_pool v \<and> list_ex claimed (heirs v)
      else claim_pool v = 0 \<and> unpaid v = heirs v)"

section \<open>Validation of a heir table\<close>

lemma shares_total_simps [simp]:
  "shares_total [] = 0" "shares_total (b # bs) = unat (share_bps b) + shares_total bs"
  by (simp_all add: shares_total_def)

lemma listed_iff: "list_ex (\<lambda>p. address p = a) bs \<longleftrightarrow> a \<in> address ` set bs"
  by (auto simp: list_ex_iff)

lemma validate_loop_Inr:
  "validate_loop prev bs tot = Inr tot' \<longleftrightarrow>
     list_all (\<lambda>b. address b \<noteq> 0 \<and> 0 < share_bps b) bs \<and>
     (\<forall>b\<in>set bs. address b \<notin> address ` set prev) \<and>
     distinct (map address bs) \<and> unat tot' = unat tot + shares_total bs"
proof (induction bs arbitrary: prev tot)
  case Nil
  then show ?case by (auto simp: word_unat_eq_iff)
next
  case (Cons b bs)
  show ?case
  proof (cases "checked_add tot (share_bps b)")
    case None
    then have "unat tot' \<noteq> unat tot + shares_total (b # bs)"
      using unat_less [of tot'] by (simp add: checked_add_None)
    with None show ?thesis by simp
  next
    case (Some t)
    then have "unat t = unat tot + unat (share_bps b)" by (simp add: checked_add_Some)
    moreover have "(\<forall>x\<in>set bs. address x \<notin> insert (address b) (address ` set prev)) \<longleftrightarrow>
        (\<forall>x\<in>set bs. address x \<notin> address ` set prev) \<and> address b \<notin> address ` set bs"
      by (auto simp: fresh_image)
    ultimately show ?thesis
      using Some by (simp add: Cons.IH listed_iff image_Un)
        (auto simp: add_ac)
  qed
qed

lemma validate_slots_Inr: "validate_slots bs = Inr u \<longleftrightarrow> valid_table bs"
proof -
  have "(\<exists>tot. validate_loop [] bs 0 = Inr tot \<and> tot = TOTAL_SHARE_BPS) \<longleftrightarrow>
      list_all (\<lambda>b. address b \<noteq> 0 \<and> 0 < share_bps b) bs \<and> distinct (map address bs)
      \<and> shares_total bs = 10000"
    by (auto simp: validate_loop_Inr)
  then show ?thesis
    by (auto simp: validate_slots_def valid_table_def and_then_eq_Inr)
qed

section \<open>Shares\<close>

lemma share_of_eq:
  "share_of pool bps =
     (if unat pool * unat bps div 10000 < 2 ^ 64
      then Inr (of_nat (unat pool * unat bps div 10000)) else Inl (Dms MathOverflow))"
proof -
  let ?p = "ucast pool :: u128" and ?b = "ucast bps :: u128"
  have p: "unat ?p = unat pool" and b: "unat ?b = unat bps"
    by (simp_all add: unat_ucast_up)
  have "unat pool * unat bps < 2 ^ 64 * 2 ^ 16"
    using unat_less [of pool] unat_less [of bps]
    by (intro mult_strict_mono) simp_all
  then have lt: "unat pool * unat bps < 2 ^ 128" by simp
  then have mul: "checked_mul ?p ?b = Some (?p * ?b)" and prod: "unat (?p * ?b) = unat pool * unat bps"
    by (simp_all add: checked_mul_def p b unat_word_ariths)
  have total: "(ucast TOTAL_SHARE_BPS :: u128) = 10000"
    by (simp add: TOTAL_SHARE_BPS_def)
  have quot: "unat (?p * ?b div 10000) = unat pool * unat bps div 10000"
    by (simp add: unat_div prod)
  have "of_nat (unat (?p * ?b div 10000)) = (ucast (?p * ?b div 10000) :: u64)"
    by simp
  then show ?thesis
    by (simp add: share_of_def mul total checked_div_def try_u64_def quot)
qed

lemma entitlement_le:
  "unat (share_bps b) \<le> 10000 \<Longrightarrow> entitlement pool b \<le> pool"
proof -
  assume "unat (share_bps b) \<le> 10000"
  then have "pool * unat (share_bps b) div 10000 \<le> pool * 10000 div 10000"
    by (intro div_le_mono mult_le_mono) simp_all
  then show ?thesis by (simp add: entitlement_def)
qed

lemma share_of_entitlement:
  assumes "unat (share_bps b) \<le> 10000"
  shows "share_of pool (share_bps b) = Inr (of_nat (entitlement (unat pool) b))"
    and "unat (of_nat (entitlement (unat pool) b) :: u64) = entitlement (unat pool) b"
proof -
  have lt: "entitlement (unat pool) b < 2 ^ 64"
    using entitlement_le [OF assms, of "unat pool"] unat_less [of pool] by simp
  then show "share_of pool (share_bps b) = Inr (of_nat (entitlement (unat pool) b))"
    by (simp add: share_of_eq entitlement_def)
  show "unat (of_nat (entitlement (unat pool) b) :: u64) = entitlement (unat pool) b"
    using lt by (simp add: unat_of_nat)
qed

lemma entitlements_le_pool:
  "shares_total bs = 10000 \<Longrightarrow> sum_list (map (entitlement pool) bs) \<le> pool"
  using sum_list_div_le [of pool "\<lambda>b. unat (share_bps b)" 10000 bs]
  by (simp add: entitlement_def [abs_def] shares_total_def)

section \<open>Consequences of the invariant\<close>

lemma share_le_total: "b \<in> set bs \<Longrightarrow> unat (share_bps b) \<le> shares_total bs"
  by (induction bs) auto

lemma valid_table_share: "valid_table bs \<Longrightarrow> b \<in> set bs \<Longrightarrow> unat (share_bps b) \<le> 10000"
  using share_le_total [of b bs] by (simp add: valid_table_def)

lemma valid_table_distinct: "valid_table bs \<Longrightarrow> distinct bs"
  by (auto simp: valid_table_def distinct_map)

lemma valid_table_address_inj:
  "valid_table bs \<Longrightarrow> b \<in> set bs \<Longrightarrow> c \<in> set bs \<Longrightarrow> address b = address c \<Longrightarrow> b = c"
  by (auto simp: valid_table_def distinct_map dest: inj_onD)

lemma valid_table_cong:
  assumes "map address bs = map address cs" "map share_bps bs = map share_bps cs"
  shows "valid_table bs = valid_table cs"
proof -
  have len: "length bs = length cs" using map_eq_imp_length_eq [OF assms(1)] .
  have nth: "address (bs ! i) = address (cs ! i) \<and> share_bps (bs ! i) = share_bps (cs ! i)"
    if "i < length cs" for i
    using that len assms by (metis nth_map)
  have "shares_total xs = sum_list (map unat (map share_bps xs))" for xs
    by (simp add: shares_total_def comp_def)
  then have "shares_total bs = shares_total cs" using assms(2) by metis
  moreover have "list_all (\<lambda>b. address b \<noteq> 0 \<and> 0 < share_bps b) bs =
      list_all (\<lambda>b. address b \<noteq> 0 \<and> 0 < share_bps b) cs"
    using nth len by (simp add: list_all_length)
  ultimately show ?thesis
    using assms(1) len by (auto simp: valid_table_def)
qed

lemma vault_inv_table: "vault_inv v \<Longrightarrow> valid_table (heirs v)"
  by (simp add: vault_inv_def)

lemma active_heirs: "active v = Inr bs \<Longrightarrow> bs = heirs v"
  by (auto simp: active_def heirs_def split: if_splits)

lemma vault_inv_active [simp]: "vault_inv v \<Longrightarrow> active v = Inr (heirs v)"
  by (simp add: vault_inv_def active_def heirs_def)

text \<open>The view writes what \<open>active\<close> reads, and nothing else.\<close>

lemma active_mut_active:
  assumes "active_mut f v = Inr v'" "\<And>bs. length (f bs) = length bs"
  shows "active v' = map_sum id f (active v)"
    and "drop (length (heirs v)) (beneficiaries v') = drop (length (heirs v)) (beneficiaries v)"
  using assms by (auto simp: active_mut_def active_def heirs_def Let_def min_def split: if_splits)

lemma deadline_Inr:
  "deadline v = Inr d \<longleftrightarrow> sint d = sint (last_checkin v) + sint (timeout_seconds v)"
  by (simp add: deadline_def checked_add_i64_Some)

lemma deadline_fits:
  assumes "0 \<le> sint (timeout_seconds v)"
    and "sint (last_checkin v) + sint (timeout_seconds v) < 2 ^ 63"
  shows "\<exists>d. deadline v = Inr d"
  using assms sint_range_size [of "last_checkin v"]
  by (simp add: deadline_def checked_add_i64_def word_size)

lemma vault_inv_deadline:
  assumes "vault_inv v"
  shows "deadline v = Inr (last_checkin v + timeout_seconds v)"
    and "sint (last_checkin v + timeout_seconds v)
           = sint (last_checkin v) + sint (timeout_seconds v)"
proof -
  from assms have "\<exists>d. deadline v = Inr d"
    by (intro deadline_fits) (auto simp: vault_inv_def)
  then show "deadline v = Inr (last_checkin v + timeout_seconds v)"
    by (auto simp: deadline_def checked_add_i64_def split: if_splits)
  then show "sint (last_checkin v + timeout_seconds v)
           = sint (last_checkin v) + sint (timeout_seconds v)"
    by (simp add: deadline_Inr)
qed

lemma vault_inv_is_expired:
  "vault_inv v \<Longrightarrow>
     is_expired v now = Inr (sint (last_checkin v) + sint (timeout_seconds v) \<le> sint now)"
  by (simp add: is_expired_def vault_inv_deadline)

lemma unpaid_subset: "set (unpaid v) \<subseteq> set (heirs v)"
  by (auto simp: unpaid_def)

end
