(* ===== verification/Claim_Rules.thy ===== *)
theory Claim_Rules
  imports Vault_State
begin

text \<open>
  The rules of a claim. \<open>authorize_claim\<close> is characterised exactly: when it succeeds, what
  it books, and which error each refusal carries. \<open>book_claim\<close> is the part the two claim
  handlers share line by line: authorise, compute the amount, check it against what is
  available.
\<close>

section \<open>Effect of a successful authorisation\<close>

text \<open>
  The vault after an authorised claim, as two field updates: the switch trips on the first
  claim, and the slot of the claimant is marked.
\<close>

definition tripped :: "vault \<Rightarrow> u64 \<Rightarrow> vault" where
  "tripped v pool = (if is_claimed v then v else v\<lparr>is_claimed := True, claim_pool := pool\<rparr>)"

definition mark_claimed :: "nat \<Rightarrow> vault \<Rightarrow> vault" where
  "mark_claimed i v = v\<lparr>beneficiaries :=
     (beneficiaries v)[i := (beneficiaries v ! i)\<lparr>claimed := True\<rparr>]\<rparr>"

lemma tripped_fields [simp]:
  "owner (tripped v p) = owner v" "vault_id (tripped v p) = vault_id v"
  "mint (tripped v p) = mint v" "last_checkin (tripped v p) = last_checkin v"
  "timeout_seconds (tripped v p) = timeout_seconds v"
  "beneficiaries (tripped v p) = beneficiaries v"
  "beneficiary_count (tripped v p) = beneficiary_count v"
  "is_claimed (tripped v p)" "bump (tripped v p) = bump v"
  "claim_pool (tripped v p) = (if is_claimed v then claim_pool v else p)"
  by (simp_all add: tripped_def)

lemma mark_claimed_fields [simp]:
  "owner (mark_claimed i v) = owner v" "vault_id (mark_claimed i v) = vault_id v"
  "mint (mark_claimed i v) = mint v" "last_checkin (mark_claimed i v) = last_checkin v"
  "timeout_seconds (mark_claimed i v) = timeout_seconds v"
  "beneficiary_count (mark_claimed i v) = beneficiary_count v"
  "is_claimed (mark_claimed i v) = is_claimed v" "bump (mark_claimed i v) = bump v"
  "claim_pool (mark_claimed i v) = claim_pool v"
  by (simp_all add: mark_claimed_def)

lemma heirs_tripped [simp]: "heirs (tripped v p) = heirs v"
  by (simp add: heirs_def)

lemma unpaid_tripped [simp]: "unpaid (tripped v p) = unpaid v"
  by (simp add: unpaid_def)

lemma heirs_mark_claimed:
  "i < length (heirs v) \<Longrightarrow>
     heirs (mark_claimed i v) = (heirs v)[i := (heirs v ! i)\<lparr>claimed := True\<rparr>]"
  by (simp add: heirs_def mark_claimed_def take_update_swap)

lemma beneficiaries_nth:
  "i < length (heirs v) \<Longrightarrow> beneficiaries v ! i = heirs v ! i"
  by (simp add: heirs_def)

lemma unpaid_mark_claimed:
  assumes "distinct (heirs v)" "i < length (heirs v)" "\<not> claimed (heirs v ! i)"
  shows "unpaid (mark_claimed i v) = remove1 (heirs v ! i) (unpaid v)"
  using assms by (simp add: unpaid_def heirs_mark_claimed filter_update_remove1)

lemma mark_claimed_table:
  assumes "i < length (heirs v)"
  shows "map address (heirs (mark_claimed i v)) = map address (heirs v)"
    and "map share_bps (heirs (mark_claimed i v)) = map share_bps (heirs v)"
  using assms by (simp_all add: heirs_mark_claimed map_update list_update_same_conv)

lemma mark_claimed_claimed:
  assumes "i < length (heirs v)"
  shows "list_ex claimed (heirs (mark_claimed i v))"
  using assms by (auto simp: heirs_mark_claimed list_ex_iff set_update_memI
      intro!: bexI [of _ "(heirs v ! i)\<lparr>claimed := True\<rparr>"])

section \<open>Authorisation\<close>

lemma authorize_claim_Inr:
  assumes "vault_inv v"
  shows "authorize_claim v k now pool = Inr (t, v') \<longleftrightarrow>
    sint (last_checkin v) + sint (timeout_seconds v) \<le> sint now \<and>
    (\<exists>i<length (heirs v).
        address (heirs v ! i) = k \<and> \<not> claimed (heirs v ! i) \<and>
        t = \<lparr>ticket_share_bps = share_bps (heirs v ! i),
             is_last = (unpaid v = [heirs v ! i])\<rparr> \<and>
        v' = mark_claimed i (tripped v pool))"
proof -
  note inv = vault_inv_active [OF assms] vault_inv_is_expired [OF assms]
  have act: "active (if \<not> is_claimed v then v\<lparr>is_claimed := True, claim_pool := pool\<rparr> else v)
      = Inr (heirs v)"
    using inv(1) by (simp add: active_def split: if_splits)
  have trip: "(if \<not> is_claimed v then v\<lparr>is_claimed := True, claim_pool := pool\<rparr> else v)
      = tripped v pool"
    by (simp add: tripped_def)
  have inj: "j = i" if "address (heirs v ! i) = address (heirs v ! j)"
      "i < length (heirs v)" "j < length (heirs v)" for i j
    using that vault_inv_table [OF assms]
    by (auto simp: valid_table_def distinct_conv_nth)
  have pos: "position (\<lambda>b. address b = k) (heirs v) = Some i \<longleftrightarrow>
      i < length (heirs v) \<and> address (heirs v ! i) = k" for i
    by (auto simp: position_Some dest: inj)
  have last: "length (filter (\<lambda>b. \<not> claimed b) (heirs v)) = 1 \<longleftrightarrow> unpaid v = [heirs v ! i]"
    if "i < length (heirs v)" "\<not> claimed (heirs v ! i)" for i
  proof -
    have "heirs v ! i \<in> set (unpaid v)" using that by (simp add: unpaid_def)
    then show ?thesis using length_1_iff [of "unpaid v" "heirs v ! i"] by (auto simp: unpaid_def)
  qed
  show ?thesis
    by (auto simp: authorize_claim_def inv index_of_def and_then_eq_Inr act Let_def pos
        beneficiaries_nth trip [symmetric] last mark_claimed_def
        simp del: One_nat_def split: if_splits)
qed

lemma heirs_position_None:
  "position (\<lambda>b. address b = k) bs = None \<longleftrightarrow> k \<notin> address ` set bs"
  by (auto simp: position_None)

lemma authorize_claim_Inl:
  assumes "vault_inv v"
  shows "authorize_claim v k now pool = Inl e \<longleftrightarrow>
    (if sint now < sint (last_checkin v) + sint (timeout_seconds v) then e = Dms TimeoutNotReached
     else if k \<notin> address ` set (heirs v) then e = Dms Unauthorized
     else e = Dms AlreadyClaimed \<and> (\<exists>b\<in>set (heirs v). address b = k \<and> claimed b))"
proof (cases "position (\<lambda>b. address b = k) (heirs v)")
  case None
  then show ?thesis
    using heirs_position_None [of k "heirs v"] assms
    by (auto simp: authorize_claim_def vault_inv_is_expired index_of_def not_less)
next
  case (Some i)
  then have i: "i < length (heirs v)" "address (heirs v ! i) = k"
    by (simp_all add: position_Some)
  have act: "active (if \<not> is_claimed v then v\<lparr>is_claimed := True, claim_pool := pool\<rparr> else v)
      = Inr (heirs v)"
    using vault_inv_active [OF assms] by (simp add: active_def split: if_splits)
  have mem: "k \<in> address ` set (heirs v)" using i by (metis image_eqI nth_mem)
  have cl: "(\<exists>b\<in>set (heirs v). address b = k \<and> claimed b) \<longleftrightarrow> claimed (heirs v ! i)"
    using valid_table_address_inj [OF vault_inv_table [OF assms]] i nth_mem [of i "heirs v"] by metis
  show ?thesis
    using Some mem cl assms
    by (auto simp: authorize_claim_def vault_inv_is_expired index_of_def not_less act Let_def
        beneficiaries_nth i)
qed

section \<open>Booking a claim\<close>

text \<open>
  The amount of a claim: the last heir takes all that is available, any other heir their
  share of the pool; a zero amount and an amount above what is available are refused.
\<close>

definition claim_amount :: "claim_ticket \<Rightarrow> vault \<Rightarrow> u64 \<Rightarrow> error + u64" where
  "claim_amount ticket self available =
     and_then (if is_last ticket then Inr available
               else share_of (claim_pool self) (ticket_share_bps ticket)) (\<lambda>amount.
     and_then (require (0 < amount) (Dms InsufficientFunds)) (\<lambda>_.
     and_then (require (amount \<le> available) (Dms InsufficientFunds)) (\<lambda>_.
       Inr amount)))"

definition book_claim :: "vault \<Rightarrow> pubkey \<Rightarrow> i64 \<Rightarrow> u64 \<Rightarrow> error + u64 \<times> vault" where
  "book_claim self claimant now available =
     and_then (authorize_claim self claimant now available) (\<lambda>(ticket, self').
     and_then (claim_amount ticket self' available) (\<lambda>amount.
       Inr (amount, self')))"

text \<open>The pool a claim is measured against, and the amount one heir gets of it.\<close>

definition pool_of :: "vault \<Rightarrow> u64 \<Rightarrow> nat" where
  "pool_of v available = unat (if is_claimed v then claim_pool v else available)"

definition payout :: "vault \<Rightarrow> u64 \<Rightarrow> beneficiary \<Rightarrow> nat" where
  "payout v available b =
     (if unpaid v = [b] then unat available else entitlement (pool_of v available) b)"

lemma claim_amount_payout:
  assumes "vault_inv v" "b \<in> set (heirs v)"
    and "t = \<lparr>ticket_share_bps = share_bps b, is_last = (unpaid v = [b])\<rparr>"
  shows "claim_amount t (mark_claimed i (tripped v avail)) avail =
    (if 0 < payout v avail b \<and> payout v avail b \<le> unat avail
     then Inr (of_nat (payout v avail b)) else Inl (Dms InsufficientFunds))"
proof -
  have bps: "unat (share_bps b) \<le> 10000"
    using assms by (blast intro: valid_table_share vault_inv_table)
  note sh = share_of_entitlement [OF bps, of "if is_claimed v then claim_pool v else avail"]
  show ?thesis
  proof (cases "unpaid v = [b]")
    case True
    then show ?thesis
      by (auto simp: claim_amount_def assms(3) payout_def word_neq_0_conv [symmetric] unat_gt_0)
  next
    case False
    then show ?thesis
      using sh unfolding claim_amount_def assms(3) payout_def pool_of_def
      by (auto simp: word_le_nat_alt word_less_nat_alt simp del: unat_of_nat)
  qed
qed

lemma book_claim_Inr:
  assumes "vault_inv v"
  shows "book_claim v k now avail = Inr (amt, v') \<longleftrightarrow>
    sint (last_checkin v) + sint (timeout_seconds v) \<le> sint now \<and>
    (\<exists>i<length (heirs v).
        address (heirs v ! i) = k \<and> \<not> claimed (heirs v ! i) \<and>
        v' = mark_claimed i (tripped v avail) \<and>
        unat amt = payout v avail (heirs v ! i) \<and> 0 < amt \<and> amt \<le> avail)"
proof -
  have conv: "(if 0 < n \<and> n \<le> unat avail then Inr (of_nat n) else Inl (Dms InsufficientFunds))
      = (Inr amt :: error + u64) \<longleftrightarrow> unat amt = n \<and> 0 < amt \<and> amt \<le> avail" for n
    using unat_less [of avail]
    by (auto simp: word_less_nat_alt word_le_nat_alt unat_of_nat)
  have amount: "claim_amount \<lparr>ticket_share_bps = share_bps (heirs v ! i),
        is_last = (unpaid v = [heirs v ! i])\<rparr> (mark_claimed i (tripped v avail)) avail = Inr amt
      \<longleftrightarrow> unat amt = payout v avail (heirs v ! i) \<and> 0 < amt \<and> amt \<le> avail"
    if "i < length (heirs v)" for i
    using claim_amount_payout [OF assms nth_mem [OF that] refl] conv by simp
  have "book_claim v k now avail = Inr (amt, v') \<longleftrightarrow>
      (\<exists>t. authorize_claim v k now avail = Inr (t, v') \<and> claim_amount t v' avail = Inr amt)"
    by (auto simp: book_claim_def and_then_eq_Inr)
  also have "\<dots> \<longleftrightarrow> sint (last_checkin v) + sint (timeout_seconds v) \<le> sint now \<and>
    (\<exists>i<length (heirs v). address (heirs v ! i) = k \<and> \<not> claimed (heirs v ! i) \<and>
        v' = mark_claimed i (tripped v avail) \<and>
        claim_amount \<lparr>ticket_share_bps = share_bps (heirs v ! i),
          is_last = (unpaid v = [heirs v ! i])\<rparr> (mark_claimed i (tripped v avail)) avail = Inr amt)"
    unfolding authorize_claim_Inr [OF assms] by blast
  finally show ?thesis using amount by auto
qed

lemma book_claim_amount:
  "book_claim v k now avail = Inr (amt, v') \<Longrightarrow> 0 < amt \<and> amt \<le> avail"
  by (auto simp: book_claim_def claim_amount_def and_then_eq_Inr split: if_splits)

section \<open>Accounting\<close>

text \<open>A vault is solvent when it holds at least what it owes to the heirs not yet paid.\<close>

definition solvent :: "vault \<Rightarrow> nat \<Rightarrow> bool" where
  "solvent v available \<longleftrightarrow> (is_claimed v \<longrightarrow> owed v \<le> available)"

lemma solvent_mono: "solvent v a \<Longrightarrow> a \<le> b \<Longrightarrow> solvent v b"
  by (auto simp: solvent_def)

lemma owed_remove:
  assumes "b \<in> set (unpaid v)"
  shows "sum_list (map (entitlement p) (unpaid v))
       = entitlement p b + sum_list (map (entitlement p) (remove1 b (unpaid v)))"
  using assms by (rule sum_list_remove1)

lemma unpaid_entitlements_le:
  assumes "vault_inv v"
  shows "sum_list (map (entitlement p) (unpaid v)) \<le> p"
proof -
  have "sum_list (map (entitlement p) (unpaid v)) \<le> sum_list (map (entitlement p) (heirs v))"
    unfolding unpaid_def by (induction "heirs v") (auto simp: sum_list_filter_le_nat)
  also have "\<dots> \<le> p"
    using vault_inv_table [OF assms] by (intro entitlements_le_pool) (simp add: valid_table_def)
  finally show ?thesis .
qed

lemma solvent_pool:
  assumes "vault_inv v" "solvent v (unat avail)"
  shows "sum_list (map (entitlement (pool_of v avail)) (unpaid v)) \<le> unat avail"
  using assms unpaid_entitlements_le [OF assms(1), of "unat avail"]
  by (auto simp: solvent_def owed_def pool_of_def)

lemma claimed_slot:
  assumes "vault_inv v" "i < length (heirs v)" "\<not> claimed (heirs v ! i)"
  shows "heirs v ! i \<in> set (unpaid v)"
    and "unpaid (mark_claimed i (tripped v avail)) = remove1 (heirs v ! i) (unpaid v)"
  using assms valid_table_distinct [OF vault_inv_table [OF assms(1)]]
    unpaid_mark_claimed [of "tripped v avail" i]
  by (simp_all add: unpaid_def [of v])

lemma book_claim_accounts:
  assumes inv: "vault_inv v" and solv: "solvent v (unat avail)"
    and book: "book_claim v k now avail = Inr (amt, v')"
  shows "owed v' + unat amt \<le> unat avail"
proof -
  from book obtain i where i: "i < length (heirs v)" "\<not> claimed (heirs v ! i)"
    and v': "v' = mark_claimed i (tripped v avail)"
    and amt: "unat amt = payout v avail (heirs v ! i)" "amt \<le> avail"
    by (auto simp: book_claim_Inr [OF inv])
  let ?b = "heirs v ! i" and ?p = "pool_of v avail"
  note slot = claimed_slot [OF inv i]
  have owed': "owed v' = sum_list (map (entitlement ?p) (remove1 ?b (unpaid v)))"
    using slot(2) by (auto simp: owed_def v' pool_of_def)
  show ?thesis
  proof (cases "unpaid v = [?b]")
    case True
    then show ?thesis using amt(2) owed' by (simp add: word_le_nat_alt)
  next
    case False
    then have "unat amt = entitlement ?p ?b" using amt(1) by (simp add: payout_def)
    then show ?thesis
      using solvent_pool [OF inv solv] owed_remove [OF slot(1), of ?p] owed' by simp
  qed
qed

lemma mark_claimed_inv:
  assumes inv: "vault_inv v" and i: "i < length (heirs v)"
    and pool: "\<not> is_claimed v \<Longrightarrow> 0 < avail"
  shows "vault_inv (mark_claimed i (tripped v avail))"
proof -
  let ?v' = "mark_claimed i (tripped v avail)"
  have "valid_table (heirs ?v') = valid_table (heirs v)"
    using i mark_claimed_table [of i "tripped v avail"] by (intro valid_table_cong) simp_all
  moreover have "list_ex claimed (heirs ?v')"
    using i by (intro mark_claimed_claimed) simp
  moreover have "length (beneficiaries ?v') = length (beneficiaries v)"
    by (simp add: mark_claimed_def)
  ultimately show ?thesis
    using inv pool by (simp add: vault_inv_def split: if_splits)
qed

lemma book_claim_inv:
  assumes inv: "vault_inv v" and book: "book_claim v k now avail = Inr (amt, v')"
  shows "vault_inv v'"
proof -
  from book obtain i where i: "i < length (heirs v)" and v': "v' = mark_claimed i (tripped v avail)"
    and "0 < amt" "amt \<le> avail"
    by (auto simp: book_claim_Inr [OF inv])
  then have "0 < avail" by (meson less_le_trans)
  then show ?thesis unfolding v' by (intro mark_claimed_inv inv i)
qed

lemma book_claim_solvent:
  assumes "vault_inv v" "solvent v (unat avail)" "book_claim v k now avail = Inr (amt, v')"
  shows "solvent v' (unat (avail - amt))"
proof -
  have "amt \<le> avail" using assms(3) by (auto simp: book_claim_Inr [OF assms(1)])
  then show ?thesis
    using book_claim_accounts [OF assms] by (simp add: solvent_def unat_sub word_le_nat_alt le_diff_conv2)
qed

lemma book_claim_frame:
  assumes "vault_inv v" "book_claim v k now avail = Inr (amt, v')"
  shows "owner v' = owner v" "vault_id v' = vault_id v" "mint v' = mint v"
    "last_checkin v' = last_checkin v" "timeout_seconds v' = timeout_seconds v"
    "bump v' = bump v" "is_claimed v'"
    "map address (heirs v') = map address (heirs v)"
    "map share_bps (heirs v') = map share_bps (heirs v)"
  using assms mark_claimed_table [of _ "tripped v avail"]
  by (auto simp: book_claim_Inr [OF assms(1)])

section \<open>Claims run out\<close>

text \<open>
  One claim of a vault turns it into the other, by anyone, at any time, whatever is available.
  Each claim pays one heir who was unpaid, so no vault can be claimed for ever.
\<close>

definition claim_step :: "(vault \<times> vault) set" where
  "claim_step = {(v', v). vault_inv v \<and> (\<exists>k now avail amt. book_claim v k now avail = Inr (amt, v'))}"

lemma book_claim_unpaid:
  assumes "vault_inv v" "book_claim v k now avail = Inr (amt, v')"
  shows "length (unpaid v) = Suc (length (unpaid v'))"
proof -
  from assms(2) obtain i where i: "i < length (heirs v)" "\<not> claimed (heirs v ! i)"
    and v': "v' = mark_claimed i (tripped v avail)"
    by (auto simp: book_claim_Inr [OF assms(1)])
  note slot = claimed_slot [OF assms(1) i]
  from slot(1) have "0 < length (unpaid v)" by (rule length_pos_if_in_set)
  with slot show ?thesis by (simp add: v' length_remove1)
qed

lemma wf_claim_step: "wf claim_step"
  by (rule wf_subset [of "measure (\<lambda>v. length (unpaid v))"]) (auto simp: claim_step_def dest: book_claim_unpaid)

lemma claim_steps_bounded:
  assumes "(v', v) \<in> claim_step ^^ n"
  shows "n + length (unpaid v') \<le> length (unpaid v)"
  using assms
proof (induction n arbitrary: v)
  case (Suc n)
  then obtain u where "(v', u) \<in> claim_step ^^ n" "(u, v) \<in> claim_step" by auto
  then show ?case using Suc.IH [of u] by (auto simp: claim_step_def dest: book_claim_unpaid)
qed simp

lemma at_most_five_claims: "claim_step ^^ 6 = {}"
proof -
  have False if "(v', v) \<in> claim_step ^^ 6" for v v'
  proof -
    have "(v', v) \<in> claim_step ^^ 5 O claim_step"
      using that by (simp add: relpow_commute numeral_eq_Suc O_assoc)
    then have "vault_inv v" by (auto simp: claim_step_def)
    then have "length (heirs v) \<le> 5"
      by (simp add: vault_inv_def valid_table_def MAX_BENEFICIARIES_def)
    then have "length (unpaid v) \<le> 5"
      unfolding unpaid_def by (rule order_trans [OF length_filter_le])
    then show False using claim_steps_bounded [OF that] by simp
  qed
  then show ?thesis by auto
qed

end
