(* ===== verification/Ledger.thy ===== *)
theory Ledger
  imports Claim_Rules
begin

text \<open>
  The accounts an instruction works on, and what it needs from outside the repository.
  A \<open>ledger\<close> maps every address to its account; the account's data is kept at the level
  of the types the program deserialises. Everything that is not in the repository (the
  Solana runtime, the System program, the SPL token programs, address derivation) is a
  field of the record \<open>runtime\<close>, an argument of every handler. The definitions named
  \<open>..._law\<close> state the documented behaviour of those fields; theorems that rely on one
  name it as a hypothesis.
\<close>

section \<open>Accounts\<close>

record token_account =
  tok_mint :: pubkey
  tok_owner :: pubkey
  tok_amount :: u64

datatype account_data =
    NoData
  | VaultData vault
  | TokenData token_account
  | MintData u8   \<comment> \<open>the decimals\<close>
  | OtherData

record account =
  lamports :: u64
  owner_program :: pubkey
  data_len :: nat
  data :: account_data

type_synonym ledger = "pubkey \<Rightarrow> account"

record chain =
  accounts :: ledger
  unix_timestamp :: i64

section \<open>The world outside the repository\<close>

record runtime =
  program_id :: pubkey
  system_program :: pubkey
  token_programs :: "pubkey list"
  find_program_address :: "u8 list list \<Rightarrow> pubkey \<times> u8"
  create_program_address :: "u8 list list \<Rightarrow> pubkey option"
  minimum_balance :: "nat \<Rightarrow> u64"
  system_transfer :: "pubkey \<Rightarrow> pubkey \<Rightarrow> u64 \<Rightarrow> ledger \<Rightarrow> nat + ledger"
  init_account :: "pubkey \<Rightarrow> pubkey \<Rightarrow> nat \<Rightarrow> ledger \<Rightarrow> nat + ledger"
  associated_address :: "pubkey \<Rightarrow> pubkey \<Rightarrow> pubkey \<Rightarrow> pubkey"
  create_associated :: "pubkey \<Rightarrow> pubkey \<Rightarrow> pubkey \<Rightarrow> pubkey \<Rightarrow> pubkey \<Rightarrow> ledger \<Rightarrow> nat + ledger"
  transfer_checked ::
    "pubkey \<Rightarrow> pubkey \<Rightarrow> pubkey \<Rightarrow> pubkey \<Rightarrow> pubkey \<Rightarrow> u64 \<Rightarrow> u8 \<Rightarrow> ledger \<Rightarrow> nat + ledger"
  close_token_account :: "pubkey \<Rightarrow> pubkey \<Rightarrow> pubkey \<Rightarrow> pubkey \<Rightarrow> ledger \<Rightarrow> nat + ledger"

text \<open>An error of a called program aborts the instruction.\<close>

definition cpi :: "nat + 'a \<Rightarrow> error + 'a" where
  "cpi r = (case r of Inl n \<Rightarrow> Inl (External n) | Inr x \<Rightarrow> Inr x)"

lemma cpi_Inr [simp]: "cpi r = Inr x \<longleftrightarrow> r = Inr x"
  by (cases r) (auto simp: cpi_def)

lemma cpi_simps [simp]: "cpi (Inl n) = Inl (External n)" "cpi (Inr x) = Inr x"
  by (simp_all add: cpi_def)

section \<open>Account validation\<close>

text \<open>
  The checks that the \<open>#[account(...)]\<close> attributes request, one definition per kind.
  \<open>signers\<close> are the keys that signed the transaction.
\<close>

definition load_signer :: "pubkey list \<Rightarrow> pubkey \<Rightarrow> error + unit" where
  "load_signer signers key = require (key \<in> set signers) (Anchor AccountNotSigner)"

definition vault_seeds :: "pubkey \<Rightarrow> u64 \<Rightarrow> u8 list list" where
  "vault_seeds own ident = [VAULT_SEED, le_bytes 32 own, le_bytes 8 ident]"

text \<open>
  \<open>Account<Vault>\<close>, and its constraint \<open>seeds = [...], bump = vault.bump\<close>. Anchor reads all
  the accounts of an instruction first and checks their constraints afterwards; where
  nothing comes in between, \<open>load_vault\<close> is both.
\<close>

definition read_vault :: "ledger \<Rightarrow> pubkey \<Rightarrow> error + vault" where
  "read_vault A key =
     (case data (A key) of
        VaultData v \<Rightarrow> Inr v
      | _ \<Rightarrow> Inl (Anchor AccountDidNotDeserialize))"

definition check_seeds :: "runtime \<Rightarrow> pubkey \<Rightarrow> vault \<Rightarrow> error + unit" where
  "check_seeds rt key v =
     require (create_program_address rt (vault_seeds (owner v) (vault_id v) @ [[bump v]]) = Some key)
       (Anchor ConstraintSeeds)"

definition load_vault :: "runtime \<Rightarrow> ledger \<Rightarrow> pubkey \<Rightarrow> error + vault" where
  "load_vault rt A key =
     and_then (read_vault A key) (\<lambda>v. and_then (check_seeds rt key v) (\<lambda>_. Inr v))"

text \<open>\<open>InterfaceAccount<Mint>\<close>, giving the decimals, and \<open>InterfaceAccount<TokenAccount>\<close>.\<close>

definition load_mint :: "runtime \<Rightarrow> ledger \<Rightarrow> pubkey \<Rightarrow> error + u8" where
  "load_mint rt A key =
     (case data (A key) of
        MintData d \<Rightarrow> and_then (require (owner_program (A key) \<in> set (token_programs rt))
                       (Anchor AccountDidNotDeserialize)) (\<lambda>_. Inr d)
      | _ \<Rightarrow> Inl (Anchor AccountDidNotDeserialize))"

definition load_token :: "runtime \<Rightarrow> ledger \<Rightarrow> pubkey \<Rightarrow> error + token_account" where
  "load_token rt A key =
     (case data (A key) of
        TokenData t \<Rightarrow> and_then (require (owner_program (A key) \<in> set (token_programs rt))
                        (Anchor AccountDidNotDeserialize)) (\<lambda>_. Inr t)
      | _ \<Rightarrow> Inl (Anchor AccountDidNotDeserialize))"

definition load_token_program :: "runtime \<Rightarrow> pubkey \<Rightarrow> error + unit" where
  "load_token_program rt key =
     require (key \<in> set (token_programs rt)) (Anchor InvalidProgramId)"

text \<open>
  \<open>associated_token::mint, authority, token_program\<close> on an existing account, once it is read;
  \<open>load_associated\<close> is both.
\<close>

definition check_associated ::
  "runtime \<Rightarrow> ledger \<Rightarrow> pubkey \<Rightarrow> token_account \<Rightarrow> pubkey \<Rightarrow> pubkey \<Rightarrow> pubkey \<Rightarrow> error + unit" where
  "check_associated rt A key t wallet mnt prog =
     and_then (require (owner_program (A key) = prog)
                 (Anchor ConstraintTokenTokenProgram)) (\<lambda>_.
     and_then (require (tok_owner t = wallet) (Anchor ConstraintTokenOwner)) (\<lambda>_.
       require (key = associated_address rt wallet mnt prog) (Anchor ConstraintAssociated)))"

definition load_associated ::
  "runtime \<Rightarrow> ledger \<Rightarrow> pubkey \<Rightarrow> pubkey \<Rightarrow> pubkey \<Rightarrow> pubkey \<Rightarrow> error + token_account" where
  "load_associated rt A key wallet mnt prog =
     and_then (load_token rt A key) (\<lambda>t.
     and_then (check_associated rt A key t wallet mnt prog) (\<lambda>_. Inr t))"

text \<open>The same with \<open>init_if_needed\<close>: a missing account is created first, at the payer's cost.\<close>

definition init_if_needed_associated ::
  "runtime \<Rightarrow> ledger \<Rightarrow> pubkey \<Rightarrow> pubkey \<Rightarrow> pubkey \<Rightarrow> pubkey \<Rightarrow> pubkey \<Rightarrow> error + ledger" where
  "init_if_needed_associated rt A key payer wallet mnt prog =
     and_then (if owner_program (A key) = system_program rt
               then cpi (create_associated rt payer key wallet mnt prog A) else Inr A) (\<lambda>A'.
     and_then (load_token rt A' key) (\<lambda>t.
     and_then (require (tok_mint t = mnt) (Anchor ConstraintTokenMint)) (\<lambda>_.
     and_then (require (tok_owner t = wallet) (Anchor ConstraintTokenOwner)) (\<lambda>_.
     and_then (require (owner_program (A' key) = prog)
                 (Anchor ConstraintTokenTokenProgram)) (\<lambda>_.
     and_then (require (key = associated_address rt wallet mnt prog)
                 (Anchor ConstraintAssociated)) (\<lambda>_. Inr A'))))))"

section \<open>Lamports\<close>

definition withdrawable_lamports :: "runtime \<Rightarrow> account \<Rightarrow> u64" where
  "withdrawable_lamports rt info =
     saturating_sub (lamports info) (minimum_balance rt (data_len info))"

text \<open>Both balances are read before either is written, as in the source.\<close>

definition move_lamports :: "pubkey \<Rightarrow> pubkey \<Rightarrow> u64 \<Rightarrow> ledger \<Rightarrow> error + ledger" where
  "move_lamports src dst amount A =
     and_then (ok_or (checked_sub (lamports (A src)) amount) (Dms InsufficientFunds)) (\<lambda>debited.
     and_then (ok_or (checked_add (lamports (A dst)) amount) (Dms MathOverflow)) (\<lambda>credited.
       let A1 = A(src := (A src)\<lparr>lamports := debited\<rparr>)
       in Inr (A1(dst := (A1 dst)\<lparr>lamports := credited\<rparr>))))"

text \<open>Writing an account's vault back when the instruction ends.\<close>

definition store_vault :: "pubkey \<Rightarrow> vault \<Rightarrow> ledger \<Rightarrow> ledger" where
  "store_vault key v A = A(key := (A key)\<lparr>data := VaultData v\<rparr>)"

definition vault_at :: "ledger \<Rightarrow> pubkey \<Rightarrow> vault option" where
  "vault_at A key = (case data (A key) of VaultData v \<Rightarrow> Some v | _ \<Rightarrow> None)"

definition token_at :: "ledger \<Rightarrow> pubkey \<Rightarrow> token_account option" where
  "token_at A key = (case data (A key) of TokenData t \<Rightarrow> Some t | _ \<Rightarrow> None)"

lemma vault_at_Some: "vault_at A key = Some v \<longleftrightarrow> data (A key) = VaultData v"
  by (simp add: vault_at_def split: account_data.split)

lemma token_at_Some: "token_at A key = Some t \<longleftrightarrow> data (A key) = TokenData t"
  by (simp add: token_at_def split: account_data.split)

lemma load_signer_Inr [simp]: "load_signer signers key = Inr u \<longleftrightarrow> key \<in> set signers"
  by (simp add: load_signer_def)

lemma read_vault_Inr: "read_vault A key = Inr v \<longleftrightarrow> data (A key) = VaultData v"
  by (simp add: read_vault_def split: account_data.split)

lemma check_seeds_Inr:
  "check_seeds rt key v = Inr u \<longleftrightarrow>
     create_program_address rt (vault_seeds (owner v) (vault_id v) @ [[bump v]]) = Some key"
  by (simp add: check_seeds_def)

lemma load_vault_read:
  "read_vault A key = Inr v \<and> check_seeds rt key v = Inr () \<longleftrightarrow> load_vault rt A key = Inr v"
  by (auto simp: load_vault_def and_then_eq_Inr)

lemma load_vault_Inr:
  "load_vault rt A key = Inr v \<longleftrightarrow> data (A key) = VaultData v \<and>
     create_program_address rt (vault_seeds (owner v) (vault_id v) @ [[bump v]]) = Some key"
  by (auto simp: load_vault_def and_then_eq_Inr read_vault_Inr check_seeds_Inr)

lemma load_mint_Inr:
  "load_mint rt A key = Inr d \<longleftrightarrow>
     data (A key) = MintData d \<and> owner_program (A key) \<in> set (token_programs rt)"
  by (auto simp: load_mint_def split: account_data.split)

lemma load_token_Inr:
  "load_token rt A key = Inr t \<longleftrightarrow>
     data (A key) = TokenData t \<and> owner_program (A key) \<in> set (token_programs rt)"
  by (auto simp: load_token_def split: account_data.split)

lemma load_token_program_Inr [simp]:
  "load_token_program rt key = Inr u \<longleftrightarrow> key \<in> set (token_programs rt)"
  by (simp add: load_token_program_def)

lemma load_associated_Inr:
  "load_associated rt A key wallet mnt prog = Inr t \<longleftrightarrow>
     data (A key) = TokenData t \<and> owner_program (A key) = prog \<and> prog \<in> set (token_programs rt) \<and>
     tok_owner t = wallet \<and> key = associated_address rt wallet mnt prog"
  by (auto simp: load_associated_def check_associated_def and_then_eq_Inr load_token_Inr)

lemma load_associated_read:
  "load_token rt A key = Inr t \<and> check_associated rt A key t wallet mnt prog = Inr () \<longleftrightarrow>
     load_associated rt A key wallet mnt prog = Inr t"
  by (auto simp: load_associated_def and_then_eq_Inr)

lemma init_if_needed_associated_Inr:
  "init_if_needed_associated rt A key payer wallet mnt prog = Inr A' \<longleftrightarrow>
     (if owner_program (A key) = system_program rt
      then create_associated rt payer key wallet mnt prog A = Inr A' else A' = A) \<and>
     (\<exists>t. data (A' key) = TokenData t \<and> tok_mint t = mnt \<and> tok_owner t = wallet) \<and>
     owner_program (A' key) = prog \<and> prog \<in> set (token_programs rt) \<and>
     key = associated_address rt wallet mnt prog"
  by (auto simp: init_if_needed_associated_def and_then_eq_Inr load_token_Inr)

lemma move_lamports_Inr:
  "move_lamports src dst amount A = Inr A' \<longleftrightarrow>
     unat amount \<le> unat (lamports (A src)) \<and>
     unat (lamports (A dst)) + unat amount < 2 ^ 64 \<and>
     A' = (A(src := (A src)\<lparr>lamports := lamports (A src) - amount\<rparr>))
            (dst := (if dst = src then A src else A dst)\<lparr>lamports := lamports (A dst) + amount\<rparr>)"
  by (auto simp: move_lamports_def and_then_eq_Inr checked_sub_def checked_add_def Let_def
      word_le_nat_alt)

end
