(* ===== verification/Vault_Setup.thy ===== *)
theory Vault_Setup
  imports Ledger
begin

text \<open>
  \<open>initialize_vault.rs\<close>, \<open>check_in.rs\<close> and \<open>set_beneficiaries.rs\<close>. Each instruction is
  three definitions, as in the source: the account validation of its \<open>#[derive(Accounts)]\<close>
  struct (\<open>accounts_...\<close>), its handler (\<open>handle_...\<close>) and the entry point of \<open>lib.rs\<close> that
  runs one after the other. An instruction that fails leaves the chain as it was, so a
  failing instruction is just its error.
\<close>

section \<open>initialize_vault\<close>

text \<open>
  The slots start as five defaults and the inputs overwrite a prefix of them, which is the
  \<open>zip\<close> loop of both handlers that write a heir table.
\<close>

definition slot_of_input :: "beneficiary_input \<Rightarrow> beneficiary" where
  "slot_of_input i =
     \<lparr>address = input_address i, share_bps = input_share_bps i, claimed = False\<rparr>"

fun fill_slots :: "beneficiary list \<Rightarrow> beneficiary_input list \<Rightarrow> beneficiary list" where
  "fill_slots (s # ss) (i # is) = slot_of_input i # fill_slots ss is"
| "fill_slots ss is = ss"

definition accounts_initialize_vault ::
  "runtime \<Rightarrow> pubkey list \<Rightarrow> pubkey \<Rightarrow> pubkey \<Rightarrow> pubkey option \<Rightarrow> u64 \<Rightarrow> ledger
     \<Rightarrow> error + u8 \<times> ledger" where
  "accounts_initialize_vault rt signers own key mnt ident A =
     and_then (load_signer signers own) (\<lambda>_.
     and_then (case mnt of None \<Rightarrow> Inr () | Some m \<Rightarrow> and_then (load_mint rt A m) (\<lambda>_. Inr ())) (\<lambda>_.
     (case find_program_address rt (vault_seeds own ident) of (pda, bmp) \<Rightarrow>
       and_then (require (key = pda) (Anchor ConstraintSeeds)) (\<lambda>_.
       and_then (cpi (init_account rt own key (8 + vault_init_space) A)) (\<lambda>A'.
         Inr (bmp, A'))))))"

definition handle_initialize_vault ::
  "pubkey \<Rightarrow> pubkey option \<Rightarrow> u8 \<Rightarrow> u64 \<Rightarrow> i64 \<Rightarrow> beneficiary_input list \<Rightarrow> i64 \<Rightarrow> error + vault" where
  "handle_initialize_vault own mnt bmp ident tmo inputs now =
     and_then (require (sint MIN_TIMEOUT_SECONDS \<le> sint tmo \<and> sint tmo \<le> sint MAX_TIMEOUT_SECONDS)
                 (Dms InvalidTimeout)) (\<lambda>_.
     and_then (require (length inputs \<le> MAX_BENEFICIARIES) (Dms TooManyBeneficiaries)) (\<lambda>_.
       let count = length inputs;
           slots = fill_slots (replicate MAX_BENEFICIARIES beneficiary_default) inputs
       in and_then (validate_slots (take count slots)) (\<lambda>_.
       let v = \<lparr>owner = own, vault_id = ident, mint = mnt, last_checkin = now,
                timeout_seconds = tmo, beneficiaries = slots, beneficiary_count = of_nat count,
                is_claimed = False, claim_pool = 0, bump = bmp\<rparr>
       in and_then (deadline v) (\<lambda>_. Inr v))))"

definition initialize_vault ::
  "runtime \<Rightarrow> pubkey list \<Rightarrow> pubkey \<Rightarrow> pubkey \<Rightarrow> pubkey option \<Rightarrow> u64 \<Rightarrow> i64
     \<Rightarrow> beneficiary_input list \<Rightarrow> chain \<Rightarrow> error + chain" where
  "initialize_vault rt signers own key mnt ident tmo inputs s =
     and_then (accounts_initialize_vault rt signers own key mnt ident (accounts s)) (\<lambda>(bmp, A).
     and_then (handle_initialize_vault own mnt bmp ident tmo inputs (unix_timestamp s)) (\<lambda>v.
       Inr (s\<lparr>accounts := store_vault key v A\<rparr>)))"

section \<open>check_in\<close>

definition accounts_check_in ::
  "runtime \<Rightarrow> pubkey list \<Rightarrow> pubkey \<Rightarrow> pubkey \<Rightarrow> ledger \<Rightarrow> error + vault" where
  "accounts_check_in rt signers own key A =
     and_then (load_signer signers own) (\<lambda>_.
     and_then (load_vault rt A key) (\<lambda>v.
     and_then (require (owner v = own) (Dms Unauthorized)) (\<lambda>_.
     and_then (require (\<not> is_claimed v) (Dms VaultTriggered)) (\<lambda>_. Inr v))))"

definition handle_check_in :: "vault \<Rightarrow> i64 \<Rightarrow> error + vault" where
  "handle_check_in v now =
     (let v' = v\<lparr>last_checkin := now\<rparr> in and_then (deadline v') (\<lambda>_. Inr v'))"

definition check_in ::
  "runtime \<Rightarrow> pubkey list \<Rightarrow> pubkey \<Rightarrow> pubkey \<Rightarrow> chain \<Rightarrow> error + chain" where
  "check_in rt signers own key s =
     and_then (accounts_check_in rt signers own key (accounts s)) (\<lambda>v.
     and_then (handle_check_in v (unix_timestamp s)) (\<lambda>v'.
       Inr (s\<lparr>accounts := store_vault key v' (accounts s)\<rparr>)))"

section \<open>set_beneficiaries\<close>

definition accounts_set_beneficiaries ::
  "runtime \<Rightarrow> pubkey list \<Rightarrow> pubkey \<Rightarrow> pubkey \<Rightarrow> ledger \<Rightarrow> error + vault" where
  "accounts_set_beneficiaries rt signers own key A =
     and_then (load_signer signers own) (\<lambda>_.
     and_then (load_vault rt A key) (\<lambda>v.
     and_then (require (owner v = own) (Dms Unauthorized)) (\<lambda>_.
     and_then (require (\<not> is_claimed v) (Dms VaultTriggered)) (\<lambda>_. Inr v))))"

definition handle_set_beneficiaries :: "vault \<Rightarrow> beneficiary_input list \<Rightarrow> error + vault" where
  "handle_set_beneficiaries v inputs =
     and_then (require (length inputs \<le> MAX_BENEFICIARIES) (Dms TooManyBeneficiaries)) (\<lambda>_.
       let count = length inputs;
           slots = fill_slots (replicate MAX_BENEFICIARIES beneficiary_default) inputs
       in and_then (validate_slots (take count slots)) (\<lambda>_.
         Inr (v\<lparr>beneficiaries := slots, beneficiary_count := of_nat count\<rparr>)))"

definition set_beneficiaries ::
  "runtime \<Rightarrow> pubkey list \<Rightarrow> pubkey \<Rightarrow> pubkey \<Rightarrow> beneficiary_input list \<Rightarrow> chain \<Rightarrow> error + chain" where
  "set_beneficiaries rt signers own key inputs s =
     and_then (accounts_set_beneficiaries rt signers own key (accounts s)) (\<lambda>v.
     and_then (handle_set_beneficiaries v inputs) (\<lambda>v'.
       Inr (s\<lparr>accounts := store_vault key v' (accounts s)\<rparr>)))"

section \<open>Filling the heir table\<close>

lemma length_fill_slots [simp]: "length (fill_slots ss is) = length ss"
  by (induction ss "is" rule: fill_slots.induct) auto

lemma take_fill_slots:
  "length is \<le> length ss \<Longrightarrow> take (length is) (fill_slots ss is) = map slot_of_input is"
  by (induction ss "is" rule: fill_slots.induct) auto

text \<open>What the new table must look like: the inputs, all unclaimed, pass validation.\<close>

definition table_of :: "beneficiary_input list \<Rightarrow> beneficiary list" where
  "table_of inputs = map slot_of_input inputs"

lemma table_of_unclaimed [simp]: "filter (\<lambda>b. \<not> claimed b) (table_of inputs) = table_of inputs"
  by (simp add: table_of_def slot_of_input_def filter_map comp_def)

lemma new_table:
  assumes "length inputs \<le> MAX_BENEFICIARIES"
    and "beneficiaries v = fill_slots (replicate MAX_BENEFICIARIES beneficiary_default) inputs"
    and "beneficiary_count v = of_nat (length inputs)"
  shows "heirs v = table_of inputs" "unpaid v = table_of inputs"
    and "unat (beneficiary_count v) \<le> MAX_BENEFICIARIES"
    and "length (beneficiaries v) = MAX_BENEFICIARIES"
proof -
  have n: "unat (of_nat (length inputs) :: u8) = length inputs"
    using assms(1) by (simp add: unat_of_nat MAX_BENEFICIARIES_def)
  then show h: "heirs v = table_of inputs"
    using assms by (simp add: heirs_def take_fill_slots table_of_def del: unat_of_nat)
  show "unpaid v = table_of inputs" by (simp add: unpaid_def h)
  show "unat (beneficiary_count v) \<le> MAX_BENEFICIARIES" using assms n by simp
  show "length (beneficiaries v) = MAX_BENEFICIARIES" using assms by simp
qed

lemma handle_initialize_vault_Inr:
  "handle_initialize_vault own mnt bmp ident tmo inputs now = Inr v \<longleftrightarrow>
     60 \<le> sint tmo \<and> sint tmo \<le> 315360000 \<and> valid_table (table_of inputs) \<and>
     sint now + sint tmo < 2 ^ 63 \<and>
     v = \<lparr>owner = own, vault_id = ident, mint = mnt, last_checkin = now, timeout_seconds = tmo,
          beneficiaries = fill_slots (replicate MAX_BENEFICIARIES beneficiary_default) inputs,
          beneficiary_count = of_nat (length inputs), is_claimed = False, claim_pool = 0, bump = bmp\<rparr>"
proof -
  have len: "valid_table (table_of inputs) \<Longrightarrow> length inputs \<le> MAX_BENEFICIARIES"
    by (simp add: valid_table_def table_of_def)
  have dl: "(\<exists>d. deadline v = Inr d) \<longleftrightarrow> sint now + sint tmo < 2 ^ 63"
    if "last_checkin v = now" "timeout_seconds v = tmo" "0 \<le> sint tmo" for v
    using that sint_range_size [of now] by (auto simp: deadline_def checked_add_i64_def word_size)
  show ?thesis
    using len
    by (auto simp: handle_initialize_vault_def and_then_eq_Inr Let_def take_fill_slots
        validate_slots_Inr table_of_def [symmetric] dl dest: dl [THEN iffD1, rotated 3] intro: dl [THEN iffD2])
qed

lemma handle_initialize_vault_inv:
  assumes "handle_initialize_vault own mnt bmp ident tmo inputs now = Inr v"
  shows "vault_inv v" and "\<not> is_claimed v" and "heirs v = table_of inputs"
proof -
  note v = assms [unfolded handle_initialize_vault_Inr]
  then have "length inputs \<le> MAX_BENEFICIARIES" by (simp add: valid_table_def table_of_def)
  note table = new_table [OF this, of v]
  show "vault_inv v" and "\<not> is_claimed v" and "heirs v = table_of inputs"
    using v table by (simp_all add: vault_inv_def)
qed

lemma handle_check_in_Inr:
  assumes "vault_inv v"
  shows "handle_check_in v now = Inr v' \<longleftrightarrow>
    sint now + sint (timeout_seconds v) < 2 ^ 63 \<and> v' = v\<lparr>last_checkin := now\<rparr>"
proof -
  let ?v' = "v\<lparr>last_checkin := now\<rparr>"
  have "0 \<le> sint (timeout_seconds v)" using assms by (simp add: vault_inv_def)
  then have "(\<exists>d. deadline ?v' = Inr d) \<longleftrightarrow> sint now + sint (timeout_seconds v) < 2 ^ 63"
    using sint_range_size [of now] by (auto simp: deadline_def checked_add_i64_def word_size)
  then show ?thesis by (auto simp: handle_check_in_def and_then_eq_Inr Let_def)
qed

lemma heirs_last_checkin [simp]: "heirs (v\<lparr>last_checkin := now\<rparr>) = heirs v"
  by (simp add: heirs_def)

lemma unpaid_last_checkin [simp]: "unpaid (v\<lparr>last_checkin := now\<rparr>) = unpaid v"
  by (simp add: unpaid_def)

lemma handle_check_in_inv:
  "vault_inv v \<Longrightarrow> handle_check_in v now = Inr v' \<Longrightarrow> vault_inv v'"
  by (auto simp: handle_check_in_Inr) (simp add: vault_inv_def)

lemma handle_set_beneficiaries_Inr:
  "handle_set_beneficiaries v inputs = Inr v' \<longleftrightarrow>
     valid_table (table_of inputs) \<and>
     v' = v\<lparr>beneficiaries := fill_slots (replicate MAX_BENEFICIARIES beneficiary_default) inputs,
            beneficiary_count := of_nat (length inputs)\<rparr>"
proof -
  have "valid_table (table_of inputs) \<Longrightarrow> length inputs \<le> MAX_BENEFICIARIES"
    by (simp add: valid_table_def table_of_def)
  then show ?thesis
    by (auto simp: handle_set_beneficiaries_def and_then_eq_Inr Let_def take_fill_slots
        validate_slots_Inr table_of_def [symmetric])
qed

lemma handle_set_beneficiaries_heirs:
  assumes "handle_set_beneficiaries v inputs = Inr v'"
  shows "heirs v' = table_of inputs" and "unpaid v' = table_of inputs"
    and "unat (beneficiary_count v') \<le> MAX_BENEFICIARIES"
    and "length (beneficiaries v') = MAX_BENEFICIARIES"
proof -
  note v' = assms [unfolded handle_set_beneficiaries_Inr]
  then have len: "length inputs \<le> MAX_BENEFICIARIES" by (simp add: valid_table_def table_of_def)
  show "heirs v' = table_of inputs" "unpaid v' = table_of inputs"
    "unat (beneficiary_count v') \<le> MAX_BENEFICIARIES" "length (beneficiaries v') = MAX_BENEFICIARIES"
    using v' new_table [OF len, of v'] by simp_all
qed

lemma handle_set_beneficiaries_inv:
  assumes "vault_inv v" "\<not> is_claimed v" "handle_set_beneficiaries v inputs = Inr v'"
  shows "vault_inv v'"
  using assms handle_set_beneficiaries_heirs [OF assms(3)]
  by (simp add: handle_set_beneficiaries_Inr vault_inv_def)

section \<open>The instructions\<close>

lemma accounts_check_in_Inr:
  "accounts_check_in rt signers own key A = Inr v \<longleftrightarrow>
     own \<in> set signers \<and> load_vault rt A key = Inr v \<and> owner v = own \<and> \<not> is_claimed v"
  by (auto simp: accounts_check_in_def and_then_eq_Inr)

lemma accounts_set_beneficiaries_Inr:
  "accounts_set_beneficiaries rt signers own key A = Inr v \<longleftrightarrow>
     own \<in> set signers \<and> load_vault rt A key = Inr v \<and> owner v = own \<and> \<not> is_claimed v"
  by (auto simp: accounts_set_beneficiaries_def and_then_eq_Inr)

lemma accounts_initialize_vault_Inr:
  "accounts_initialize_vault rt signers own key mnt ident A = Inr (bmp, A') \<longleftrightarrow>
     own \<in> set signers \<and> (\<forall>m. mnt = Some m \<longrightarrow> (\<exists>d. load_mint rt A m = Inr d)) \<and>
     find_program_address rt (vault_seeds own ident) = (key, bmp) \<and>
     init_account rt own key (8 + vault_init_space) A = Inr A'"
  by (auto simp: accounts_initialize_vault_def and_then_eq_Inr split: option.splits prod.splits)

lemma check_in_Inr:
  "check_in rt signers own key s = Inr s' \<longleftrightarrow>
     (\<exists>v v'. accounts_check_in rt signers own key (accounts s) = Inr v \<and>
        handle_check_in v (unix_timestamp s) = Inr v' \<and>
        s' = s\<lparr>accounts := store_vault key v' (accounts s)\<rparr>)"
  by (auto simp: check_in_def and_then_eq_Inr)

lemma set_beneficiaries_Inr:
  "set_beneficiaries rt signers own key inputs s = Inr s' \<longleftrightarrow>
     (\<exists>v v'. accounts_set_beneficiaries rt signers own key (accounts s) = Inr v \<and>
        handle_set_beneficiaries v inputs = Inr v' \<and>
        s' = s\<lparr>accounts := store_vault key v' (accounts s)\<rparr>)"
  by (auto simp: set_beneficiaries_def and_then_eq_Inr)

lemma initialize_vault_Inr:
  "initialize_vault rt signers own key mnt ident tmo inputs s = Inr s' \<longleftrightarrow>
     (\<exists>bmp A v. accounts_initialize_vault rt signers own key mnt ident (accounts s) = Inr (bmp, A) \<and>
        handle_initialize_vault own mnt bmp ident tmo inputs (unix_timestamp s) = Inr v \<and>
        s' = s\<lparr>accounts := store_vault key v A\<rparr>)"
  by (auto simp: initialize_vault_def and_then_eq_Inr)

end
