(* ===== verification/Estate.thy ===== *)
theory Estate
  imports Claim_Rules
begin

text \<open>
  The abstract specification of an inheritance, over natural numbers and without Solana:
  a list of unpaid heirs with their shares, the pool once it is fixed, and the funds that
  are left. The detailed claim of \<open>Claim_Rules\<close> refines it, and the locale \<open>claim_path\<close>
  is the contract that the SOL path and the SPL path both fulfil.
\<close>

section \<open>The abstract machine\<close>

record estate =
  heirs_left :: "(pubkey \<times> nat) list"
  pool :: "nat option"
  funds :: nat

definition estate_claim :: "pubkey \<Rightarrow> estate \<Rightarrow> (nat \<times> estate) option" where
  "estate_claim k e =
     (case map_of (heirs_left e) k of
        None \<Rightarrow> None
      | Some share \<Rightarrow>
          let p = (case pool e of None \<Rightarrow> funds e | Some p \<Rightarrow> p);
              amount = (if length (heirs_left e) = 1 then funds e else p * share div 10000)
          in if 0 < amount \<and> amount \<le> funds e
             then Some (amount, \<lparr>heirs_left = filter (\<lambda>h. fst h \<noteq> k) (heirs_left e),
                                 pool = Some p, funds = funds e - amount\<rparr>)
             else None)"

text \<open>A sequence of claims, with the list of what each claimant received.\<close>

fun estate_run :: "pubkey list \<Rightarrow> estate \<Rightarrow> (nat list \<times> estate) option" where
  "estate_run [] e = Some ([], e)"
| "estate_run (k # ks) e =
     Option.bind (estate_claim k e) (\<lambda>(a, e').
       map_option (\<lambda>(as, e''). (a # as, e'')) (estate_run ks e'))"

text \<open>The abstraction: who is unpaid, the pool, and the funds of a vault.\<close>

definition estate_of :: "vault \<Rightarrow> u64 \<Rightarrow> estate" where
  "estate_of v available =
     \<lparr>heirs_left = map (\<lambda>b. (address b, unat (share_bps b))) (unpaid v),
      pool = (if is_claimed v then Some (unat (claim_pool v)) else None),
      funds = unat available\<rparr>"

section \<open>Money is neither made nor lost\<close>

lemma estate_claim_Some:
  "estate_claim k e = Some (a, e') \<Longrightarrow>
     k \<in> fst ` set (heirs_left e) \<and> 0 < a \<and> funds e = a + funds e' \<and>
     heirs_left e' = filter (\<lambda>h. fst h \<noteq> k) (heirs_left e)"
  by (auto simp: estate_claim_def Let_def split: option.splits if_splits)
     (force dest: map_of_SomeD)+

lemma estate_run_funds:
  "estate_run ks e = Some (as, e') \<Longrightarrow> funds e = sum_list as + funds e'"
proof (induction ks arbitrary: e as)
  case Nil
  then show ?case by simp
next
  case (Cons k ks)
  from Cons.prems obtain a e1 as' where
    "estate_claim k e = Some (a, e1)" "estate_run ks e1 = Some (as', e')" "as = a # as'"
    by (auto simp: bind_eq_Some_conv)
  with Cons.IH [of e1 as'] estate_claim_Some [of k e a e1] show ?case by simp
qed

lemma estate_run_heirs:
  "estate_run ks e = Some (as, e') \<Longrightarrow>
     heirs_left e' = filter (\<lambda>h. fst h \<notin> set ks) (heirs_left e) \<and> distinct ks \<and>
     set ks \<subseteq> fst ` set (heirs_left e) \<and> length as = length ks"
proof (induction ks arbitrary: e as)
  case Nil
  then show ?case by simp
next
  case (Cons k ks)
  from Cons.prems obtain a e1 as' where
    c: "estate_claim k e = Some (a, e1)" "estate_run ks e1 = Some (as', e')" "as = a # as'"
    by (auto simp: bind_eq_Some_conv)
  from Cons.IH [OF c(2)] estate_claim_Some [OF c(1)] c(3) show ?case
    by (auto simp: conj_commute)
qed

text \<open>The last claim of all empties the estate.\<close>

lemma estate_claim_last:
  "estate_claim k e = Some (a, e') \<Longrightarrow> distinct (map fst (heirs_left e)) \<Longrightarrow>
     heirs_left e' = [] \<Longrightarrow> funds e' = 0"
proof -
  assume claim: "estate_claim k e = Some (a, e')" and dist: "distinct (map fst (heirs_left e))"
    and none: "heirs_left e' = []"
  note facts = estate_claim_Some [OF claim]
  have "filter (\<lambda>h. fst h \<noteq> k) (heirs_left e) = []" using facts none by simp
  then have "\<forall>h\<in>set (heirs_left e). fst h = k" by (simp add: filter_empty_conv)
  then have "length (heirs_left e) = 1"
    using facts dist by (intro distinct_map_single [of fst _ k]) auto
  then show "funds e' = 0"
    using claim by (auto simp: estate_claim_def Let_def split: option.splits if_splits)
qed

section \<open>The detailed claim refines it\<close>

lemma unpaid_addresses: "vault_inv v \<Longrightarrow> distinct (map address (unpaid v))"
  using vault_inv_table [of v] by (simp add: valid_table_def unpaid_def distinct_map_filter)

lemma unpaid_nth:
  "b \<in> set (unpaid v) \<longleftrightarrow> (\<exists>i<length (heirs v). heirs v ! i = b \<and> \<not> claimed b)"
  by (auto simp: unpaid_def in_set_conv_nth)

lemma estate_of_claimed:
  assumes inv: "vault_inv v" and i: "i < length (heirs v)" "\<not> claimed (heirs v ! i)"
  shows "estate_of (mark_claimed i (tripped v avail)) a' =
    \<lparr>heirs_left = filter (\<lambda>h. fst h \<noteq> address (heirs v ! i)) (heirs_left (estate_of v avail)),
     pool = Some (pool_of v avail), funds = unat a'\<rparr>"
proof -
  note slot = claimed_slot [OF inv i]
  have "filter (\<lambda>b. address b \<noteq> address (heirs v ! i)) (unpaid v) = remove1 (heirs v ! i) (unpaid v)"
    using unpaid_addresses [OF inv] slot(1) by (rule filter_neq_remove1)
  then show ?thesis
    using slot(2) by (auto simp: estate_of_def filter_map comp_def pool_of_def)
qed

lemma estate_claim_slot:
  assumes inv: "vault_inv v" and i: "i < length (heirs v)" "\<not> claimed (heirs v ! i)"
  shows "estate_claim (address (heirs v ! i)) (estate_of v avail) =
    (if 0 < payout v avail (heirs v ! i) \<and> payout v avail (heirs v ! i) \<le> unat avail
     then Some (payout v avail (heirs v ! i),
                estate_of (mark_claimed i (tripped v avail))
                  (avail - of_nat (payout v avail (heirs v ! i))))
     else None)"
proof -
  let ?b = "heirs v ! i" and ?h = "\<lambda>b. (address b, unat (share_bps b))"
  have mem: "?b \<in> set (unpaid v)" using claimed_slot(1) [OF inv i] .
  then have "map_of (map ?h (unpaid v)) (address ?b) = Some (unat (share_bps ?b))"
    using unpaid_addresses [OF inv] by (intro map_of_is_SomeI) (auto simp: comp_def)
  moreover have "length (unpaid v) = 1 \<longleftrightarrow> unpaid v = [?b]"
    using mem length_1_iff [of "unpaid v" ?b] by auto
  moreover have "unat (avail - of_nat n) = unat avail - n" if "n \<le> unat avail" for n
    using that unat_less [of avail] by (subst unat_minus_le) (simp_all add: unat_of_nat)
  ultimately show ?thesis
    by (auto simp: estate_claim_def Let_def estate_of_claimed [OF inv i] payout_def
        entitlement_def pool_of_def estate_of_def [of v])
qed

lemma estate_claim_unlisted:
  assumes "\<And>i. i < length (heirs v) \<Longrightarrow> address (heirs v ! i) = k \<Longrightarrow> claimed (heirs v ! i)"
  shows "estate_claim k (estate_of v avail) = None"
proof -
  have "map_of (map (\<lambda>b. (address b, unat (share_bps b))) (unpaid v)) k = None"
    using assms by (auto simp: map_of_eq_None_iff unpaid_nth)
  then show ?thesis by (simp add: estate_claim_def estate_of_def)
qed

lemma book_claim_refines:
  assumes inv: "vault_inv v"
    and late: "sint (last_checkin v) + sint (timeout_seconds v) \<le> sint now"
  shows "estate_claim k (estate_of v avail) =
    (case book_claim v k now avail of
       Inl e \<Rightarrow> None
     | Inr (amt, v') \<Rightarrow> Some (unat amt, estate_of v' (avail - amt)))"
proof (cases "\<exists>i<length (heirs v). address (heirs v ! i) = k \<and> \<not> claimed (heirs v ! i)")
  case False
  then have none: "estate_claim k (estate_of v avail) = None"
    by (intro estate_claim_unlisted) auto
  have "book_claim v k now avail \<noteq> Inr r" for r
    using False by (cases r) (auto simp: book_claim_Inr [OF inv])
  with none show ?thesis by (auto split: sum.split)
next
  case True
  then obtain i where i: "i < length (heirs v)" "\<not> claimed (heirs v ! i)"
    and k: "address (heirs v ! i) = k" by auto
  let ?n = "payout v avail (heirs v ! i)"
  note slot = estate_claim_slot [OF inv i, of avail, unfolded k]
  show ?thesis
  proof (cases "0 < ?n \<and> ?n \<le> unat avail")
    case ok: True
    then have n: "unat (of_nat ?n :: u64) = ?n"
      using unat_less [of avail] by (simp add: unat_of_nat)
    then have "book_claim v k now avail = Inr (of_nat ?n, mark_claimed i (tripped v avail))"
      using ok i k late
      by (auto simp: book_claim_Inr [OF inv] word_less_nat_alt word_le_nat_alt)
    then show ?thesis using ok slot n by (simp del: unat_of_nat)
  next
    case bad: False
    have "book_claim v k now avail \<noteq> Inr r" for r
    proof (cases r)
      case (Pair amt v')
      have "j = i" if "j < length (heirs v)" "address (heirs v ! j) = k" for j
        using that i k vault_inv_table [OF inv]
        by (auto simp: valid_table_def distinct_conv_nth)
      then show ?thesis
        using Pair bad by (auto simp: book_claim_Inr [OF inv] word_less_nat_alt word_le_nat_alt)
    qed
    then show ?thesis using bad slot by (auto split: sum.split)
  qed
qed

section \<open>Every heir gets their percentage, in any order\<close>

definition pool_value :: "estate \<Rightarrow> nat" where
  "pool_value e = (case pool e of None \<Rightarrow> funds e | Some p \<Rightarrow> p)"

definition share_due :: "estate \<Rightarrow> pubkey \<Rightarrow> nat" where
  "share_due e k = (case map_of (heirs_left e) k of
     None \<Rightarrow> 0 | Some share \<Rightarrow> pool_value e * share div 10000)"

definition estate_solvent :: "estate \<Rightarrow> bool" where
  "estate_solvent e \<longleftrightarrow> distinct (map fst (heirs_left e)) \<and>
     sum_list (map (\<lambda>h. pool_value e * snd h div 10000) (heirs_left e)) \<le> funds e"

lemma map_of_filter_neq:
  "j \<noteq> k \<Longrightarrow> map_of (filter (\<lambda>h. fst h \<noteq> k) xs) j = map_of xs j"
  by (induction xs) auto

lemma estate_claim_step:
  assumes claim: "estate_claim k e = Some (a, e')" and solv: "estate_solvent e"
  shows "estate_solvent e'" and "share_due e k \<le> a" and "pool_value e' = pool_value e"
    and "heirs_left e' \<noteq> [] \<Longrightarrow> a = share_due e k"
    and "j \<noteq> k \<Longrightarrow> share_due e' j = share_due e j"
proof -
  let ?f = "\<lambda>h. pool_value e * snd h div 10000"
  from claim obtain share where share: "map_of (heirs_left e) k = Some share"
    and a: "a = (if length (heirs_left e) = 1 then funds e else pool_value e * share div 10000)"
    and le: "a \<le> funds e"
    and e': "e' = \<lparr>heirs_left = filter (\<lambda>h. fst h \<noteq> k) (heirs_left e),
      pool = Some (pool_value e), funds = funds e - a\<rparr>"
    by (auto simp: estate_claim_def Let_def pool_value_def split: option.splits if_splits)
  show pv: "pool_value e' = pool_value e" by (simp add: e' pool_value_def)
  have dist: "distinct (map fst (heirs_left e))" using solv by (simp add: estate_solvent_def)
  have mem: "(k, share) \<in> set (heirs_left e)" using share by (rule map_of_SomeD)
  have rem: "filter (\<lambda>h. fst h \<noteq> k) (heirs_left e) = remove1 (k, share) (heirs_left e)"
    using filter_neq_remove1 [OF dist mem] by simp
  have total: "sum_list (map ?f (heirs_left e))
      = ?f (k, share) + sum_list (map ?f (remove1 (k, share) (heirs_left e)))"
    using mem by (rule sum_list_remove1)
  have due: "share_due e k = ?f (k, share)" by (simp add: share_due_def share)
  show "share_due e k \<le> a"
    using total solv by (auto simp: a due estate_solvent_def)
  have single: "heirs_left e = [(k, share)]" if "length (heirs_left e) = 1"
    using that mem length_1_iff [of "heirs_left e" "(k, share)"] by simp
  show "a = share_due e k" if "heirs_left e' \<noteq> []"
    using that single by (auto simp: a due e')
  show "estate_solvent e'"
  proof (cases "length (heirs_left e) = 1")
    case True
    then show ?thesis using single by (simp add: estate_solvent_def e')
  next
    case False
    then have "sum_list (map ?f (remove1 (k, share) (heirs_left e))) \<le> funds e - a"
      using total solv by (simp add: a estate_solvent_def) linarith
    then show ?thesis
      using dist by (simp add: estate_solvent_def pv) (simp add: e' rem distinct_map_filter
          flip: rem)
  qed
  show "share_due e' j = share_due e j" if "j \<noteq> k"
  proof -
    have "heirs_left e' = filter (\<lambda>h. fst h \<noteq> k) (heirs_left e)" by (simp add: e')
    then show ?thesis using that
      by (simp add: share_due_def pv map_of_filter_neq split: option.split)
  qed
qed

lemma estate_run_shares:
  "estate_run ks e = Some (as, e') \<Longrightarrow> estate_solvent e \<Longrightarrow>
     list_all2 (\<lambda>k a. share_due e k \<le> a) ks as \<and> estate_solvent e' \<and>
     (heirs_left e' \<noteq> [] \<longrightarrow> as = map (share_due e) ks)"
proof (induction ks arbitrary: e as)
  case Nil
  then show ?case by simp
next
  case (Cons k ks)
  from Cons.prems(1) obtain a e1 bs where
    c: "estate_claim k e = Some (a, e1)" "estate_run ks e1 = Some (bs, e')" "as = a # bs"
    by (auto simp: bind_eq_Some_conv)
  note step = estate_claim_step [OF c(1) Cons.prems(2)]
  note rest = Cons.IH [OF c(2) step(1)] and heirs = estate_run_heirs [OF c(2)]
  have "k \<notin> set ks" using heirs estate_claim_Some [OF c(1)] by auto
  then have same: "share_due e1 j = share_due e j" if "j \<in> set ks" for j
    using step(5) that by metis
  have "list_all2 (\<lambda>k a. share_due e k \<le> a) ks bs"
    using rest same by (auto simp: list_all2_conv_all_nth)
  moreover have "heirs_left e1 \<noteq> []" if "heirs_left e' \<noteq> []" using heirs that by auto
  ultimately show ?case using rest step(2,4) same c(3) by auto
qed

lemma estate_run_all_paid:
  assumes "estate_run ks e = Some (as, e')" "estate_solvent e" "heirs_left e' = []" "ks \<noteq> []"
  shows "funds e' = 0" and "sum_list as = funds e"
proof -
  have "funds e' = 0" if "estate_run ks e = Some (as, e')" "estate_solvent e" "ks \<noteq> []" for ks as e
    using that
  proof (induction ks arbitrary: e as)
    case Nil
    then show ?case by simp
  next
    case (Cons k ks)
    from Cons.prems(1) obtain a e1 bs where
      c: "estate_claim k e = Some (a, e1)" "estate_run ks e1 = Some (bs, e')"
      by (auto simp: bind_eq_Some_conv)
    have "estate_solvent e1" using estate_claim_step(1) [OF c(1) Cons.prems(2)] .
    moreover have "distinct (map fst (heirs_left e))"
      using Cons.prems(2) by (simp add: estate_solvent_def)
    ultimately show ?case
      using Cons.IH [OF c(2)] c assms(3) estate_claim_last [OF c(1)] by (cases ks) auto
  qed
  then show "funds e' = 0" using assms by blast
  then show "sum_list as = funds e" using estate_run_funds [OF assms(1)] by simp
qed

lemma estate_of_solvent:
  assumes inv: "vault_inv v" and solv: "solvent v (unat avail)"
  shows "estate_solvent (estate_of v avail)"
proof -
  have "pool_value (estate_of v avail) = pool_of v avail"
    by (simp add: pool_value_def estate_of_def pool_of_def)
  then show ?thesis
    using solvent_pool [OF inv solv] unpaid_addresses [OF inv]
    by (simp add: estate_solvent_def) (simp add: estate_of_def comp_def entitlement_def [abs_def])
qed

section \<open>The contract of a claim path\<close>

text \<open>
  What the SOL path and the SPL path have in common: a view of the state as a vault and
  the amount available to it, and a claim operation that books the claim on that view and
  pays out what it booked. \<open>good k s\<close> collects what the path needs to know about the
  claimant and the outside world. Everything the code promises about splitting follows
  from this contract alone.
\<close>

locale claim_path =
  fixes view :: "'s \<Rightarrow> (vault \<times> u64) option"
    and claim :: "pubkey \<Rightarrow> 's \<Rightarrow> error + 's"
    and clock :: "'s \<Rightarrow> i64"
    and good :: "pubkey \<Rightarrow> 's \<Rightarrow> bool"
  assumes claim_books: "good k s \<Longrightarrow> claim k s = Inr s' \<Longrightarrow>
      \<exists>v avail amt v'. view s = Some (v, avail) \<and>
        book_claim v k (clock s) avail = Inr (amt, v') \<and> view s' = Some (v', avail - amt)"
    and claim_clock: "good k s \<Longrightarrow> claim k s = Inr s' \<Longrightarrow> clock s' = clock s"
    and claim_good: "good k s \<Longrightarrow> claim k s = Inr s' \<Longrightarrow> good j s \<Longrightarrow> good j s'"
begin

fun claims :: "pubkey list \<Rightarrow> 's \<Rightarrow> error + 's" where
  "claims [] s = Inr s"
| "claims (k # ks) s = and_then (claim k s) (claims ks)"

definition sound :: "'s \<Rightarrow> bool" where
  "sound s \<longleftrightarrow> (\<forall>v avail. view s = Some (v, avail) \<longrightarrow> vault_inv v \<and> solvent v (unat avail))"

lemma claim_sound: "good k s \<Longrightarrow> claim k s = Inr s' \<Longrightarrow> sound s \<Longrightarrow> sound s'"
  using claim_books [of k s s'] book_claim_inv book_claim_solvent by (fastforce simp: sound_def)

lemma claim_estate:
  assumes "good k s" "claim k s = Inr s'" "sound s"
  shows "\<exists>v avail v' avail' amt. view s = Some (v, avail) \<and> view s' = Some (v', avail') \<and>
    estate_claim k (estate_of v avail) = Some (amt, estate_of v' avail')"
proof -
  from claim_books [OF assms(1,2)] obtain v avail amt v' where
    c: "view s = Some (v, avail)" "book_claim v k (clock s) avail = Inr (amt, v')"
       "view s' = Some (v', avail - amt)" by auto
  then have inv: "vault_inv v" using assms(3) by (simp add: sound_def)
  have "sint (last_checkin v) + sint (timeout_seconds v) \<le> sint (clock s)"
    using c(2) by (simp add: book_claim_Inr [OF inv])
  from book_claim_refines [OF inv this, of k avail] c show ?thesis by auto
qed

lemma claims_estate:
  assumes "claims ks s = Inr s'" "\<And>k. k \<in> set ks \<Longrightarrow> good k s" "sound s"
    and "view s = Some (v, avail)"
  shows "\<exists>v' avail' amts. view s' = Some (v', avail') \<and> sound s' \<and>
    estate_run ks (estate_of v avail) = Some (amts, estate_of v' avail')"
  using assms
proof (induction ks arbitrary: s v avail)
  case Nil
  then show ?case by auto
next
  case (Cons k ks)
  from Cons.prems(1) obtain s1 where s1: "claim k s = Inr s1" "claims ks s1 = Inr s'"
    by (auto simp: and_then_eq_Inr)
  have good: "good k s" using Cons.prems(2) by simp
  from claim_estate [OF good s1(1) Cons.prems(3)] Cons.prems(4) obtain v1 avail1 amt where
    one: "view s1 = Some (v1, avail1)"
      "estate_claim k (estate_of v avail) = Some (amt, estate_of v1 avail1)" by auto
  have "sound s1" using claim_sound [OF good s1(1) Cons.prems(3)] .
  with Cons.IH [OF s1(2) _ _ one(1)] claim_good [OF good s1(1)] Cons.prems(2) one(2)
  show ?case by fastforce
qed

lemma claims_pay_shares:
  assumes "claims ks s = Inr s'" "\<And>k. k \<in> set ks \<Longrightarrow> good k s" "sound s"
    and "view s = Some (v, avail)"
  shows "\<exists>v' avail' amts. view s' = Some (v', avail') \<and>
    length amts = length ks \<and> distinct ks \<and> unat avail = sum_list amts + unat avail' \<and>
    list_all2 (\<lambda>k a. share_due (estate_of v avail) k \<le> a) ks amts \<and>
    (ks \<noteq> [] \<and> unpaid v' = [] \<longrightarrow> avail' = 0)"
proof -
  from claims_estate [OF assms] obtain v' avail' amts where
    run: "view s' = Some (v', avail')"
      "estate_run ks (estate_of v avail) = Some (amts, estate_of v' avail')" by auto
  have solv: "estate_solvent (estate_of v avail)"
    using assms(3,4) by (intro estate_of_solvent) (auto simp: sound_def)
  have "avail' = 0" if "ks \<noteq> []" "unpaid v' = []"
    using estate_run_all_paid(1) [OF run(2) solv] that by (simp add: estate_of_def unat_eq_0)
  then show ?thesis
    using run estate_run_funds [OF run(2)] estate_run_heirs [OF run(2)]
      estate_run_shares [OF run(2) solv]
    by (auto simp: estate_of_def)
qed

end

text \<open>
  A path that also says where the money goes: \<open>received k s\<close> is what claimant \<open>k\<close> holds. A
  claim credits its claimant with all that leaves the vault, and no one else.
\<close>

locale paying_path = claim_path view claim clock good
  for view :: "'s \<Rightarrow> (vault \<times> u64) option"
    and claim :: "pubkey \<Rightarrow> 's \<Rightarrow> error + 's"
    and clock :: "'s \<Rightarrow> i64"
    and good :: "pubkey \<Rightarrow> 's \<Rightarrow> bool" +
  fixes received :: "pubkey \<Rightarrow> 's \<Rightarrow> nat"
  assumes claim_credits: "good k s \<Longrightarrow> claim k s = Inr s' \<Longrightarrow> view s = Some (v, avail) \<Longrightarrow>
      view s' = Some (v', avail') \<Longrightarrow> received k s' + unat avail' = received k s + unat avail"
    and claim_spares: "good k s \<Longrightarrow> claim k s = Inr s' \<Longrightarrow> good j s \<Longrightarrow> j \<noteq> k \<Longrightarrow>
      received j s' = received j s"
begin

lemma claims_spare:
  "claims ks s = Inr s' \<Longrightarrow> (\<And>k. k \<in> set ks \<Longrightarrow> good k s) \<Longrightarrow> good j s \<Longrightarrow> j \<notin> set ks \<Longrightarrow>
     received j s' = received j s"
proof (induction ks arbitrary: s)
  case Nil
  then show ?case by simp
next
  case (Cons k ks)
  from Cons.prems(1) obtain s1 where s1: "claim k s = Inr s1" "claims ks s1 = Inr s'"
    by (auto simp: and_then_eq_Inr)
  have good: "good k s" using Cons.prems(2) by simp
  have "received j s' = received j s1"
    using Cons.IH [OF s1(2)] claim_good [OF good s1(1)] Cons.prems by auto
  then show ?case using claim_spares [OF good s1(1)] Cons.prems by simp
qed

lemma claims_credit:
  assumes "claims ks s = Inr s'" "\<And>k. k \<in> set ks \<Longrightarrow> good k s" "sound s"
    and "view s = Some (v, avail)"
  shows "\<exists>v' avail' amts. view s' = Some (v', avail') \<and>
    estate_run ks (estate_of v avail) = Some (amts, estate_of v' avail') \<and>
    list_all2 (\<lambda>k a. received k s' = received k s + a) ks amts"
  using assms
proof (induction ks arbitrary: s v avail)
  case Nil
  then show ?case by auto
next
  case (Cons k ks)
  from Cons.prems(1) obtain s1 where s1: "claim k s = Inr s1" "claims ks s1 = Inr s'"
    by (auto simp: and_then_eq_Inr)
  have good: "good j s" if "j = k \<or> j \<in> set ks" for j using Cons.prems(2) that by simp
  have good1: "good j s1" if "j = k \<or> j \<in> set ks" for j
    using claim_good [OF _ s1(1)] good that by blast
  from claim_estate [OF good s1(1) Cons.prems(3)] Cons.prems(4) obtain v1 avail1 amt where
    one: "view s1 = Some (v1, avail1)"
      "estate_claim k (estate_of v avail) = Some (amt, estate_of v1 avail1)" by auto
  have "sound s1" using claim_sound [OF good s1(1) Cons.prems(3)] by blast
  with Cons.IH [OF s1(2) _ _ one(1)] good1 obtain v' avail' amts where
    rest: "view s' = Some (v', avail')"
      "estate_run ks (estate_of v1 avail1) = Some (amts, estate_of v' avail')"
      "list_all2 (\<lambda>j a. received j s' = received j s1 + a) ks amts" by blast
  have new: "k \<notin> set ks"
    using estate_run_heirs [OF rest(2)] estate_claim_Some [OF one(2)] by auto
  have "received k s1 = received k s + amt"
    using claim_credits [OF good s1(1) Cons.prems(4) one(1)] estate_claim_Some [OF one(2)]
    by (simp add: estate_of_def)
  moreover have "received k s' = received k s1"
    using claims_spare [OF s1(2)] good1 new by blast
  moreover have "received j s1 = received j s" if "j \<in> set ks" for j
    using claim_spares [OF good s1(1) good] that new by blast
  then have "list_all2 (\<lambda>j a. received j s' = received j s + a) ks amts"
    using rest(3) by (auto simp: list_all2_conv_all_nth)
  ultimately show ?case using rest(1,2) one(2) by auto
qed

lemma claims_pay:
  assumes run: "claims ks s = Inr s'" and good: "\<And>k. k \<in> set ks \<Longrightarrow> good k s" and sound: "sound s"
    and view: "view s = Some (v, avail)"
  shows "\<exists>v' avail'. view s' = Some (v', avail') \<and> distinct ks \<and>
    unat avail = sum_list (map (\<lambda>k. received k s' - received k s) ks) + unat avail' \<and>
    (\<forall>k\<in>set ks. \<exists>b\<in>set (unpaid v). address b = k \<and>
       received k s + entitlement (pool_of v avail) b \<le> received k s') \<and>
    (ks \<noteq> [] \<and> unpaid v' = [] \<longrightarrow> avail' = 0)"
proof -
  from claims_credit [OF run good sound view] obtain v' avail' amts where
    c: "view s' = Some (v', avail')"
      "estate_run ks (estate_of v avail) = Some (amts, estate_of v' avail')"
      "list_all2 (\<lambda>k a. received k s' = received k s + a) ks amts" by blast
  have inv: "vault_inv v" using sound view by (simp add: sound_def)
  have solv: "estate_solvent (estate_of v avail)"
    using sound view by (intro estate_of_solvent) (auto simp: sound_def)
  note heirs = estate_run_heirs [OF c(2)] and shares = estate_run_shares [OF c(2) solv]
  have amts: "amts = map (\<lambda>k. received k s' - received k s) ks"
    using c(3) by (intro nth_equalityI) (auto simp: list_all2_conv_all_nth)
  have "\<exists>b\<in>set (unpaid v). address b = k \<and> received k s + entitlement (pool_of v avail) b \<le> received k s'"
    if "k \<in> set ks" for k
  proof -
    from heirs that have "k \<in> address ` set (unpaid v)" by (auto simp: estate_of_def)
    then obtain b where b: "b \<in> set (unpaid v)" "address b = k" by auto
    have "map_of (map (\<lambda>b. (address b, unat (share_bps b))) (unpaid v)) k = Some (unat (share_bps b))"
      using unpaid_addresses [OF inv] b by (intro map_of_is_SomeI) (auto simp: comp_def)
    then have "share_due (estate_of v avail) k = entitlement (pool_of v avail) b"
      by (simp add: share_due_def estate_of_def pool_value_def entitlement_def pool_of_def)
    moreover obtain i where i: "i < length ks" "ks ! i = k"
      using \<open>k \<in> set ks\<close> unfolding in_set_conv_nth by blast
    then have "share_due (estate_of v avail) k \<le> amts ! i" "received k s' = received k s + amts ! i"
      using list_all2_nthD [OF conjunct1 [OF shares], of i] list_all2_nthD [OF c(3), of i] by simp_all
    ultimately show ?thesis using b by auto
  qed
  moreover have "avail' = 0" if "ks \<noteq> []" "unpaid v' = []"
    using estate_run_all_paid(1) [OF c(2) solv] that by (simp add: estate_of_def unat_eq_0)
  ultimately show ?thesis
    using c(1) heirs estate_run_funds [OF c(2)] amts by (auto simp: estate_of_def)
qed

end

end
