(* ===== verification/Sol_Vault.thy ===== *)
theory Sol_Vault
  imports Ledger Estate
begin

text \<open>
  \<open>deposit_sol.rs\<close>, \<open>withdraw_sol.rs\<close> and \<open>claim_sol.rs\<close>: the native SOL path. The vault
  account itself holds the lamports, and everything above its rent-exempt reserve is
  available.
\<close>

section \<open>deposit_sol\<close>

definition accounts_deposit_sol ::
  "runtime \<Rightarrow> pubkey list \<Rightarrow> pubkey \<Rightarrow> pubkey \<Rightarrow> ledger \<Rightarrow> error + vault" where
  "accounts_deposit_sol rt signers own key A =
     and_then (load_signer signers own) (\<lambda>_.
     and_then (load_vault rt A key) (\<lambda>v.
     and_then (require (owner v = own) (Dms Unauthorized)) (\<lambda>_.
     and_then (require (is_sol v) (Dms NotSolVault)) (\<lambda>_.
     and_then (require (\<not> is_claimed v) (Dms VaultTriggered)) (\<lambda>_. Inr v)))))"

definition handle_deposit_sol ::
  "runtime \<Rightarrow> pubkey \<Rightarrow> pubkey \<Rightarrow> u64 \<Rightarrow> ledger \<Rightarrow> error + ledger" where
  "handle_deposit_sol rt own key amount A =
     and_then (require (0 < amount) (Dms InvalidAmount)) (\<lambda>_.
       cpi (system_transfer rt own key amount A))"

definition deposit_sol ::
  "runtime \<Rightarrow> pubkey list \<Rightarrow> pubkey \<Rightarrow> pubkey \<Rightarrow> u64 \<Rightarrow> chain \<Rightarrow> error + chain" where
  "deposit_sol rt signers own key amount s =
     and_then (accounts_deposit_sol rt signers own key (accounts s)) (\<lambda>v.
     and_then (handle_deposit_sol rt own key amount (accounts s)) (\<lambda>A.
       Inr (s\<lparr>accounts := A\<rparr>)))"

section \<open>withdraw_sol\<close>

definition accounts_withdraw_sol ::
  "runtime \<Rightarrow> pubkey list \<Rightarrow> pubkey \<Rightarrow> pubkey \<Rightarrow> ledger \<Rightarrow> error + vault" where
  "accounts_withdraw_sol rt signers own key A =
     and_then (load_signer signers own) (\<lambda>_.
     and_then (load_vault rt A key) (\<lambda>v.
     and_then (require (owner v = own) (Dms Unauthorized)) (\<lambda>_.
     and_then (require (is_sol v) (Dms NotSolVault)) (\<lambda>_.
     and_then (require (\<not> is_claimed v) (Dms VaultTriggered)) (\<lambda>_. Inr v)))))"

definition handle_withdraw_sol ::
  "runtime \<Rightarrow> pubkey \<Rightarrow> pubkey \<Rightarrow> u64 \<Rightarrow> ledger \<Rightarrow> error + ledger" where
  "handle_withdraw_sol rt own key amount A =
     and_then (require (0 < amount) (Dms InvalidAmount)) (\<lambda>_.
       let available = withdrawable_lamports rt (A key)
       in and_then (require (amount \<le> available) (Dms InsufficientFunds)) (\<lambda>_.
         move_lamports key own amount A))"

definition withdraw_sol ::
  "runtime \<Rightarrow> pubkey list \<Rightarrow> pubkey \<Rightarrow> pubkey \<Rightarrow> u64 \<Rightarrow> chain \<Rightarrow> error + chain" where
  "withdraw_sol rt signers own key amount s =
     and_then (accounts_withdraw_sol rt signers own key (accounts s)) (\<lambda>v.
     and_then (handle_withdraw_sol rt own key amount (accounts s)) (\<lambda>A.
       Inr (s\<lparr>accounts := A\<rparr>)))"

section \<open>claim_sol\<close>

definition accounts_claim_sol ::
  "runtime \<Rightarrow> pubkey list \<Rightarrow> pubkey \<Rightarrow> pubkey \<Rightarrow> ledger \<Rightarrow> error + vault" where
  "accounts_claim_sol rt signers claimant key A =
     and_then (load_signer signers claimant) (\<lambda>_.
     and_then (load_vault rt A key) (\<lambda>v.
     and_then (require (is_sol v) (Dms NotSolVault)) (\<lambda>_. Inr v)))"

definition handle_claim_sol ::
  "runtime \<Rightarrow> pubkey \<Rightarrow> pubkey \<Rightarrow> vault \<Rightarrow> i64 \<Rightarrow> ledger \<Rightarrow> error + vault \<times> ledger" where
  "handle_claim_sol rt claimant key v now A =
     (let available = withdrawable_lamports rt (A key)
      in and_then (book_claim v claimant now available) (\<lambda>(amount, v').
         and_then (move_lamports key claimant amount A) (\<lambda>A'.
           Inr (v', A'))))"

definition claim_sol ::
  "runtime \<Rightarrow> pubkey list \<Rightarrow> pubkey \<Rightarrow> pubkey \<Rightarrow> chain \<Rightarrow> error + chain" where
  "claim_sol rt signers claimant key s =
     and_then (accounts_claim_sol rt signers claimant key (accounts s)) (\<lambda>v.
     and_then (handle_claim_sol rt claimant key v (unix_timestamp s) (accounts s)) (\<lambda>(v', A).
       Inr (s\<lparr>accounts := store_vault key v' A\<rparr>)))"

section \<open>What each instruction does when it succeeds\<close>

lemma accounts_deposit_sol_Inr:
  "accounts_deposit_sol rt signers own key A = Inr v \<longleftrightarrow>
     own \<in> set signers \<and> load_vault rt A key = Inr v \<and> owner v = own \<and> is_sol v \<and> \<not> is_claimed v"
  by (auto simp: accounts_deposit_sol_def and_then_eq_Inr)

lemma accounts_withdraw_sol_Inr:
  "accounts_withdraw_sol rt signers own key A = Inr v \<longleftrightarrow>
     own \<in> set signers \<and> load_vault rt A key = Inr v \<and> owner v = own \<and> is_sol v \<and> \<not> is_claimed v"
  by (auto simp: accounts_withdraw_sol_def and_then_eq_Inr)

lemma accounts_claim_sol_Inr:
  "accounts_claim_sol rt signers k key A = Inr v \<longleftrightarrow>
     k \<in> set signers \<and> load_vault rt A key = Inr v \<and> is_sol v"
  by (auto simp: accounts_claim_sol_def and_then_eq_Inr)

lemma deposit_sol_Inr:
  "deposit_sol rt signers own key amount s = Inr s' \<longleftrightarrow>
     (\<exists>v A. accounts_deposit_sol rt signers own key (accounts s) = Inr v \<and> 0 < amount \<and>
        system_transfer rt own key amount (accounts s) = Inr A \<and> s' = s\<lparr>accounts := A\<rparr>)"
  by (auto simp: deposit_sol_def handle_deposit_sol_def and_then_eq_Inr)

lemma withdraw_sol_Inr:
  "withdraw_sol rt signers own key amount s = Inr s' \<longleftrightarrow>
     (\<exists>v A. accounts_withdraw_sol rt signers own key (accounts s) = Inr v \<and> 0 < amount \<and>
        amount \<le> withdrawable_lamports rt (accounts s key) \<and>
        move_lamports key own amount (accounts s) = Inr A \<and> s' = s\<lparr>accounts := A\<rparr>)"
  by (auto simp: withdraw_sol_def handle_withdraw_sol_def and_then_eq_Inr Let_def)

lemma claim_sol_Inr:
  "claim_sol rt signers k key s = Inr s' \<longleftrightarrow>
     (\<exists>v amt v' A. accounts_claim_sol rt signers k key (accounts s) = Inr v \<and>
        book_claim v k (unix_timestamp s) (withdrawable_lamports rt (accounts s key)) = Inr (amt, v') \<and>
        move_lamports key k amt (accounts s) = Inr A \<and>
        s' = s\<lparr>accounts := store_vault key v' A\<rparr>)"
  by (auto simp: claim_sol_def handle_claim_sol_def and_then_eq_Inr Let_def)

section \<open>The reserve and the available lamports\<close>

lemma unat_withdrawable:
  "unat (withdrawable_lamports rt a) = unat (lamports a) - unat (minimum_balance rt (data_len a))"
  by (simp add: withdrawable_lamports_def)

lemma withdrawable_debit:
  assumes "amt \<le> withdrawable_lamports rt a"
  shows "withdrawable_lamports rt (a\<lparr>lamports := lamports a - amt\<rparr>)
       = withdrawable_lamports rt a - amt"
proof (rule unat_eqI)
  have le: "unat amt \<le> unat (withdrawable_lamports rt a)" using assms by (simp add: word_le_nat_alt)
  then have "unat amt \<le> unat (lamports a)" by (simp add: unat_withdrawable)
  then show "unat (withdrawable_lamports rt (a\<lparr>lamports := lamports a - amt\<rparr>))
      = unat (withdrawable_lamports rt a - amt)"
    using le by (simp add: unat_minus_le unat_withdrawable)
qed

lemma withdrawable_data [simp]:
  "withdrawable_lamports rt (a\<lparr>data := d\<rparr>) = withdrawable_lamports rt a"
  by (simp add: withdrawable_lamports_def)

section \<open>The SOL path fulfils the contract of a claim\<close>

definition sol_view :: "runtime \<Rightarrow> pubkey \<Rightarrow> chain \<Rightarrow> (vault \<times> u64) option" where
  "sol_view rt key s =
     (case vault_at (accounts s) key of
        None \<Rightarrow> None
      | Some v \<Rightarrow> Some (v, withdrawable_lamports rt (accounts s key)))"

lemma claim_sol_view:
  assumes "k \<noteq> key" "claim_sol rt signers k key s = Inr s'"
  shows "\<exists>v avail amt v'. sol_view rt key s = Some (v, avail) \<and>
    book_claim v k (unix_timestamp s) avail = Inr (amt, v') \<and>
    sol_view rt key s' = Some (v', avail - amt)"
proof -
  from assms(2) obtain v amt v' A where
    v: "data (accounts s key) = VaultData v"
    and book: "book_claim v k (unix_timestamp s) (withdrawable_lamports rt (accounts s key))
                 = Inr (amt, v')"
    and move: "move_lamports key k amt (accounts s) = Inr A"
    and s': "s' = s\<lparr>accounts := store_vault key v' A\<rparr>"
    by (auto simp: claim_sol_Inr accounts_claim_sol_Inr load_vault_Inr)
  have amt: "amt \<le> withdrawable_lamports rt (accounts s key)"
    using book_claim_amount [OF book] by simp
  have "A key = (accounts s key)\<lparr>lamports := lamports (accounts s key) - amt\<rparr>"
    using move assms(1) by (auto simp: move_lamports_Inr)
  then show ?thesis
    using v book s' withdrawable_debit [OF amt]
    by (simp add: sol_view_def vault_at_def store_vault_def)
qed

definition lamports_of :: "pubkey \<Rightarrow> chain \<Rightarrow> nat" where
  "lamports_of k s = unat (lamports (accounts s k))"

lemma claim_sol_credits:
  assumes "k \<noteq> key" "claim_sol rt signers k key s = Inr s'"
    and "sol_view rt key s = Some (v, avail)" "sol_view rt key s' = Some (v', avail')"
  shows "lamports_of k s' + unat avail' = lamports_of k s + unat avail"
proof -
  from assms(2) obtain u amt u' A where
    book: "book_claim u k (unix_timestamp s) (withdrawable_lamports rt (accounts s key)) = Inr (amt, u')"
    and move: "move_lamports key k amt (accounts s) = Inr A"
    and s': "s' = s\<lparr>accounts := store_vault key u' A\<rparr>"
    by (auto simp: claim_sol_Inr)
  have avail: "avail = withdrawable_lamports rt (accounts s key)"
    using assms(3) by (simp add: sol_view_def split: option.splits)
  have amt: "amt \<le> avail" using book_claim_amount [OF book] by (simp add: avail)
  have over: "unat (lamports (accounts s k)) + unat amt < 2 ^ 64"
    and A: "A key = (accounts s key)\<lparr>lamports := lamports (accounts s key) - amt\<rparr>"
      "A k = (accounts s k)\<lparr>lamports := lamports (accounts s k) + amt\<rparr>"
    using move assms(1) by (auto simp: move_lamports_Inr)
  have "unat (lamports (accounts s k) + amt) = unat (lamports (accounts s k)) + unat amt"
    using over by (simp add: unat_word_ariths)
  moreover have "avail' = avail - amt"
    using assms(4) withdrawable_debit [OF amt [unfolded avail]] A(1)
    by (simp add: sol_view_def s' store_vault_def avail split: option.splits)
  ultimately show ?thesis
    using amt A(2) assms(1)
    by (simp add: lamports_of_def s' store_vault_def unat_sub word_le_nat_alt)
qed

lemma claim_sol_spares:
  assumes "j \<noteq> key" "j \<noteq> k" "claim_sol rt signers k key s = Inr s'"
  shows "lamports_of j s' = lamports_of j s"
  using assms by (auto simp: claim_sol_Inr move_lamports_Inr lamports_of_def store_vault_def)

interpretation sol: claim_path
  "sol_view rt key" "\<lambda>k. claim_sol rt (signers k) k key" unix_timestamp "\<lambda>k s. k \<noteq> key"
  for rt signers key
  by unfold_locales (use claim_sol_view in \<open>auto simp: claim_sol_Inr\<close>)

interpretation sol_pay: paying_path
  "sol_view rt key" "\<lambda>k. claim_sol rt (signers k) k key" unix_timestamp "\<lambda>k s. k \<noteq> key" lamports_of
  for rt signers key
  by unfold_locales (use claim_sol_credits claim_sol_spares in blast)+

end
