(* ===== verification/Runtime_Laws.thy ===== *)
theory Runtime_Laws
  imports Ledger
begin

text \<open>
  The documented behaviour of the programs the instructions call, one law per field of
  \<open>runtime\<close>. A law speaks only of calls that succeed. None of them mentions the vault
  program: they are the System program's, the token program's and the associated token
  program's contracts. \<open>vaults_kept\<close> is what all of them leave alone.
\<close>

section \<open>Leaving the vaults alone\<close>

text \<open>
  An account that holds a vault keeps it, keeps its size and loses no lamports, and no
  vault appears. The Solana runtime guarantees this for every program but the owner of the
  accounts. \<open>kept_at\<close> says it of one address.
\<close>

definition kept_at :: "ledger \<Rightarrow> ledger \<Rightarrow> pubkey \<Rightarrow> bool" where
  "kept_at A A' k \<longleftrightarrow> vault_at A' k = vault_at A k \<and>
     (vault_at A k \<noteq> None \<longrightarrow> data_len (A' k) = data_len (A k) \<and>
        unat (lamports (A k)) \<le> unat (lamports (A' k)))"

definition vaults_kept :: "ledger \<Rightarrow> ledger \<Rightarrow> bool" where
  "vaults_kept A A' \<longleftrightarrow> (\<forall>k. kept_at A A' k)"

lemma kept_at_same [intro]: "A' k = A k \<Longrightarrow> kept_at A A' k"
  by (simp add: kept_at_def vault_at_def)

lemma kept_at_cong: "B k = A' k \<Longrightarrow> kept_at A A' k \<Longrightarrow> kept_at A B k"
  by (simp add: kept_at_def vault_at_def)

lemma kept_at_lamports:
  "A' k = (A k)\<lparr>lamports := l\<rparr> \<Longrightarrow> unat (lamports (A k)) \<le> unat l \<Longrightarrow> kept_at A A' k"
  by (simp add: kept_at_def vault_at_def)

lemma kept_at_no_vault:
  "vault_at A k = None \<Longrightarrow> vault_at A' k = None \<Longrightarrow> kept_at A A' k"
  by (simp add: kept_at_def)

lemma kept_at_trans: "kept_at A B k \<Longrightarrow> kept_at B C k \<Longrightarrow> kept_at A C k"
  by (auto simp: kept_at_def)

lemma vaults_kept_refl [simp]: "vaults_kept A A"
  by (simp add: vaults_kept_def kept_at_same)

lemma vaults_kept_trans: "vaults_kept A B \<Longrightarrow> vaults_kept B C \<Longrightarrow> vaults_kept A C"
  by (auto simp: vaults_kept_def intro: kept_at_trans)

lemma vaults_keptD: "vaults_kept A A' \<Longrightarrow> kept_at A A' k"
  by (simp add: vaults_kept_def)

lemma no_vault [simp]:
  "data (A k) = NoData \<Longrightarrow> vault_at A k = None" "data (A k) = TokenData t \<Longrightarrow> vault_at A k = None"
  by (simp_all add: vault_at_def)

text \<open>
  The token accounts of one authority: none disappears, changes mint, authority or token
  program, or loses tokens.
\<close>

definition tokens_kept :: "ledger \<Rightarrow> ledger \<Rightarrow> pubkey \<Rightarrow> bool" where
  "tokens_kept A A' auth \<longleftrightarrow> (\<forall>k t. token_at A k = Some t \<and> tok_owner t = auth \<longrightarrow>
     owner_program (A' k) = owner_program (A k) \<and>
     (\<exists>t'. token_at A' k = Some t' \<and> tok_mint t' = tok_mint t \<and> tok_owner t' = auth \<and>
        unat (tok_amount t) \<le> unat (tok_amount t')))"

lemma tokens_kept_refl [simp]: "tokens_kept A A auth"
  by (simp add: tokens_kept_def)

lemma tokens_keptD:
  assumes "tokens_kept A A' auth" "token_at A k = Some t" "tok_owner t = auth"
  obtains t' where "token_at A' k = Some t'" "tok_mint t' = tok_mint t" "tok_owner t' = auth"
    "unat (tok_amount t) \<le> unat (tok_amount t')" "owner_program (A' k) = owner_program (A k)"
  using assms unfolding tokens_kept_def by blast

lemma tokens_kept_trans:
  assumes "tokens_kept A B auth" "tokens_kept B C auth" shows "tokens_kept A C auth"
  unfolding tokens_kept_def
proof (intro allI impI)
  fix k t
  assume t: "token_at A k = Some t \<and> tok_owner t = auth"
  then obtain t' where t': "token_at B k = Some t'" "tok_mint t' = tok_mint t" "tok_owner t' = auth"
    "unat (tok_amount t) \<le> unat (tok_amount t')" "owner_program (B k) = owner_program (A k)"
    by (auto elim: tokens_keptD [OF assms(1)])
  obtain t'' where "token_at C k = Some t''" "tok_mint t'' = tok_mint t'" "tok_owner t'' = auth"
    "unat (tok_amount t') \<le> unat (tok_amount t'')" "owner_program (C k) = owner_program (B k)"
    using tokens_keptD [OF assms(2) t'(1,3)] by blast
  with t' show "owner_program (C k) = owner_program (A k) \<and>
     (\<exists>t'. token_at C k = Some t' \<and> tok_mint t' = tok_mint t \<and> tok_owner t' = auth \<and>
        unat (tok_amount t) \<le> unat (tok_amount t'))"
    by auto
qed

lemma tokens_keptI:
  assumes "\<And>k t. data (A k) = TokenData t \<Longrightarrow> tok_owner t = auth \<Longrightarrow>
     data (A' k) = TokenData t \<and> owner_program (A' k) = owner_program (A k)"
  shows "tokens_kept A A' auth"
  using assms by (auto simp: tokens_kept_def token_at_Some)

section \<open>Laws\<close>

text \<open>
  System program, \<open>transfer\<close>: the source is an account without data and has the lamports;
  they move, and nothing else changes.
\<close>

definition system_transfer_law :: "runtime \<Rightarrow> bool" where
  "system_transfer_law rt \<longleftrightarrow> (\<forall>src dst amount A A'.
     system_transfer rt src dst amount A = Inr A' \<longrightarrow>
       data (A src) = NoData \<and> unat amount \<le> unat (lamports (A src)) \<and>
       (src \<noteq> dst \<longrightarrow> unat (lamports (A dst)) + unat amount < 2 ^ 64) \<and>
       A' = (if src = dst then A
             else A(src := (A src)\<lparr>lamports := lamports (A src) - amount\<rparr>,
                    dst := (A dst)\<lparr>lamports := lamports (A dst) + amount\<rparr>)))"

text \<open>
  System program, account creation for \<open>init\<close>: the address was not in use; afterwards it
  has the requested space, is rent exempt and belongs to the program. The payer, an account
  without data, is the only one debited.
\<close>

definition init_account_law :: "runtime \<Rightarrow> bool" where
  "init_account_law rt \<longleftrightarrow> (\<forall>payer key space A A'.
     init_account rt payer key space A = Inr A' \<longrightarrow>
       data (A key) = NoData \<and> data_len (A' key) = space \<and>
       owner_program (A' key) = program_id rt \<and>
       unat (minimum_balance rt space) \<le> unat (lamports (A' key)) \<and>
       unat (lamports (A key)) \<le> unat (lamports (A' key)) \<and>
       (\<forall>k. k \<noteq> key \<and> k \<noteq> payer \<longrightarrow> A' k = A k) \<and>
       (payer \<noteq> key \<longrightarrow> data (A payer) = NoData \<and>
          (\<exists>l. A' payer = (A payer)\<lparr>lamports := l\<rparr> \<and> unat l \<le> unat (lamports (A payer)))))"

text \<open>
  Associated token program, \<open>create\<close>: the address was not in use; afterwards it is an
  empty token account of the wallet for the mint. Only an account without data pays.
\<close>

definition create_associated_law :: "runtime \<Rightarrow> bool" where
  "create_associated_law rt \<longleftrightarrow> (\<forall>payer key wallet mnt prog A A'.
     create_associated rt payer key wallet mnt prog A = Inr A' \<longrightarrow>
       data (A key) = NoData \<and>
       data (A' key) = TokenData \<lparr>tok_mint = mnt, tok_owner = wallet, tok_amount = 0\<rparr> \<and>
       owner_program (A' key) = prog \<and>
       (\<forall>k. k \<noteq> key \<longrightarrow> (\<exists>l. A' k = (A k)\<lparr>lamports := l\<rparr> \<and>
          (k \<noteq> payer \<or> data (A k) \<noteq> NoData \<longrightarrow> l = lamports (A k)))))"

text \<open>
  Token program, \<open>transfer_checked\<close>: both accounts are token accounts of the mint, the
  source has the tokens and is debited exactly that amount. The destination is credited,
  possibly less a transfer fee of the mint. Nothing else changes, and a transfer from an
  account to itself changes nothing.
\<close>

definition transfer_checked_law :: "runtime \<Rightarrow> bool" where
  "transfer_checked_law rt \<longleftrightarrow> (\<forall>prog src mnt dst auth amount dec A A'.
     transfer_checked rt prog src mnt dst auth amount dec A = Inr A' \<longrightarrow>
       (\<exists>t u n. data (A src) = TokenData t \<and> tok_mint t = mnt \<and>
          data (A dst) = TokenData u \<and> tok_mint u = mnt \<and>
          unat amount \<le> unat (tok_amount t) \<and> unat (tok_amount u) \<le> unat n \<and>
          unat n \<le> unat (tok_amount u) + unat amount \<and>
          A' = (if src = dst then A
                else A(src := (A src)\<lparr>data := TokenData (t\<lparr>tok_amount := tok_amount t - amount\<rparr>)\<rparr>,
                       dst := (A dst)\<lparr>data := TokenData (u\<lparr>tok_amount := n\<rparr>)\<rparr>))))"

text \<open>
  Token program, \<open>close_account\<close>: an empty token account gives its lamports to the
  destination and ceases to exist.
\<close>

definition close_token_account_law :: "runtime \<Rightarrow> bool" where
  "close_token_account_law rt \<longleftrightarrow> (\<forall>prog key dst auth A A'.
     close_token_account rt prog key dst auth A = Inr A' \<longrightarrow>
       (\<exists>t. data (A key) = TokenData t \<and> tok_owner t = auth \<and> tok_amount t = 0) \<and>
       key \<noteq> dst \<and> data (A' key) = NoData \<and>
       unat (lamports (A dst)) + unat (lamports (A key)) < 2 ^ 64 \<and>
       A' dst = (A dst)\<lparr>lamports := lamports (A dst) + lamports (A key)\<rparr> \<and>
       (\<forall>k. k \<noteq> key \<and> k \<noteq> dst \<longrightarrow> A' k = A k))"

text \<open>A mint without transfer fees: the destination is credited the whole amount.\<close>

definition exact_transfer_law :: "runtime \<Rightarrow> bool" where
  "exact_transfer_law rt \<longleftrightarrow> (\<forall>prog src mnt dst auth amount dec A A' u.
     transfer_checked rt prog src mnt dst auth amount dec A = Inr A' \<and> src \<noteq> dst \<and>
     data (A dst) = TokenData u \<longrightarrow>
       (\<exists>u'. data (A' dst) = TokenData u' \<and>
             unat (tok_amount u') = unat (tok_amount u) + unat amount))"

text \<open>
  A transfer that has all it needs succeeds: two accounts of the mint in one token program that
  are not frozen, enough tokens, room for them, and the signature of the authority.
\<close>

definition transfer_progress_law :: "runtime \<Rightarrow> bool" where
  "transfer_progress_law rt \<longleftrightarrow> (\<forall>prog src mnt dst auth amount dec A t u.
     prog \<in> set (token_programs rt) \<and> src \<noteq> dst \<and>
     data (A src) = TokenData t \<and> owner_program (A src) = prog \<and> tok_mint t = mnt \<and>
     tok_owner t = auth \<and>
     data (A dst) = TokenData u \<and> owner_program (A dst) = prog \<and> tok_mint u = mnt \<and>
     data (A mnt) = MintData dec \<and> owner_program (A mnt) = prog \<and>
     amount \<le> tok_amount t \<and> unat (tok_amount u) + unat amount < 2 ^ 64 \<longrightarrow>
       (\<exists>A'. transfer_checked rt prog src mnt dst auth amount dec A = Inr A'))"

definition runtime_laws :: "runtime \<Rightarrow> bool" where
  "runtime_laws rt \<longleftrightarrow> system_transfer_law rt \<and> init_account_law rt \<and>
     create_associated_law rt \<and> transfer_checked_law rt \<and> close_token_account_law rt"

lemma runtime_lawsD:
  assumes "runtime_laws rt"
  shows "system_transfer_law rt" "init_account_law rt" "create_associated_law rt"
    "transfer_checked_law rt" "close_token_account_law rt"
  using assms by (simp_all add: runtime_laws_def)

section \<open>None of the calls touches a vault\<close>

lemma system_transfer_kept:
  assumes "system_transfer_law rt" "system_transfer rt src dst amount A = Inr A'"
  shows "vaults_kept A A'"
proof -
  have law: "data (A src) = NoData" "src \<noteq> dst \<longrightarrow> unat (lamports (A dst)) + unat amount < 2 ^ 64"
    "A' = (if src = dst then A
             else A(src := (A src)\<lparr>lamports := lamports (A src) - amount\<rparr>,
                    dst := (A dst)\<lparr>lamports := lamports (A dst) + amount\<rparr>))"
    using assms unfolding system_transfer_law_def by blast+
  have add: "unat (lamports (A dst) + amount) = unat (lamports (A dst)) + unat amount"
    if "src \<noteq> dst"
    using law(2) that by (simp add: unat_word_ariths)
  have "kept_at A A' k" for k
  proof (cases "k = src \<or> src = dst")
    case True
    then show ?thesis using law(1,3) by (auto simp: kept_at_def vault_at_def)
  next
    case False
    then show ?thesis using law(3) add
      by (cases "k = dst") (auto intro!: kept_at_lamports)
  qed
  then show ?thesis by (simp add: vaults_kept_def)
qed

lemma create_associated_kept:
  assumes "create_associated_law rt"
    and "create_associated rt payer key wallet mnt prog A = Inr A'"
  shows "vaults_kept A A'"
proof -
  have key: "data (A key) = NoData"
      "data (A' key) = TokenData \<lparr>tok_mint = mnt, tok_owner = wallet, tok_amount = 0\<rparr>"
    and rest: "\<And>k. k \<noteq> key \<Longrightarrow> \<exists>l. A' k = (A k)\<lparr>lamports := l\<rparr> \<and>
          (k \<noteq> payer \<or> data (A k) \<noteq> NoData \<longrightarrow> l = lamports (A k))"
    using assms unfolding create_associated_law_def by blast+
  have "kept_at A A' k" for k
  proof (cases "k = key")
    case True
    then show ?thesis using key by (intro kept_at_no_vault) auto
  next
    case False
    then obtain l where "A' k = (A k)\<lparr>lamports := l\<rparr>" "data (A k) \<noteq> NoData \<longrightarrow> l = lamports (A k)"
      using rest [of k] by blast
    then show ?thesis by (cases "data (A k)") (auto simp: kept_at_def vault_at_def)
  qed
  then show ?thesis by (simp add: vaults_kept_def)
qed

lemma init_if_needed_kept:
  assumes "create_associated_law rt"
    and "init_if_needed_associated rt A key payer wallet mnt prog = Inr A'"
  shows "vaults_kept A A'"
  using assms create_associated_kept [OF assms(1)]
  by (auto simp: init_if_needed_associated_Inr split: if_splits)

text \<open>Accounts with data do not change when an associated account is created.\<close>

lemma create_associated_other:
  assumes "create_associated_law rt"
    and "create_associated rt payer key wallet mnt prog A = Inr A'"
    and "data (A j) \<noteq> NoData"
  shows "A' j = A j"
proof -
  have "data (A key) = NoData" and rest: "\<And>k. k \<noteq> key \<Longrightarrow> \<exists>l. A' k = (A k)\<lparr>lamports := l\<rparr> \<and>
          (k \<noteq> payer \<or> data (A k) \<noteq> NoData \<longrightarrow> l = lamports (A k))"
    using assms(1,2) unfolding create_associated_law_def by blast+
  with assms(3) have "j \<noteq> key" by auto
  then show ?thesis using rest [of j] assms(3) by auto
qed

lemma init_if_needed_other:
  assumes "create_associated_law rt"
    and "init_if_needed_associated rt A key payer wallet mnt prog = Inr A'"
    and "data (A j) \<noteq> NoData"
  shows "A' j = A j"
  using assms by (auto simp: init_if_needed_associated_Inr split: if_splits
      intro: create_associated_other)

lemma transfer_checkedE:
  assumes "transfer_checked_law rt"
    and "transfer_checked rt prog src mnt dst auth amount dec A = Inr A'"
  obtains t u n where "data (A src) = TokenData t" "tok_mint t = mnt" "data (A dst) = TokenData u"
    "unat amount \<le> unat (tok_amount t)" "unat (tok_amount u) \<le> unat n"
    "A' = (if src = dst then A
           else A(src := (A src)\<lparr>data := TokenData (t\<lparr>tok_amount := tok_amount t - amount\<rparr>)\<rparr>,
                  dst := (A dst)\<lparr>data := TokenData (u\<lparr>tok_amount := n\<rparr>)\<rparr>))"
  using assms unfolding transfer_checked_law_def by blast

lemma transfer_checked_debit:
  assumes "transfer_checked_law rt" "src \<noteq> dst"
    and "transfer_checked rt prog src mnt dst auth amount dec A = Inr A'"
    and "data (A src) = TokenData t"
  shows "data (A' src) = TokenData (t\<lparr>tok_amount := tok_amount t - amount\<rparr>)"
    and "unat amount \<le> unat (tok_amount t)"
proof -
  have "data (A' src) = TokenData (t\<lparr>tok_amount := tok_amount t - amount\<rparr>) \<and>
      unat amount \<le> unat (tok_amount t)"
    by (rule transfer_checkedE [OF assms(1,3)]) (use assms(2,4) in auto)
  then show "data (A' src) = TokenData (t\<lparr>tok_amount := tok_amount t - amount\<rparr>)"
    "unat amount \<le> unat (tok_amount t)" by simp_all
qed

lemma transfer_checked_kept:
  assumes "transfer_checked_law rt"
    and "transfer_checked rt prog src mnt dst auth amount dec A = Inr A'"
  shows "vaults_kept A A'"
  by (rule transfer_checkedE [OF assms]) (auto simp: vaults_kept_def kept_at_def vault_at_def)

lemma close_token_account_kept:
  assumes "close_token_account_law rt" "close_token_account rt prog key dst auth A = Inr A'"
  shows "vaults_kept A A'"
proof -
  have law: "\<exists>t. data (A key) = TokenData t" "key \<noteq> dst" "data (A' key) = NoData"
    "unat (lamports (A dst)) + unat (lamports (A key)) < 2 ^ 64"
    "A' dst = (A dst)\<lparr>lamports := lamports (A dst) + lamports (A key)\<rparr>"
    "\<And>k. k \<noteq> key \<Longrightarrow> k \<noteq> dst \<Longrightarrow> A' k = A k"
    using assms unfolding close_token_account_law_def by blast+
  have "unat (lamports (A dst) + lamports (A key)) = unat (lamports (A dst)) + unat (lamports (A key))"
    using law(4) by (simp add: unat_word_ariths)
  then have "kept_at A A' k" for k
    using law by (cases "k = key"; cases "k = dst")
      (auto intro: kept_at_no_vault kept_at_lamports)
  then show ?thesis by (simp add: vaults_kept_def)
qed

section \<open>What the calls do to token accounts\<close>

lemma system_transfer_tokens:
  assumes "system_transfer_law rt" "system_transfer rt src dst amount A = Inr A'"
  shows "tokens_kept A A' auth"
proof -
  have "A' = (if src = dst then A
             else A(src := (A src)\<lparr>lamports := lamports (A src) - amount\<rparr>,
                    dst := (A dst)\<lparr>lamports := lamports (A dst) + amount\<rparr>))"
    using assms unfolding system_transfer_law_def by blast
  then show ?thesis by (intro tokens_keptI) auto
qed

lemma init_account_tokens:
  assumes "init_account_law rt" "init_account rt payer key space A = Inr A'"
  shows "tokens_kept A A' auth" and "data (A key) = NoData"
proof -
  have law: "data (A key) = NoData" "\<And>k. k \<noteq> key \<Longrightarrow> k \<noteq> payer \<Longrightarrow> A' k = A k"
     "payer \<noteq> key \<Longrightarrow> data (A payer) = NoData"
    using assms unfolding init_account_law_def by blast+
  have "A' k = A k" if "data (A k) = TokenData t" for k t
    using law that by (cases "k = key"; cases "k = payer") auto
  then show "tokens_kept A A' auth" by (intro tokens_keptI) simp
  show "data (A key) = NoData" by (rule law)
qed

lemma init_if_needed_tokens:
  assumes "create_associated_law rt"
    and "init_if_needed_associated rt A key payer wallet mnt prog = Inr A'"
  shows "tokens_kept A A' auth"
  using init_if_needed_other [OF assms] by (intro tokens_keptI) simp

lemma transfer_checked_tokens:
  assumes "transfer_checked_law rt"
    and "transfer_checked rt prog src mnt dst auth' amount dec A = Inr A'"
    and "data (A src) = TokenData t" "tok_owner t \<noteq> auth"
  shows "tokens_kept A A' auth"
  by (rule transfer_checkedE [OF assms(1,2)]) (use assms(3,4) in \<open>auto simp: tokens_kept_def token_at_def\<close>)

lemma close_token_account_tokens:
  assumes "close_token_account_law rt" "close_token_account rt prog key dst auth' A = Inr A'"
    and "auth \<noteq> auth'"
  shows "tokens_kept A A' auth"
proof -
  have law: "\<exists>t. data (A key) = TokenData t \<and> tok_owner t = auth'"
    "A' dst = (A dst)\<lparr>lamports := lamports (A dst) + lamports (A key)\<rparr>"
    "\<And>k. k \<noteq> key \<Longrightarrow> k \<noteq> dst \<Longrightarrow> A' k = A k"
    using assms(1,2) unfolding close_token_account_law_def by blast+
  have "data (A' k) = TokenData t \<and> owner_program (A' k) = owner_program (A k)"
    if "data (A k) = TokenData t" "tok_owner t = auth" for k t
    using law that assms(3) by (cases "k = key"; cases "k = dst") auto
  then show ?thesis by (intro tokens_keptI)
qed

section \<open>Address derivation\<close>

text \<open>A derived address is found again from its seeds and the bump found with it.\<close>

definition find_program_address_law :: "runtime \<Rightarrow> bool" where
  "find_program_address_law rt \<longleftrightarrow> (\<forall>seeds key bmp.
     find_program_address rt seeds = (key, bmp) \<longrightarrow>
       create_program_address rt (seeds @ [[bmp]]) = Some key)"

end
