(* ===== verification/Spl_Vault.thy ===== *)
theory Spl_Vault
  imports Runtime_Laws Estate
begin

text \<open>
  \<open>deposit_spl.rs\<close>, \<open>withdraw_spl.rs\<close> and \<open>claim_spl.rs\<close>: the SPL token path. The funds
  are in the associated token account of the vault, and every transfer is a
  \<open>transfer_checked\<close> call to the token program the instruction names. Anchor reads every
  account in the order of the struct, then creates what \<open>init_if_needed\<close> asks for, then
  checks the remaining constraints, field by field.
\<close>

section \<open>deposit_spl\<close>

definition accounts_deposit_spl ::
  "runtime \<Rightarrow> pubkey list \<Rightarrow> pubkey \<Rightarrow> pubkey \<Rightarrow> pubkey \<Rightarrow> pubkey \<Rightarrow> pubkey \<Rightarrow> pubkey \<Rightarrow> ledger
     \<Rightarrow> error + u8 \<times> ledger" where
  "accounts_deposit_spl rt signers own key mnt own_token vault_token prog A =
     and_then (load_signer signers own) (\<lambda>_.
     and_then (read_vault A key) (\<lambda>v.
     and_then (load_mint rt A mnt) (\<lambda>decimals.
     and_then (load_token rt A own_token) (\<lambda>t.
     and_then (load_token_program rt prog) (\<lambda>_.
     and_then (init_if_needed_associated rt A vault_token own key mnt prog) (\<lambda>A'.
     and_then (check_seeds rt key v) (\<lambda>_.
     and_then (require (owner v = own) (Dms Unauthorized)) (\<lambda>_.
     and_then (require (\<not> is_sol v) (Dms NotSplVault)) (\<lambda>_.
     and_then (require (\<not> is_claimed v) (Dms VaultTriggered)) (\<lambda>_.
     and_then (require (mint v = Some mnt) (Dms MintMismatch)) (\<lambda>_.
     and_then (check_associated rt A own_token t own mnt prog) (\<lambda>_.
       Inr (decimals, A')))))))))))))"

definition handle_deposit_spl ::
  "runtime \<Rightarrow> pubkey \<Rightarrow> pubkey \<Rightarrow> pubkey \<Rightarrow> pubkey \<Rightarrow> pubkey \<Rightarrow> u8 \<Rightarrow> u64 \<Rightarrow> ledger
     \<Rightarrow> error + ledger" where
  "handle_deposit_spl rt own mnt own_token vault_token prog decimals amount A =
     and_then (require (0 < amount) (Dms InvalidAmount)) (\<lambda>_.
       cpi (transfer_checked rt prog own_token mnt vault_token own amount decimals A))"

definition deposit_spl ::
  "runtime \<Rightarrow> pubkey list \<Rightarrow> pubkey \<Rightarrow> pubkey \<Rightarrow> pubkey \<Rightarrow> pubkey \<Rightarrow> pubkey \<Rightarrow> pubkey \<Rightarrow> u64 \<Rightarrow> chain
     \<Rightarrow> error + chain" where
  "deposit_spl rt signers own key mnt own_token vault_token prog amount s =
     and_then (accounts_deposit_spl rt signers own key mnt own_token vault_token prog (accounts s))
       (\<lambda>(decimals, A).
     and_then (handle_deposit_spl rt own mnt own_token vault_token prog decimals amount A) (\<lambda>A'.
       Inr (s\<lparr>accounts := A'\<rparr>)))"

section \<open>withdraw_spl\<close>

text \<open>
  The vault's token account is read before the owner's is created, and the handler checks
  the amount against that reading.
\<close>

definition accounts_withdraw_spl ::
  "runtime \<Rightarrow> pubkey list \<Rightarrow> pubkey \<Rightarrow> pubkey \<Rightarrow> pubkey \<Rightarrow> pubkey \<Rightarrow> pubkey \<Rightarrow> pubkey \<Rightarrow> ledger
     \<Rightarrow> error + u8 \<times> token_account \<times> ledger" where
  "accounts_withdraw_spl rt signers own key mnt vault_token own_token prog A =
     and_then (load_signer signers own) (\<lambda>_.
     and_then (read_vault A key) (\<lambda>v.
     and_then (load_mint rt A mnt) (\<lambda>decimals.
     and_then (load_token rt A vault_token) (\<lambda>t.
     and_then (load_token_program rt prog) (\<lambda>_.
     and_then (init_if_needed_associated rt A own_token own own mnt prog) (\<lambda>A'.
     and_then (check_seeds rt key v) (\<lambda>_.
     and_then (require (owner v = own) (Dms Unauthorized)) (\<lambda>_.
     and_then (require (\<not> is_sol v) (Dms NotSplVault)) (\<lambda>_.
     and_then (require (\<not> is_claimed v) (Dms VaultTriggered)) (\<lambda>_.
     and_then (require (mint v = Some mnt) (Dms MintMismatch)) (\<lambda>_.
     and_then (check_associated rt A vault_token t key mnt prog) (\<lambda>_.
       Inr (decimals, t, A')))))))))))))"

definition handle_withdraw_spl ::
  "runtime \<Rightarrow> pubkey \<Rightarrow> pubkey \<Rightarrow> pubkey \<Rightarrow> pubkey \<Rightarrow> pubkey \<Rightarrow> u8 \<Rightarrow> token_account \<Rightarrow> u64 \<Rightarrow> ledger
     \<Rightarrow> error + ledger" where
  "handle_withdraw_spl rt key mnt vault_token own_token prog decimals t amount A =
     and_then (require (0 < amount) (Dms InvalidAmount)) (\<lambda>_.
     and_then (require (amount \<le> tok_amount t) (Dms InsufficientFunds)) (\<lambda>_.
       cpi (transfer_checked rt prog vault_token mnt own_token key amount decimals A)))"

definition withdraw_spl ::
  "runtime \<Rightarrow> pubkey list \<Rightarrow> pubkey \<Rightarrow> pubkey \<Rightarrow> pubkey \<Rightarrow> pubkey \<Rightarrow> pubkey \<Rightarrow> pubkey \<Rightarrow> u64 \<Rightarrow> chain
     \<Rightarrow> error + chain" where
  "withdraw_spl rt signers own key mnt vault_token own_token prog amount s =
     and_then (accounts_withdraw_spl rt signers own key mnt vault_token own_token prog (accounts s))
       (\<lambda>(decimals, t, A).
     and_then (handle_withdraw_spl rt key mnt vault_token own_token prog decimals t amount A) (\<lambda>A'.
       Inr (s\<lparr>accounts := A'\<rparr>)))"

section \<open>claim_spl\<close>

definition accounts_claim_spl ::
  "runtime \<Rightarrow> pubkey list \<Rightarrow> pubkey \<Rightarrow> pubkey \<Rightarrow> pubkey \<Rightarrow> pubkey \<Rightarrow> pubkey \<Rightarrow> pubkey \<Rightarrow> ledger
     \<Rightarrow> error + vault \<times> u8 \<times> token_account \<times> ledger" where
  "accounts_claim_spl rt signers claimant key mnt vault_token claimant_token prog A =
     and_then (load_signer signers claimant) (\<lambda>_.
     and_then (read_vault A key) (\<lambda>v.
     and_then (load_mint rt A mnt) (\<lambda>decimals.
     and_then (load_token rt A vault_token) (\<lambda>t.
     and_then (load_token_program rt prog) (\<lambda>_.
     and_then (init_if_needed_associated rt A claimant_token claimant claimant mnt prog) (\<lambda>A'.
     and_then (check_seeds rt key v) (\<lambda>_.
     and_then (require (\<not> is_sol v) (Dms NotSplVault)) (\<lambda>_.
     and_then (require (mint v = Some mnt) (Dms MintMismatch)) (\<lambda>_.
     and_then (check_associated rt A vault_token t key mnt prog) (\<lambda>_.
       Inr (v, decimals, t, A')))))))))))"

definition handle_claim_spl ::
  "runtime \<Rightarrow> pubkey \<Rightarrow> pubkey \<Rightarrow> pubkey \<Rightarrow> pubkey \<Rightarrow> pubkey \<Rightarrow> pubkey \<Rightarrow> vault \<Rightarrow> u8 \<Rightarrow> token_account
     \<Rightarrow> i64 \<Rightarrow> ledger \<Rightarrow> error + vault \<times> ledger" where
  "handle_claim_spl rt claimant key mnt vault_token claimant_token prog v decimals t now A =
     (let available = tok_amount t
      in and_then (book_claim v claimant now available) (\<lambda>(amount, v').
         and_then (cpi (transfer_checked rt prog vault_token mnt claimant_token key amount decimals A))
           (\<lambda>A'. Inr (v', A'))))"

definition claim_spl ::
  "runtime \<Rightarrow> pubkey list \<Rightarrow> pubkey \<Rightarrow> pubkey \<Rightarrow> pubkey \<Rightarrow> pubkey \<Rightarrow> pubkey \<Rightarrow> pubkey \<Rightarrow> chain
     \<Rightarrow> error + chain" where
  "claim_spl rt signers claimant key mnt vault_token claimant_token prog s =
     and_then (accounts_claim_spl rt signers claimant key mnt vault_token claimant_token prog
                 (accounts s)) (\<lambda>(v, decimals, t, A).
     and_then (handle_claim_spl rt claimant key mnt vault_token claimant_token prog v decimals t
                 (unix_timestamp s) A) (\<lambda>(v', A').
       Inr (s\<lparr>accounts := store_vault key v' A'\<rparr>)))"

section \<open>What each instruction does when it succeeds\<close>

lemma accounts_deposit_spl_Inr:
  "accounts_deposit_spl rt signers own key mnt own_token vault_token prog A = Inr (d, A') \<longleftrightarrow>
     own \<in> set signers \<and>
     (\<exists>v. load_vault rt A key = Inr v \<and> owner v = own \<and> \<not> is_claimed v \<and> mint v = Some mnt) \<and>
     load_mint rt A mnt = Inr d \<and> (\<exists>t. load_associated rt A own_token own mnt prog = Inr t) \<and>
     init_if_needed_associated rt A vault_token own key mnt prog = Inr A'"
  unfolding load_associated_read [symmetric] load_vault_read [symmetric]
  by (auto simp: accounts_deposit_spl_def and_then_eq_Inr is_sol_def init_if_needed_associated_Inr)

lemma accounts_withdraw_spl_Inr:
  "accounts_withdraw_spl rt signers own key mnt vault_token own_token prog A = Inr (d, t, A') \<longleftrightarrow>
     own \<in> set signers \<and>
     (\<exists>v. load_vault rt A key = Inr v \<and> owner v = own \<and> \<not> is_claimed v \<and> mint v = Some mnt) \<and>
     load_mint rt A mnt = Inr d \<and> load_associated rt A vault_token key mnt prog = Inr t \<and>
     init_if_needed_associated rt A own_token own own mnt prog = Inr A'"
  unfolding load_associated_read [symmetric] load_vault_read [symmetric]
  by (auto simp: accounts_withdraw_spl_def and_then_eq_Inr is_sol_def init_if_needed_associated_Inr)

lemma accounts_claim_spl_Inr:
  "accounts_claim_spl rt signers k key mnt vault_token k_token prog A = Inr (v, d, t, A') \<longleftrightarrow>
     k \<in> set signers \<and> load_vault rt A key = Inr v \<and> mint v = Some mnt \<and>
     load_mint rt A mnt = Inr d \<and> load_associated rt A vault_token key mnt prog = Inr t \<and>
     init_if_needed_associated rt A k_token k k mnt prog = Inr A'"
  unfolding load_associated_read [symmetric] load_vault_read [symmetric]
  by (auto simp: accounts_claim_spl_def and_then_eq_Inr is_sol_def init_if_needed_associated_Inr)

lemma deposit_spl_Inr:
  "deposit_spl rt signers own key mnt own_token vault_token prog amount s = Inr s' \<longleftrightarrow>
     (\<exists>d A A'. accounts_deposit_spl rt signers own key mnt own_token vault_token prog (accounts s)
          = Inr (d, A) \<and> 0 < amount \<and>
        transfer_checked rt prog own_token mnt vault_token own amount d A = Inr A' \<and>
        s' = s\<lparr>accounts := A'\<rparr>)"
  by (auto simp: deposit_spl_def handle_deposit_spl_def and_then_eq_Inr)

lemma withdraw_spl_Inr:
  "withdraw_spl rt signers own key mnt vault_token own_token prog amount s = Inr s' \<longleftrightarrow>
     (\<exists>d t A A'. accounts_withdraw_spl rt signers own key mnt vault_token own_token prog (accounts s)
          = Inr (d, t, A) \<and> 0 < amount \<and> amount \<le> tok_amount t \<and>
        transfer_checked rt prog vault_token mnt own_token key amount d A = Inr A' \<and>
        s' = s\<lparr>accounts := A'\<rparr>)"
  by (auto simp: withdraw_spl_def handle_withdraw_spl_def and_then_eq_Inr)

lemma claim_spl_Inr:
  "claim_spl rt signers k key mnt vault_token k_token prog s = Inr s' \<longleftrightarrow>
     (\<exists>v d t amt v' A A'.
        accounts_claim_spl rt signers k key mnt vault_token k_token prog (accounts s)
          = Inr (v, d, t, A) \<and>
        book_claim v k (unix_timestamp s) (tok_amount t) = Inr (amt, v') \<and>
        transfer_checked rt prog vault_token mnt k_token key amt d A = Inr A' \<and>
        s' = s\<lparr>accounts := store_vault key v' A'\<rparr>)"
  by (auto simp: claim_spl_def handle_claim_spl_def and_then_eq_Inr Let_def)

section \<open>The SPL path fulfils the contract of a claim\<close>

text \<open>
  The claimant's token account is never the vault's: it belongs to the claimant, and a
  wallet that signs is not the vault's own address.
\<close>

lemma accounts_claim_splD:
  assumes "accounts_claim_spl rt signers k key mnt vault_token k_token prog A = Inr (v, d, t, A')"
  shows "data (A key) = VaultData v" "data (A vault_token) = TokenData t" "tok_owner t = key"
    "mint v = Some mnt" "init_if_needed_associated rt A k_token k k mnt prog = Inr A'"
    "k \<in> set signers" "load_vault rt A key = Inr v"
  using assms unfolding accounts_claim_spl_Inr load_associated_Inr load_vault_Inr by blast+

lemma claim_spl_transfer:
  assumes "runtime_laws rt" "k \<noteq> key"
    and "accounts_claim_spl rt signers k key mnt vault_token k_token prog A = Inr (v, d, t, A1)"
  shows "vault_token \<noteq> k_token" and "A1 vault_token = A vault_token" and "A1 key = A key"
    and "vaults_kept A A1"
proof -
  note law = runtime_lawsD(3) [OF assms(1)]
  note acc = accounts_claim_splD [OF assms(3)] and init = accounts_claim_splD(5) [OF assms(3)]
  then obtain u where u: "data (A1 k_token) = TokenData u" "tok_owner u = k"
    by (auto simp: init_if_needed_associated_Inr)
  show vt: "A1 vault_token = A vault_token"
    by (rule init_if_needed_other [OF law init]) (simp add: acc(2))
  show "A1 key = A key"
    by (rule init_if_needed_other [OF law init]) (simp add: acc(1))
  show "vault_token \<noteq> k_token"
  proof
    assume "vault_token = k_token"
    then have "u = t" using vt u acc(2) by simp
    then show False using acc(3) u assms(2) by simp
  qed
  show "vaults_kept A A1" using init_if_needed_kept [OF law init] .
qed

definition spl_view :: "pubkey \<Rightarrow> pubkey \<Rightarrow> chain \<Rightarrow> (vault \<times> u64) option" where
  "spl_view key vault_token s =
     (case (vault_at (accounts s) key, token_at (accounts s) vault_token) of
        (Some v, Some t) \<Rightarrow> Some (v, tok_amount t)
      | _ \<Rightarrow> None)"

lemma claim_spl_view:
  assumes "runtime_laws rt" "k \<noteq> key"
    and "claim_spl rt signers k key mnt vault_token k_token prog s = Inr s'"
  shows "\<exists>v avail amt v'. spl_view key vault_token s = Some (v, avail) \<and>
    book_claim v k (unix_timestamp s) avail = Inr (amt, v') \<and>
    spl_view key vault_token s' = Some (v', avail - amt)"
proof -
  from assms(3) obtain v d t amt v' A A' where
    acc: "accounts_claim_spl rt signers k key mnt vault_token k_token prog (accounts s)
            = Inr (v, d, t, A)"
    and book: "book_claim v k (unix_timestamp s) (tok_amount t) = Inr (amt, v')"
    and tr: "transfer_checked rt prog vault_token mnt k_token key amt d A = Inr A'"
    and s': "s' = s\<lparr>accounts := store_vault key v' A'\<rparr>"
    by (auto simp: claim_spl_Inr)
  note same = claim_spl_transfer [OF assms(1,2) acc]
  note data = accounts_claim_splD(1,2) [OF acc]
  have "data (A' vault_token) = TokenData (t\<lparr>tok_amount := tok_amount t - amt\<rparr>)"
    using transfer_checked_debit(1) [OF runtime_lawsD(4) [OF assms(1)] same(1) tr] same(2) data by simp
  moreover have "vault_token \<noteq> key" using data by auto
  ultimately show ?thesis
    using data book by (simp add: spl_view_def vault_at_def token_at_def s' store_vault_def)
qed

interpretation spl: claim_path
  "spl_view key vault_token"
  "\<lambda>k. claim_spl rt (signers k) k key mnt vault_token (k_token k) prog" unix_timestamp
  "\<lambda>k s. k \<noteq> key \<and> runtime_laws rt"
  for rt signers key mnt vault_token k_token prog
proof unfold_locales
  fix k s s'
  assume good: "k \<noteq> key \<and> runtime_laws rt"
    and claim: "claim_spl rt (signers k) k key mnt vault_token (k_token k) prog s = Inr s'"
  show "\<exists>v avail amt v'. spl_view key vault_token s = Some (v, avail) \<and>
      book_claim v k (unix_timestamp s) avail = Inr (amt, v') \<and>
      spl_view key vault_token s' = Some (v', avail - amt)"
    using good claim by (intro claim_spl_view) auto
  show "unix_timestamp s' = unix_timestamp s"
    using claim by (auto simp: claim_spl_Inr)
qed auto

text \<open>
  For a mint without transfer fees, and claimants \<open>K\<close> with token accounts of their own, the
  path also pays out exactly. What a claimant holds is what is in the
  account the claim names for them.
\<close>

definition balance_of :: "(pubkey \<Rightarrow> pubkey) \<Rightarrow> pubkey \<Rightarrow> chain \<Rightarrow> nat" where
  "balance_of k_token k s = (case token_at (accounts s) (k_token k) of
     None \<Rightarrow> 0 | Some t \<Rightarrow> unat (tok_amount t))"

text \<open>Creating a missing account does not change what anyone holds.\<close>

lemma init_balance:
  assumes law: "create_associated_law rt"
    and init: "init_if_needed_associated rt A key payer wallet mnt prog = Inr A'"
  shows "(case token_at A' j of None \<Rightarrow> 0 | Some t \<Rightarrow> unat (tok_amount t))
       = (case token_at A j of None \<Rightarrow> 0 | Some t \<Rightarrow> unat (tok_amount t))"
proof (cases "owner_program (A key) = system_program rt")
  case True
  then have "create_associated rt payer key wallet mnt prog A = Inr A'"
    using init unfolding init_if_needed_associated_Inr by argo
  then have new: "data (A key) = NoData"
      "data (A' key) = TokenData \<lparr>tok_mint = mnt, tok_owner = wallet, tok_amount = 0\<rparr>"
    and rest: "\<And>k. k \<noteq> key \<Longrightarrow> \<exists>l. A' k = (A k)\<lparr>lamports := l\<rparr>"
    using law unfolding create_associated_law_def by blast+
  show ?thesis
  proof (cases "j = key")
    case False
    then obtain l where "A' j = (A j)\<lparr>lamports := l\<rparr>" using rest by blast
    then show ?thesis by (simp add: token_at_def)
  qed (use new in \<open>simp add: token_at_def\<close>)
next
  case False
  then show ?thesis using init by (simp add: init_if_needed_associated_Inr)
qed

lemma claim_spl_credits:
  assumes law: "runtime_laws rt" "exact_transfer_law rt" and "k \<noteq> key"
    and claim: "claim_spl rt signers k key mnt vault_token (k_token k) prog s = Inr s'"
    and "spl_view key vault_token s = Some (v, avail)" "spl_view key vault_token s' = Some (v', avail')"
  shows "balance_of k_token k s' + unat avail' = balance_of k_token k s + unat avail"
proof -
  from claim obtain u d t amt u' A A' where
    acc: "accounts_claim_spl rt signers k key mnt vault_token (k_token k) prog (accounts s)
            = Inr (u, d, t, A)"
    and book: "book_claim u k (unix_timestamp s) (tok_amount t) = Inr (amt, u')"
    and tr: "transfer_checked rt prog vault_token mnt (k_token k) key amt d A = Inr A'"
    and s': "s' = s\<lparr>accounts := store_vault key u' A'\<rparr>"
    by (auto simp: claim_spl_Inr)
  note same = claim_spl_transfer [OF law(1) \<open>k \<noteq> key\<close> acc] and accD = accounts_claim_splD [OF acc]
  have avail: "avail = tok_amount t"
    using assms(5) accD(1,2) by (simp add: spl_view_def vault_at_def token_at_def)
  have amt: "amt \<le> tok_amount t" using book_claim_amount [OF book] by simp
  have left: "data (A' vault_token) = TokenData (t\<lparr>tok_amount := tok_amount t - amt\<rparr>)"
    using transfer_checked_debit(1) [OF runtime_lawsD(4) [OF law(1)] same(1) tr] same(2) accD(2) by simp
  obtain w where w: "data (A (k_token k)) = TokenData w"
    using accD(5) by (auto simp: init_if_needed_associated_Inr)
  then obtain w' where w': "data (A' (k_token k)) = TokenData w'"
    "unat (tok_amount w') = unat (tok_amount w) + unat amt"
    using law(2) tr same(1) unfolding exact_transfer_law_def by blast
  have "k_token k \<noteq> key" using w same(3) accD(1) by auto
  moreover have "vault_token \<noteq> key" using accD(1,2) by auto
  moreover have "balance_of k_token k s = unat (tok_amount w)"
    using init_balance [OF runtime_lawsD(3) [OF law(1)] accD(5), of "k_token k"] w
    by (simp add: balance_of_def token_at_def)
  ultimately show ?thesis
    using left w' amt assms(6)
    by (auto simp: balance_of_def token_at_def vault_at_def spl_view_def s' store_vault_def avail
        unat_sub word_le_nat_alt)
qed

lemma claim_spl_spares:
  assumes law: "runtime_laws rt" and "k_token j \<noteq> k_token k" "k_token j \<noteq> vault_token"
    and claim: "claim_spl rt signers k key mnt vault_token (k_token k) prog s = Inr s'"
  shows "balance_of k_token j s' = balance_of k_token j s"
proof -
  from claim obtain u d t amt u' A A' where
    acc: "accounts_claim_spl rt signers k key mnt vault_token (k_token k) prog (accounts s)
            = Inr (u, d, t, A)"
    and tr: "transfer_checked rt prog vault_token mnt (k_token k) key amt d A = Inr A'"
    and s': "s' = s\<lparr>accounts := store_vault key u' A'\<rparr>"
    by (auto simp: claim_spl_Inr)
  note accD = accounts_claim_splD [OF acc]
  have "A key = accounts s key"
    by (rule init_if_needed_other [OF runtime_lawsD(3) [OF law] accD(5)]) (simp add: accD(1))
  then have key: "token_at A key = None" using accD(1) by (simp add: token_at_def)
  have tr': "A' (k_token j) = A (k_token j)"
    by (rule transfer_checkedE [OF runtime_lawsD(4) [OF law] tr]) (use assms(2,3) in auto)
  then have "token_at (store_vault key u' A') (k_token j) = token_at A (k_token j)"
    using key by (simp add: token_at_def store_vault_def)
  then show ?thesis
    using init_balance [OF runtime_lawsD(3) [OF law] accD(5), of "k_token j"]
    by (simp add: balance_of_def s')
qed

interpretation spl_pay: paying_path
  "spl_view key vault_token"
  "\<lambda>k. claim_spl rt (signers k) k key mnt vault_token (k_token k) prog" unix_timestamp
  "\<lambda>k s. k \<in> K \<and> k \<noteq> key \<and> runtime_laws rt \<and> exact_transfer_law rt \<and> inj_on k_token K \<and>
     vault_token \<notin> k_token ` K"
  "balance_of k_token"
  for rt signers key mnt vault_token k_token prog K
proof unfold_locales
  fix k s s'
  assume good: "k \<in> K \<and> k \<noteq> key \<and> runtime_laws rt \<and> exact_transfer_law rt \<and> inj_on k_token K \<and>
     vault_token \<notin> k_token ` K"
    and claim: "claim_spl rt (signers k) k key mnt vault_token (k_token k) prog s = Inr s'"
  show "\<exists>v avail amt v'. spl_view key vault_token s = Some (v, avail) \<and>
      book_claim v k (unix_timestamp s) avail = Inr (amt, v') \<and>
      spl_view key vault_token s' = Some (v', avail - amt)"
    using good claim by (intro claim_spl_view) auto
  show "unix_timestamp s' = unix_timestamp s"
    using claim by (auto simp: claim_spl_Inr)
  show "balance_of k_token k s' + unat avail' = balance_of k_token k s + unat avail"
    if "spl_view key vault_token s = Some (v, avail)" "spl_view key vault_token s' = Some (v', avail')"
    for v v' avail avail'
    using good claim that by (intro claim_spl_credits) auto
  show "balance_of k_token j s' = balance_of k_token j s" 
    if "j \<noteq> k" "j \<in> K \<and> j \<noteq> key \<and> runtime_laws rt \<and> exact_transfer_law rt \<and> inj_on k_token K \<and>
     vault_token \<notin> k_token ` K" for j
    using good claim that by (intro claim_spl_spares) (auto dest: inj_onD)
qed auto

end
