(* ===== verification/Close_Vault.thy ===== *)
theory Close_Vault
  imports Runtime_Laws
begin

text \<open>
  \<open>close_vault.rs\<close>: closing an empty vault. The two optional accounts are passed for an
  SPL vault only; the vault's own lamports go to the owner when the instruction ends
  (\<open>close = owner\<close>).
\<close>

section \<open>close_vault\<close>

definition accounts_close_vault ::
  "runtime \<Rightarrow> pubkey list \<Rightarrow> pubkey \<Rightarrow> pubkey \<Rightarrow> pubkey option \<Rightarrow> pubkey option \<Rightarrow> ledger
     \<Rightarrow> error + vault \<times> (pubkey \<times> token_account) option" where
  "accounts_close_vault rt signers own key vault_token prog A =
     and_then (load_signer signers own) (\<lambda>_.
     and_then (read_vault A key) (\<lambda>v.
     and_then (case vault_token of
                 None \<Rightarrow> Inr None
               | Some k \<Rightarrow> and_then (load_token rt A k) (\<lambda>t. Inr (Some (k, t)))) (\<lambda>tok.
     and_then (case prog of None \<Rightarrow> Inr () | Some p \<Rightarrow> load_token_program rt p) (\<lambda>_.
     and_then (check_seeds rt key v) (\<lambda>_.
     and_then (require (owner v = own) (Dms Unauthorized)) (\<lambda>_.
       Inr (v, tok)))))))"

definition handle_close_vault ::
  "runtime \<Rightarrow> pubkey \<Rightarrow> pubkey \<Rightarrow> vault \<Rightarrow> (pubkey \<times> token_account) option \<Rightarrow> pubkey option \<Rightarrow> ledger
     \<Rightarrow> error + ledger" where
  "handle_close_vault rt own key v tok prog A =
     (case mint v of
        None \<Rightarrow>
          and_then (require (withdrawable_lamports rt (A key) = 0) (Dms VaultNotEmpty)) (\<lambda>_. Inr A)
      | Some mnt \<Rightarrow>
          and_then (ok_or tok (Dms MissingTokenAccount)) (\<lambda>(tkey, t).
          and_then (ok_or prog (Dms MissingTokenAccount)) (\<lambda>p.
          and_then (require (tok_mint t = mnt) (Dms MintMismatch)) (\<lambda>_.
          and_then (require (tok_owner t = key) (Dms Unauthorized)) (\<lambda>_.
          and_then (require (tok_amount t = 0) (Dms VaultNotEmpty)) (\<lambda>_.
            cpi (close_token_account rt p tkey own key A)))))))"

text \<open>\<open>close = owner\<close>: the lamports move, the account goes back to the System program, empty.\<close>

definition close_to :: "runtime \<Rightarrow> pubkey \<Rightarrow> pubkey \<Rightarrow> ledger \<Rightarrow> error + ledger" where
  "close_to rt key dst A =
     and_then (ok_or (checked_add (lamports (A dst)) (lamports (A key))) Panicked) (\<lambda>total.
       let A1 = A(dst := (A dst)\<lparr>lamports := total\<rparr>)
       in Inr (A1(key := \<lparr>lamports = 0, owner_program = system_program rt,
                         data_len = 0, data = NoData\<rparr>)))"

definition close_vault ::
  "runtime \<Rightarrow> pubkey list \<Rightarrow> pubkey \<Rightarrow> pubkey \<Rightarrow> pubkey option \<Rightarrow> pubkey option \<Rightarrow> chain
     \<Rightarrow> error + chain" where
  "close_vault rt signers own key vault_token prog s =
     and_then (accounts_close_vault rt signers own key vault_token prog (accounts s)) (\<lambda>(v, tok).
     and_then (handle_close_vault rt own key v tok prog (accounts s)) (\<lambda>A.
     and_then (close_to rt key own A) (\<lambda>A'.
       Inr (s\<lparr>accounts := A'\<rparr>))))"

section \<open>What closing does when it succeeds\<close>

lemma accounts_close_vault_Inr:
  "accounts_close_vault rt signers own key vault_token prog A = Inr (v, tok) \<longleftrightarrow>
     own \<in> set signers \<and> load_vault rt A key = Inr v \<and> owner v = own \<and>
     (case vault_token of None \<Rightarrow> tok = None
      | Some k \<Rightarrow> \<exists>t. load_token rt A k = Inr t \<and> tok = Some (k, t)) \<and>
     (\<forall>p. prog = Some p \<longrightarrow> p \<in> set (token_programs rt))"
  unfolding load_vault_read [symmetric]
  by (auto simp: accounts_close_vault_def and_then_eq_Inr split: option.splits)

lemma handle_close_vault_sol:
  "mint v = None \<Longrightarrow> handle_close_vault rt own key v tok prog A = Inr A' \<longleftrightarrow>
     withdrawable_lamports rt (A key) = 0 \<and> A' = A"
  by (auto simp: handle_close_vault_def and_then_eq_Inr)

lemma handle_close_vault_spl:
  "mint v = Some mnt \<Longrightarrow> handle_close_vault rt own key v tok prog A = Inr A' \<longleftrightarrow>
     (\<exists>tkey t p. tok = Some (tkey, t) \<and> prog = Some p \<and> tok_mint t = mnt \<and> tok_owner t = key \<and>
        tok_amount t = 0 \<and> close_token_account rt p tkey own key A = Inr A')"
  by (auto simp: handle_close_vault_def and_then_eq_Inr)

lemma close_to_Inr:
  "close_to rt key dst A = Inr A' \<longleftrightarrow>
     unat (lamports (A dst)) + unat (lamports (A key)) < 2 ^ 64 \<and>
     A' = A(dst := (A dst)\<lparr>lamports := lamports (A dst) + lamports (A key)\<rparr>,
            key := \<lparr>lamports = 0, owner_program = system_program rt, data_len = 0, data = NoData\<rparr>)"
  by (auto simp: close_to_def and_then_eq_Inr checked_add_def Let_def)

lemma close_vault_Inr:
  "close_vault rt signers own key vault_token prog s = Inr s' \<longleftrightarrow>
     (\<exists>v tok A A'. accounts_close_vault rt signers own key vault_token prog (accounts s)
          = Inr (v, tok) \<and>
        handle_close_vault rt own key v tok prog (accounts s) = Inr A \<and>
        close_to rt key own A = Inr A' \<and> s' = s\<lparr>accounts := A'\<rparr>)"
  by (auto simp: close_vault_def and_then_eq_Inr)

end
