(* ===== verification/Program.thy ===== *)
theory Program
  imports Vault_Setup Sol_Vault Spl_Vault Close_Vault
begin

text \<open>
  \<open>lib.rs\<close>: the ten entry points as one dispatch function, and the chain as a transition
  system. A step is a successful instruction with any accounts, arguments and signers, the
  passing of time, or any change by other programs that leaves the vaults alone. Failed
  instructions change nothing and are no steps.
\<close>

section \<open>Dispatch\<close>

datatype instruction =
    InitializeVault pubkey pubkey "pubkey option" u64 i64 "beneficiary_input list"
  | DepositSol pubkey pubkey u64
  | DepositSpl pubkey pubkey pubkey pubkey pubkey pubkey u64
  | CheckIn pubkey pubkey
  | SetBeneficiaries pubkey pubkey "beneficiary_input list"
  | WithdrawSol pubkey pubkey u64
  | WithdrawSpl pubkey pubkey pubkey pubkey pubkey pubkey u64
  | ClaimSol pubkey pubkey
  | ClaimSpl pubkey pubkey pubkey pubkey pubkey pubkey
  | CloseVault pubkey pubkey "pubkey option" "pubkey option"

fun dispatch :: "runtime \<Rightarrow> pubkey list \<Rightarrow> instruction \<Rightarrow> chain \<Rightarrow> error + chain" where
  "dispatch rt signers (InitializeVault own key mnt ident tmo inputs) s =
     initialize_vault rt signers own key mnt ident tmo inputs s"
| "dispatch rt signers (DepositSol own key amount) s = deposit_sol rt signers own key amount s"
| "dispatch rt signers (DepositSpl own key mnt own_token vault_token prog amount) s =
     deposit_spl rt signers own key mnt own_token vault_token prog amount s"
| "dispatch rt signers (CheckIn own key) s = check_in rt signers own key s"
| "dispatch rt signers (SetBeneficiaries own key inputs) s =
     set_beneficiaries rt signers own key inputs s"
| "dispatch rt signers (WithdrawSol own key amount) s = withdraw_sol rt signers own key amount s"
| "dispatch rt signers (WithdrawSpl own key mnt vault_token own_token prog amount) s =
     withdraw_spl rt signers own key mnt vault_token own_token prog amount s"
| "dispatch rt signers (ClaimSol claimant key) s = claim_sol rt signers claimant key s"
| "dispatch rt signers (ClaimSpl claimant key mnt vault_token claimant_token prog) s =
     claim_spl rt signers claimant key mnt vault_token claimant_token prog s"
| "dispatch rt signers (CloseVault own key vault_token prog) s =
     close_vault rt signers own key vault_token prog s"

text \<open>A transaction runs several instructions; one failure undoes them all.\<close>

fun run :: "runtime \<Rightarrow> (pubkey list \<times> instruction) list \<Rightarrow> chain \<Rightarrow> error + chain" where
  "run rt [] s = Inr s"
| "run rt ((signers, ix) # ixs) s = and_then (dispatch rt signers ix s) (run rt ixs)"

section \<open>Steps\<close>

text \<open>No vault address has a private key, so none of them signs a transaction.\<close>

definition wallets :: "pubkey list \<Rightarrow> ledger \<Rightarrow> bool" where
  "wallets signers A \<longleftrightarrow> list_all (\<lambda>k. vault_at A k = None) signers"

text \<open>Other programs cannot take tokens out of an account whose authority is a vault.\<close>

definition vault_tokens_kept :: "ledger \<Rightarrow> ledger \<Rightarrow> bool" where
  "vault_tokens_kept A A' \<longleftrightarrow> (\<forall>key. vault_at A key \<noteq> None \<longrightarrow> tokens_kept A A' key)"

text \<open>All token accounts of one mint belong to one token program.\<close>

definition one_program_per_mint :: "ledger \<Rightarrow> bool" where
  "one_program_per_mint A \<longleftrightarrow> (\<forall>k t k' t'. data (A k) = TokenData t \<and> data (A k') = TokenData t' \<and>
     tok_mint t = tok_mint t' \<longrightarrow> owner_program (A k) = owner_program (A k'))"

inductive chain_step :: "runtime \<Rightarrow> chain \<Rightarrow> chain \<Rightarrow> bool" for rt where
  instruction: "wallets signers (accounts s) \<Longrightarrow> one_program_per_mint (accounts s) \<Longrightarrow>
      dispatch rt signers ix s = Inr s' \<Longrightarrow> chain_step rt s s'"
| time_passes: "sint (unix_timestamp s) \<le> sint now \<Longrightarrow>
      chain_step rt s (s\<lparr>unix_timestamp := now\<rparr>)"
| outside: "vaults_kept (accounts s) A \<Longrightarrow> vault_tokens_kept (accounts s) A \<Longrightarrow>
      chain_step rt s (s\<lparr>accounts := A\<rparr>)"

inductive reachable :: "runtime \<Rightarrow> chain \<Rightarrow> bool" for rt where
  start: "(\<And>key. vault_at (accounts s) key = None) \<Longrightarrow> reachable rt s"
| step: "reachable rt s \<Longrightarrow> chain_step rt s s' \<Longrightarrow> reachable rt s'"

inductive_cases chain_stepE: "chain_step rt s s'"

text \<open>Invariants are proved once, over the step relation.\<close>

lemma reachable_invariant:
  assumes "reachable rt s"
    and "\<And>s. (\<And>key. vault_at (accounts s) key = None) \<Longrightarrow> P s"
    and "\<And>s s'. P s \<Longrightarrow> chain_step rt s s' \<Longrightarrow> P s'"
  shows "P s"
  using assms by (induction rule: reachable.induct) blast+

end
