(* ===== verification/Invariants.thy ===== *)
theory Invariants
  imports Program
begin

text \<open>
  The invariant of the chain: every stored vault is well formed, lives at its derived
  address, keeps its rent-exempt reserve, and a SOL vault that has tripped still holds
  what it owes. Every entry point preserves it (one lemma each), other programs and time
  preserve it, so it holds in every reachable state.
\<close>

section \<open>One account at a time\<close>

definition vault_ok :: "runtime \<Rightarrow> pubkey \<Rightarrow> account \<Rightarrow> vault \<Rightarrow> bool" where
  "vault_ok rt key a v \<longleftrightarrow>
     vault_inv v \<and> data_len a = 8 + vault_init_space \<and>
     unat (minimum_balance rt (8 + vault_init_space)) \<le> unat (lamports a) \<and>
     create_program_address rt (vault_seeds (owner v) (vault_id v) @ [[bump v]]) = Some key \<and>
     (is_sol v \<longrightarrow> solvent v (unat (withdrawable_lamports rt a)))"

definition account_ok :: "runtime \<Rightarrow> pubkey \<Rightarrow> account \<Rightarrow> bool" where
  "account_ok rt key a \<longleftrightarrow> (\<forall>v. data a = VaultData v \<longrightarrow> vault_ok rt key a v)"

definition ledger_ok :: "runtime \<Rightarrow> ledger \<Rightarrow> bool" where
  "ledger_ok rt A \<longleftrightarrow> (\<forall>key. account_ok rt key (A key))"

lemma ledger_okD: "ledger_ok rt A \<Longrightarrow> data (A key) = VaultData v \<Longrightarrow> vault_ok rt key (A key) v"
  by (simp add: ledger_ok_def account_ok_def)

lemma account_ok_no_vault: "(\<And>v. data a \<noteq> VaultData v) \<Longrightarrow> account_ok rt key a"
  by (simp add: account_ok_def)

lemma withdrawable_mono:
  "data_len a = data_len b \<Longrightarrow> unat (lamports a) \<le> unat (lamports b) \<Longrightarrow>
     unat (withdrawable_lamports rt a) \<le> unat (withdrawable_lamports rt b)"
  by (simp add: unat_withdrawable)

text \<open>More lamports never hurt.\<close>

lemma vault_ok_more:
  assumes "vault_ok rt key a v" "data_len b = data_len a" "unat (lamports a) \<le> unat (lamports b)"
  shows "vault_ok rt key b v"
  using assms withdrawable_mono [of a b rt] by (auto simp: vault_ok_def intro: solvent_mono)

lemma account_ok_at: "account_ok rt key (A key) \<longleftrightarrow> (\<forall>v. vault_at A key = Some v \<longrightarrow> vault_ok rt key (A key) v)"
  by (simp add: account_ok_def vault_at_Some)

lemma kept_at_ok: "kept_at A A' k \<Longrightarrow> account_ok rt k (A k) \<Longrightarrow> account_ok rt k (A' k)"
  by (auto simp: account_ok_at kept_at_def intro: vault_ok_more)

lemma ledger_ok_kept: "vaults_kept A A' \<Longrightarrow> ledger_ok rt A \<Longrightarrow> ledger_ok rt A'"
  by (auto simp: vaults_kept_def ledger_ok_def intro: kept_at_ok)

text \<open>An operation on the vault at \<open>key\<close>: everything else kept, that vault replaced.\<close>

lemma ledger_ok_at:
  assumes "ledger_ok rt A" "\<And>k. k \<noteq> key \<Longrightarrow> kept_at A A' k" "account_ok rt key (A' key)"
  shows "ledger_ok rt A'"
  unfolding ledger_ok_def
proof
  fix k
  show "account_ok rt k (A' k)"
    using assms by (cases "k = key") (auto simp: ledger_ok_def intro: kept_at_ok)
qed

lemma kept_at_store: "k \<noteq> key \<Longrightarrow> kept_at A B k \<Longrightarrow> kept_at A (store_vault key v B) k"
  by (rule kept_at_cong) (simp_all add: store_vault_def)

lemma account_ok_store:
  assumes "vault_ok rt key (B key) v"
  shows "account_ok rt key (store_vault key v B key)"
  using assms by (simp add: account_ok_def store_vault_def vault_ok_def)

text \<open>Storing a vault that has not tripped.\<close>

lemma vault_ok_armed:
  assumes "vault_ok rt key a v" "vault_inv v'" "\<not> is_claimed v'"
    and "owner v' = owner v" "vault_id v' = vault_id v" "bump v' = bump v"
  shows "vault_ok rt key a v'"
  using assms by (simp add: vault_ok_def solvent_def)

lemma move_lamports_kept:
  assumes "move_lamports src dst amount A = Inr A'" "k \<noteq> src"
  shows "kept_at A A' k"
proof -
  have over: "unat (lamports (A dst)) + unat amount < 2 ^ 64"
    and A': "A' = (A(src := (A src)\<lparr>lamports := lamports (A src) - amount\<rparr>))
            (dst := (if dst = src then A src else A dst)\<lparr>lamports := lamports (A dst) + amount\<rparr>)"
    using assms by (simp_all add: move_lamports_Inr)
  have "unat (lamports (A dst) + amount) = unat (lamports (A dst)) + unat amount"
    using over by (simp add: unat_word_ariths)
  then show ?thesis
    using assms(2) by (cases "k = dst") (auto simp: A' intro!: kept_at_lamports)
qed

text \<open>The account a payment leaves: its lamports go down by the amount, or up when it pays itself.\<close>

lemma move_lamports_source:
  assumes "move_lamports src dst amount A = Inr A'"
  shows "data (A' src) = data (A src)" "data_len (A' src) = data_len (A src)"
    and "unat (lamports (A src)) - unat amount \<le> unat (lamports (A' src))"
proof -
  have le: "unat amount \<le> unat (lamports (A src))"
    and over: "unat (lamports (A dst)) + unat amount < 2 ^ 64"
    and A': "A' = (A(src := (A src)\<lparr>lamports := lamports (A src) - amount\<rparr>))
            (dst := (if dst = src then A src else A dst)\<lparr>lamports := lamports (A dst) + amount\<rparr>)"
    using assms by (simp_all add: move_lamports_Inr)
  have "unat (lamports (A dst) + amount) = unat (lamports (A dst)) + unat amount"
    using over by (simp add: unat_word_ariths)
  then show "unat (lamports (A src)) - unat amount \<le> unat (lamports (A' src))"
    using le by (auto simp: A' unat_minus_le)
  show "data (A' src) = data (A src)" "data_len (A' src) = data_len (A src)"
    by (simp_all add: A')
qed

section \<open>Every entry point preserves it\<close>

lemma store_armed_ok:
  assumes ok: "ledger_ok rt A" and v: "data (A key) = VaultData v"
    and v': "vault_inv v'" "\<not> is_claimed v'" "owner v' = owner v" "vault_id v' = vault_id v"
      "bump v' = bump v"
  shows "ledger_ok rt (store_vault key v' A)"
proof (rule ledger_ok_at [OF ok])
  show "kept_at A (store_vault key v' A) k" if "k \<noteq> key" for k
    using that by (intro kept_at_store) auto
  show "account_ok rt key (store_vault key v' A key)"
    by (intro account_ok_store vault_ok_armed [OF ledger_okD [OF ok v]] v')
qed

lemma check_in_ok:
  assumes ok: "ledger_ok rt (accounts s)" and run: "check_in rt signers own key s = Inr s'"
  shows "ledger_ok rt (accounts s')"
proof -
  from run obtain v v' where v: "data (accounts s key) = VaultData v" "\<not> is_claimed v"
    and h: "handle_check_in v (unix_timestamp s) = Inr v'"
    and s': "s' = s\<lparr>accounts := store_vault key v' (accounts s)\<rparr>"
    by (auto simp: check_in_Inr accounts_check_in_Inr load_vault_Inr)
  have inv: "vault_inv v" using ledger_okD [OF ok v(1)] by (simp add: vault_ok_def)
  have "v' = v\<lparr>last_checkin := unix_timestamp s\<rparr>" using h by (simp add: handle_check_in_Inr [OF inv])
  then show ?thesis
    using store_armed_ok [OF ok v(1) handle_check_in_inv [OF inv h]] v(2) by (simp add: s')
qed

lemma set_beneficiaries_ok:
  assumes ok: "ledger_ok rt (accounts s)"
    and run: "set_beneficiaries rt signers own key inputs s = Inr s'"
  shows "ledger_ok rt (accounts s')"
proof -
  from run obtain v v' where v: "data (accounts s key) = VaultData v" "\<not> is_claimed v"
    and h: "handle_set_beneficiaries v inputs = Inr v'"
    and s': "s' = s\<lparr>accounts := store_vault key v' (accounts s)\<rparr>"
    by (auto simp: set_beneficiaries_Inr accounts_set_beneficiaries_Inr load_vault_Inr)
  have inv: "vault_inv v" using ledger_okD [OF ok v(1)] by (simp add: vault_ok_def)
  show ?thesis
    using store_armed_ok [OF ok v(1) handle_set_beneficiaries_inv [OF inv v(2) h]] v(2) h
    by (simp add: s' handle_set_beneficiaries_Inr)
qed

lemma initialize_vault_ok:
  assumes law: "init_account_law rt" "find_program_address_law rt"
    and ok: "ledger_ok rt (accounts s)"
    and run: "initialize_vault rt signers own key mnt ident tmo inputs s = Inr s'"
  shows "ledger_ok rt (accounts s')"
proof -
  let ?A = "accounts s"
  from run obtain bmp A v where
    find: "find_program_address rt (vault_seeds own ident) = (key, bmp)"
    and init: "init_account rt own key (8 + vault_init_space) ?A = Inr A"
    and h: "handle_initialize_vault own mnt bmp ident tmo inputs (unix_timestamp s) = Inr v"
    and s': "s' = s\<lparr>accounts := store_vault key v A\<rparr>"
    by (auto simp: initialize_vault_Inr accounts_initialize_vault_Inr)
  have new: "data_len (A key) = 8 + vault_init_space"
      "unat (minimum_balance rt (8 + vault_init_space)) \<le> unat (lamports (A key))"
    and rest: "\<And>k. k \<noteq> key \<Longrightarrow> k \<noteq> own \<Longrightarrow> A k = ?A k"
    and payer: "own \<noteq> key \<Longrightarrow> data (?A own) = NoData \<and> (\<exists>l. A own = (?A own)\<lparr>lamports := l\<rparr>)"
    using law(1) init unfolding init_account_law_def by blast+
  have kept: "kept_at ?A A k" if "k \<noteq> key" for k
  proof (cases "k = own")
    case True
    then show ?thesis using that payer by (intro kept_at_no_vault) (auto simp: vault_at_def)
  next
    case False
    then show ?thesis using rest [of k] that by (intro kept_at_same)
  qed
  have "create_program_address rt (vault_seeds own ident @ [[bmp]]) = Some key"
    using law(2) find unfolding find_program_address_law_def by blast
  moreover have "owner v = own" "vault_id v = ident" "bump v = bmp"
    using h by (simp_all add: handle_initialize_vault_Inr)
  ultimately have "vault_ok rt key (A key) v"
    using new handle_initialize_vault_inv [OF h] by (simp add: vault_ok_def solvent_def)
  then show ?thesis
    using kept by (auto simp: s' intro!: ledger_ok_at [OF ok] kept_at_store account_ok_store)
qed

lemma deposit_sol_ok:
  assumes "system_transfer_law rt" "ledger_ok rt (accounts s)"
    and "deposit_sol rt signers own key amount s = Inr s'"
  shows "ledger_ok rt (accounts s')"
proof -
  from assms(3) obtain A where "system_transfer rt own key amount (accounts s) = Inr A"
    and s': "accounts s' = A"
    by (auto simp: deposit_sol_Inr)
  then show ?thesis using ledger_ok_kept [OF system_transfer_kept [OF assms(1)] assms(2)] by simp
qed

lemma withdraw_sol_ok:
  assumes ok: "ledger_ok rt (accounts s)"
    and run: "withdraw_sol rt signers own key amount s = Inr s'"
  shows "ledger_ok rt (accounts s')"
proof -
  from run obtain v A where v: "data (accounts s key) = VaultData v" "\<not> is_claimed v"
    and amt: "amount \<le> withdrawable_lamports rt (accounts s key)"
    and mv: "move_lamports key own amount (accounts s) = Inr A"
    and s': "s' = s\<lparr>accounts := A\<rparr>"
    by (auto simp: withdraw_sol_Inr accounts_withdraw_sol_Inr load_vault_Inr)
  note src = move_lamports_source [OF mv]
  note vok = ledger_okD [OF ok v(1)]
  have "unat (minimum_balance rt (8 + vault_init_space)) \<le> unat (lamports (A key))"
    using vok src(3) amt by (simp add: vault_ok_def word_le_nat_alt unat_withdrawable) linarith
  then have "vault_ok rt key (A key) v"
    using vok src(2) v(2) by (simp add: vault_ok_def solvent_def)
  then have "account_ok rt key (A key)" using src v(1) by (simp add: account_ok_def)
  then show ?thesis
    using ledger_ok_at [OF ok move_lamports_kept [OF mv]] by (simp add: s')
qed

lemma claim_sol_ok:
  assumes ok: "ledger_ok rt (accounts s)"
    and run: "claim_sol rt signers k key s = Inr s'"
  shows "ledger_ok rt (accounts s')"
proof -
  let ?avail = "withdrawable_lamports rt (accounts s key)"
  from run obtain v amt v' A where v: "data (accounts s key) = VaultData v" "is_sol v"
    and book: "book_claim v k (unix_timestamp s) ?avail = Inr (amt, v')"
    and mv: "move_lamports key k amt (accounts s) = Inr A"
    and s': "s' = s\<lparr>accounts := store_vault key v' A\<rparr>"
    by (auto simp: claim_sol_Inr accounts_claim_sol_Inr load_vault_Inr)
  note src = move_lamports_source [OF mv]
  note vok = ledger_okD [OF ok v(1)]
  have inv: "vault_inv v" and solv: "solvent v (unat ?avail)"
    using vok v(2) by (simp_all add: vault_ok_def)
  have amt: "unat amt \<le> unat ?avail" using book_claim_amount [OF book] by (simp add: word_le_nat_alt)
  have left: "unat ?avail - unat amt \<le> unat (withdrawable_lamports rt (A key))"
    using src by (simp add: unat_withdrawable)
  have "solvent v' (unat (withdrawable_lamports rt (A key)))"
    using book_claim_accounts [OF inv solv book] left unfolding solvent_def by linarith
  moreover have "unat (minimum_balance rt (8 + vault_init_space)) \<le> unat (lamports (A key))"
    using vok src(3) amt by (simp add: vault_ok_def unat_withdrawable) linarith
  ultimately have "vault_ok rt key (A key) v'"
    using vok src(2) book_claim_inv [OF inv book] book_claim_frame [OF inv book]
    by (simp add: vault_ok_def)
  then show ?thesis
    using move_lamports_kept [OF mv]
    by (auto simp: s' intro!: ledger_ok_at [OF ok] kept_at_store account_ok_store)
qed

lemma deposit_spl_kept:
  assumes law: "runtime_laws rt"
    and run: "deposit_spl rt signers own key mnt own_token vault_token prog amount s = Inr s'"
  shows "vaults_kept (accounts s) (accounts s')"
proof -
  from run obtain d A A' where
    init: "init_if_needed_associated rt (accounts s) vault_token own key mnt prog = Inr A"
    and tr: "transfer_checked rt prog own_token mnt vault_token own amount d A = Inr A'"
    and s': "s' = s\<lparr>accounts := A'\<rparr>"
    by (auto simp: deposit_spl_Inr accounts_deposit_spl_Inr)
  show ?thesis
    using vaults_kept_trans [OF init_if_needed_kept [OF runtime_lawsD(3) [OF law] init]
        transfer_checked_kept [OF runtime_lawsD(4) [OF law] tr]] by (simp add: s')
qed

lemma withdraw_spl_kept:
  assumes law: "runtime_laws rt"
    and run: "withdraw_spl rt signers own key mnt vault_token own_token prog amount s = Inr s'"
  shows "vaults_kept (accounts s) (accounts s')"
proof -
  from run obtain d t A A' where
    init: "init_if_needed_associated rt (accounts s) own_token own own mnt prog = Inr A"
    and tr: "transfer_checked rt prog vault_token mnt own_token key amount d A = Inr A'"
    and s': "s' = s\<lparr>accounts := A'\<rparr>"
    by (auto simp: withdraw_spl_Inr accounts_withdraw_spl_Inr)
  show ?thesis
    using vaults_kept_trans [OF init_if_needed_kept [OF runtime_lawsD(3) [OF law] init]
        transfer_checked_kept [OF runtime_lawsD(4) [OF law] tr]] by (simp add: s')
qed

text \<open>An SPL claim replaces the vault; every other vault is kept.\<close>

lemma claim_spl_vault:
  assumes law: "runtime_laws rt"
    and run: "claim_spl rt signers k key mnt vault_token k_token prog s = Inr s'"
  obtains v t amt v' A where "vault_at (accounts s) key = Some v" "mint v = Some mnt"
    "token_at (accounts s) vault_token = Some t" "k \<in> set signers"
    "book_claim v k (unix_timestamp s) (tok_amount t) = Inr (amt, v')"
    "vaults_kept (accounts s) A" "s' = s\<lparr>accounts := store_vault key v' A\<rparr>"
proof -
  from run obtain v d t amt v' A A' where
    acc: "accounts_claim_spl rt signers k key mnt vault_token k_token prog (accounts s)
            = Inr (v, d, t, A)"
    and book: "book_claim v k (unix_timestamp s) (tok_amount t) = Inr (amt, v')"
    and tr: "transfer_checked rt prog vault_token mnt k_token key amt d A = Inr A'"
    and s': "s' = s\<lparr>accounts := store_vault key v' A'\<rparr>"
    by (auto simp: claim_spl_Inr)
  note acc = accounts_claim_splD [OF acc]
  have "vaults_kept (accounts s) A'"
    using vaults_kept_trans [OF init_if_needed_kept [OF runtime_lawsD(3) [OF law] acc(5)]
        transfer_checked_kept [OF runtime_lawsD(4) [OF law] tr]] .
  with acc book s' that show thesis by (auto simp: vault_at_Some token_at_Some)
qed

lemma claim_spl_ok:
  assumes law: "runtime_laws rt" and ok: "ledger_ok rt (accounts s)"
    and run: "claim_spl rt signers k key mnt vault_token k_token prog s = Inr s'"
  shows "ledger_ok rt (accounts s')"
  using claim_spl_vault [OF law run]
proof cases
  case (1 v t amt v' A)
  have v: "data (accounts s key) = VaultData v" using 1(1) by (simp add: vault_at_Some)
  note vok = ledger_okD [OF ok v]
  then have inv: "vault_inv v" by (simp add: vault_ok_def)
  have key: "kept_at (accounts s) A key" using 1(6) by (rule vaults_keptD)
  then have "vault_ok rt key (A key) v"
    using vok 1(1) by (auto simp: kept_at_def intro: vault_ok_more)
  then have "vault_ok rt key (A key) v'"
    using 1(2) book_claim_inv [OF inv 1(5)] book_claim_frame [OF inv 1(5)]
    by (simp add: vault_ok_def is_sol_def)
  then show ?thesis
    using vaults_keptD [OF 1(6)]
    by (auto simp: 1(7) intro!: ledger_ok_at [OF ok] kept_at_store account_ok_store)
qed

text \<open>Closing a vault takes it out of the chain and keeps the others.\<close>

lemma close_to_kept:
  assumes "close_to rt key dst A = Inr A'" "k \<noteq> key"
  shows "kept_at A A' k"
proof -
  have "unat (lamports (A dst) + lamports (A key)) = unat (lamports (A dst)) + unat (lamports (A key))"
    using assms(1) by (simp add: close_to_Inr unat_word_ariths)
  then show ?thesis
    using assms by (cases "k = dst") (auto simp: close_to_Inr intro!: kept_at_lamports)
qed

lemma close_vault_kept:
  assumes law: "runtime_laws rt"
    and run: "close_vault rt signers own key vault_token prog s = Inr s'"
  shows "k \<noteq> key \<Longrightarrow> kept_at (accounts s) (accounts s') k" and "vault_at (accounts s') key = None"
proof -
  from run obtain v tok A A' where
    h: "handle_close_vault rt own key v tok prog (accounts s) = Inr A"
    and cl: "close_to rt key own A = Inr A'" and s': "s' = s\<lparr>accounts := A'\<rparr>"
    by (auto simp: close_vault_Inr)
  have kept: "vaults_kept (accounts s) A"
  proof (cases "mint v")
    case None
    then show ?thesis using h by (simp add: handle_close_vault_sol)
  next
    case (Some m)
    then show ?thesis
      using h close_token_account_kept [OF runtime_lawsD(5) [OF law]]
      by (auto simp: handle_close_vault_spl)
  qed
  show "kept_at (accounts s) (accounts s') k" if "k \<noteq> key"
    using kept_at_trans [OF vaults_keptD [OF kept] close_to_kept [OF cl that]] by (simp add: s')
  show "vault_at (accounts s') key = None"
    using cl by (simp add: close_to_Inr s' vault_at_def)
qed

lemma close_vault_ok:
  assumes "runtime_laws rt" "ledger_ok rt (accounts s)"
    and "close_vault rt signers own key vault_token prog s = Inr s'"
  shows "ledger_ok rt (accounts s')"
  using close_vault_kept [OF assms(1,3)]
  by (auto intro!: ledger_ok_at [OF assms(2)] simp: account_ok_at)

section \<open>Every reachable chain\<close>

lemma dispatch_ok:
  assumes law: "runtime_laws rt" "find_program_address_law rt"
    and ok: "ledger_ok rt (accounts s)" and run: "dispatch rt signers ix s = Inr s'"
  shows "ledger_ok rt (accounts s')"
proof (cases ix)
  case (DepositSpl own key mnt own_token vault_token prog amount)
  then show ?thesis using run ledger_ok_kept [OF deposit_spl_kept [OF law(1)] ok] by simp
next
  case (WithdrawSpl own key mnt vault_token own_token prog amount)
  then show ?thesis using run ledger_ok_kept [OF withdraw_spl_kept [OF law(1)] ok] by simp
qed (use run ok initialize_vault_ok [OF runtime_lawsD(2) [OF law(1)] law(2) ok]
      deposit_sol_ok [OF runtime_lawsD(1) [OF law(1)] ok] check_in_ok [OF ok]
      set_beneficiaries_ok [OF ok] withdraw_sol_ok [OF ok] claim_sol_ok [OF ok]
      claim_spl_ok [OF law(1) ok] close_vault_ok [OF law(1) ok] in auto)

lemma chain_step_ok:
  assumes "runtime_laws rt" "find_program_address_law rt"
    and "ledger_ok rt (accounts s)" "chain_step rt s s'"
  shows "ledger_ok rt (accounts s')"
  using assms(4,3) dispatch_ok [OF assms(1,2)]
  by (cases rule: chain_step.cases) (auto intro: ledger_ok_kept)

lemma reachable_ok:
  assumes "runtime_laws rt" "find_program_address_law rt" "reachable rt s"
  shows "ledger_ok rt (accounts s)"
  using assms(3)
proof (rule reachable_invariant)
  fix s :: chain
  assume "\<And>key. vault_at (accounts s) key = None"
  then show "ledger_ok rt (accounts s)" by (simp add: ledger_ok_def account_ok_at)
qed (use chain_step_ok [OF assms(1,2)] in blast)

end
