(* ===== verification/Token_Frames.thy ===== *)
theory Token_Frames
  imports Invariants
begin

text \<open>
  What the instructions do to token accounts, authority by authority: every instruction keeps
  the tokens under an authority, except that a withdrawal and a claim may take those of the
  vault they are about, and closing a vault may remove an empty token account.
\<close>

section \<open>Token accounts under the program's own writes\<close>

lemma store_vault_tokens:
  assumes "tokens_kept A B auth" "token_at A key = None"
  shows "tokens_kept A (store_vault key v B) auth"
  unfolding tokens_kept_def
proof (intro allI impI)
  fix k t
  assume t: "token_at A k = Some t \<and> tok_owner t = auth"
  then have "k \<noteq> key" using assms(2) by auto
  then have "store_vault key v B k = B k" by (simp add: store_vault_def)
  then show "owner_program (store_vault key v B k) = owner_program (A k) \<and>
     (\<exists>t'. token_at (store_vault key v B) k = Some t' \<and> tok_mint t' = tok_mint t \<and>
        tok_owner t' = auth \<and> unat (tok_amount t) \<le> unat (tok_amount t'))"
    using t assms(1) by (auto simp: token_at_def elim: tokens_keptD)
qed

lemma move_lamports_tokens:
  "move_lamports src dst amount A = Inr A' \<Longrightarrow> tokens_kept A A' auth"
  by (intro tokens_keptI) (auto simp: move_lamports_Inr)

lemma vault_no_token: "vault_at A key = Some v \<Longrightarrow> token_at A key = None"
  by (simp add: vault_at_Some token_at_def)

lemma vault_at_store:
  "vault_at (store_vault key v B) k = (if k = key then Some v else vault_at B k)"
  by (simp add: vault_at_def store_vault_def)

lemma close_to_tokens:
  assumes "close_to rt key dst A = Inr A'" "token_at A key = None"
  shows "tokens_kept A A' auth"
  using assms by (intro tokens_keptI) (auto simp: close_to_Inr token_at_def)

section \<open>The instructions\<close>

lemma stored_tokens:
  assumes "data (accounts s key) = VaultData v" "tokens_kept (accounts s) A auth"
  shows "tokens_kept (accounts s) (store_vault key v' A) auth"
  using assms by (intro store_vault_tokens) (simp_all add: token_at_def)

lemma initialize_vault_tokens:
  assumes law: "init_account_law rt"
    and run: "initialize_vault rt signers own key mnt ident tmo inputs s = Inr s'"
  shows "tokens_kept (accounts s) (accounts s') auth"
proof -
  from run obtain bmp A v where
    init: "init_account rt own key (8 + vault_init_space) (accounts s) = Inr A"
    and s': "s' = s\<lparr>accounts := store_vault key v A\<rparr>"
    by (auto simp: initialize_vault_Inr accounts_initialize_vault_Inr)
  then show ?thesis
    using init_account_tokens [OF law init] by (auto simp: token_at_def intro!: store_vault_tokens)
qed

lemma check_in_tokens:
  assumes "check_in rt signers own key s = Inr s'"
  shows "tokens_kept (accounts s) (accounts s') auth"
  using assms stored_tokens [OF _ tokens_kept_refl]
  by (auto simp: check_in_Inr accounts_check_in_Inr load_vault_Inr)

lemma set_beneficiaries_tokens:
  assumes "set_beneficiaries rt signers own key inputs s = Inr s'"
  shows "tokens_kept (accounts s) (accounts s') auth"
  using assms stored_tokens [OF _ tokens_kept_refl]
  by (auto simp: set_beneficiaries_Inr accounts_set_beneficiaries_Inr load_vault_Inr)

lemma deposit_sol_tokens:
  assumes "system_transfer_law rt" "deposit_sol rt signers own key amount s = Inr s'"
  shows "tokens_kept (accounts s) (accounts s') auth"
  using assms by (auto simp: deposit_sol_Inr intro: system_transfer_tokens)

lemma withdraw_sol_tokens:
  assumes "withdraw_sol rt signers own key amount s = Inr s'"
  shows "tokens_kept (accounts s) (accounts s') auth"
  using assms by (auto simp: withdraw_sol_Inr intro: move_lamports_tokens)

lemma claim_sol_tokens:
  assumes "claim_sol rt signers k key s = Inr s'"
  shows "tokens_kept (accounts s) (accounts s') auth"
  using assms stored_tokens [OF _ move_lamports_tokens]
  by (auto simp: claim_sol_Inr accounts_claim_sol_Inr load_vault_Inr)

text \<open>The signer of a deposit is no vault, so the tokens it spends are not a vault's.\<close>

lemma deposit_spl_tokens:
  assumes law: "runtime_laws rt" and wallets: "wallets signers (accounts s)"
    and run: "deposit_spl rt signers own key mnt own_token vault_token prog amount s = Inr s'"
    and auth: "vault_at (accounts s) auth \<noteq> None"
  shows "tokens_kept (accounts s) (accounts s') auth"
proof -
  from run obtain d t A A' where signer: "own \<in> set signers"
    and src: "load_associated rt (accounts s) own_token own mnt prog = Inr t"
    and init: "init_if_needed_associated rt (accounts s) vault_token own key mnt prog = Inr A"
    and tr: "transfer_checked rt prog own_token mnt vault_token own amount d A = Inr A'"
    and s': "s' = s\<lparr>accounts := A'\<rparr>"
    by (auto simp: deposit_spl_Inr accounts_deposit_spl_Inr)
  have t: "data (accounts s own_token) = TokenData t" "tok_owner t = own"
    using src unfolding load_associated_Inr by blast+
  have t': "data (A own_token) = TokenData t"
    using init_if_needed_other [OF runtime_lawsD(3) [OF law] init, of own_token] t by simp
  have "tok_owner t \<noteq> auth"
    using wallets signer t(2) auth by (auto simp: wallets_def list_all_iff)
  from tokens_kept_trans [OF init_if_needed_tokens [OF runtime_lawsD(3) [OF law] init]
      transfer_checked_tokens [OF runtime_lawsD(4) [OF law] tr t' this]]
  show ?thesis by (simp add: s')
qed

lemma withdraw_spl_tokens:
  assumes law: "runtime_laws rt" and "auth \<noteq> key"
    and run: "withdraw_spl rt signers own key mnt vault_token own_token prog amount s = Inr s'"
  shows "tokens_kept (accounts s) (accounts s') auth"
proof -
  from run obtain d t A A' where
    src: "load_associated rt (accounts s) vault_token key mnt prog = Inr t"
    and init: "init_if_needed_associated rt (accounts s) own_token own own mnt prog = Inr A"
    and tr: "transfer_checked rt prog vault_token mnt own_token key amount d A = Inr A'"
    and s': "s' = s\<lparr>accounts := A'\<rparr>"
    by (auto simp: withdraw_spl_Inr accounts_withdraw_spl_Inr)
  have t: "data (accounts s vault_token) = TokenData t" "tok_owner t = key"
    using src unfolding load_associated_Inr by blast+
  have "data (A vault_token) = TokenData t"
    using init_if_needed_other [OF runtime_lawsD(3) [OF law] init, of vault_token] t by simp
  from tokens_kept_trans [OF init_if_needed_tokens [OF runtime_lawsD(3) [OF law] init]
      transfer_checked_tokens [OF runtime_lawsD(4) [OF law] tr this, of auth]]
  show ?thesis using t(2) assms(2) by (simp add: s')
qed

lemma claim_spl_tokens:
  assumes law: "runtime_laws rt" and "auth \<noteq> key"
    and run: "claim_spl rt signers k key mnt vault_token k_token prog s = Inr s'"
  shows "tokens_kept (accounts s) (accounts s') auth"
proof -
  from run obtain v d t amt v' A A' where
    acc: "accounts_claim_spl rt signers k key mnt vault_token k_token prog (accounts s) = Inr (v, d, t, A)"
    and tr: "transfer_checked rt prog vault_token mnt k_token key amt d A = Inr A'"
    and s': "s' = s\<lparr>accounts := store_vault key v' A'\<rparr>"
    by (auto simp: claim_spl_Inr)
  note acc = accounts_claim_splD [OF acc]
  have "data (A vault_token) = TokenData t"
    using init_if_needed_other [OF runtime_lawsD(3) [OF law] acc(5), of vault_token] acc(2) by simp
  from tokens_kept_trans [OF init_if_needed_tokens [OF runtime_lawsD(3) [OF law] acc(5)]
      transfer_checked_tokens [OF runtime_lawsD(4) [OF law] tr this, of auth]]
  show ?thesis
    using acc(1,3) assms(2) by (auto simp: s' token_at_def intro!: store_vault_tokens)
qed

end
