(* ===== verification/Spl_Invariant.thy ===== *)
theory Spl_Invariant
  imports Token_Frames
begin

text \<open>
  The money invariant of SPL vaults: once the switch has tripped, the vault's associated
  token account holds at least what the unpaid heirs are owed. Beside the runtime's laws it
  needs that no vault signs a transaction and that a mint belongs to one token program; the
  steps of \<open>Program\<close> carry both.
\<close>

section \<open>Coverage of one vault\<close>

definition covered :: "runtime \<Rightarrow> ledger \<Rightarrow> pubkey \<Rightarrow> vault \<Rightarrow> bool" where
  "covered rt A key v \<longleftrightarrow> (\<forall>m. mint v = Some m \<and> is_claimed v \<longrightarrow>
     (\<exists>k t. k = associated_address rt key m (owner_program (A k)) \<and> token_at A k = Some t \<and>
        tok_mint t = m \<and> tok_owner t = key \<and> owed v \<le> unat (tok_amount t)))"

definition spl_ok :: "runtime \<Rightarrow> ledger \<Rightarrow> bool" where
  "spl_ok rt A \<longleftrightarrow> (\<forall>key v. vault_at A key = Some v \<longrightarrow> covered rt A key v)"

lemma covered_armed: "\<not> is_claimed v \<Longrightarrow> covered rt A key v"
  by (simp add: covered_def)

lemma covered_sol: "is_sol v \<Longrightarrow> covered rt A key v"
  by (simp add: covered_def is_sol_def)

lemma covered_kept:
  assumes "covered rt A key v" "tokens_kept A A' key"
  shows "covered rt A' key v"
  unfolding covered_def
proof (intro allI impI)
  fix m
  assume "mint v = Some m \<and> is_claimed v"
  then obtain k t where k: "k = associated_address rt key m (owner_program (A k))"
    "token_at A k = Some t" "tok_mint t = m" "tok_owner t = key" "owed v \<le> unat (tok_amount t)"
    using assms(1) unfolding covered_def by blast
  obtain t' where t': "token_at A' k = Some t'" "tok_mint t' = tok_mint t" "tok_owner t' = key"
    "unat (tok_amount t) \<le> unat (tok_amount t')" "owner_program (A' k) = owner_program (A k)"
    using tokens_keptD [OF assms(2) k(2,4)] by blast
  have "k = associated_address rt key m (owner_program (A' k))" using k(1) t'(5) by simp
  moreover have "owed v \<le> unat (tok_amount t')" using k(5) t'(4) by simp
  moreover have "tok_mint t' = m" using k(3) t'(2) by simp
  ultimately show "\<exists>k t. k = associated_address rt key m (owner_program (A' k)) \<and>
      token_at A' k = Some t \<and> tok_mint t = m \<and> tok_owner t = key \<and> owed v \<le> unat (tok_amount t)"
    using t'(1,3) by blast
qed

lemma spl_ok_at:
  assumes "spl_ok rt A"
    and "\<And>k. k \<noteq> key \<Longrightarrow> vault_at A' k = vault_at A k"
    and "\<And>k. k \<noteq> key \<Longrightarrow> vault_at A k \<noteq> None \<Longrightarrow> tokens_kept A A' k"
    and "\<And>v. vault_at A' key = Some v \<Longrightarrow> covered rt A' key v"
  shows "spl_ok rt A'"
  unfolding spl_ok_def
proof (intro allI impI)
  fix k v
  assume v: "vault_at A' k = Some v"
  show "covered rt A' k v"
  proof (cases "k = key")
    case True
    then show ?thesis using v assms(4) by simp
  next
    case False
    then have k: "vault_at A k = Some v" using v assms(2) by simp
    have "tokens_kept A A' k" using assms(3) [OF False] k by simp
    moreover have "covered rt A k v" using assms(1) k by (simp add: spl_ok_def)
    ultimately show ?thesis by (rule covered_kept [rotated])
  qed
qed

lemma spl_ok_kept:
  assumes "spl_ok rt A" "vaults_kept A A'" "vault_tokens_kept A A'"
  shows "spl_ok rt A'"
proof -
  have "covered rt A' k v" if "vault_at A' k = Some v" for k v
  proof -
    have "vault_at A k = Some v" using that vaults_keptD [OF assms(2), of k] by (simp add: kept_at_def)
    moreover have "tokens_kept A A' k" using calculation assms(3) by (simp add: vault_tokens_kept_def)
    ultimately show ?thesis using assms(1) by (auto simp: spl_ok_def intro: covered_kept)
  qed
  then show ?thesis by (simp add: spl_ok_def)
qed

section \<open>Every entry point preserves coverage\<close>

text \<open>Storing a vault that has not tripped or holds SOL, after writes that keep all tokens.\<close>

lemma spl_ok_store:
  assumes "spl_ok rt A" "\<And>k. k \<noteq> key \<Longrightarrow> vault_at B k = vault_at A k"
    and "\<And>k. tokens_kept A B k" "token_at A key = None"
    and "\<not> is_claimed v \<or> is_sol v"
  shows "spl_ok rt (store_vault key v B)"
  using assms
  by (intro spl_ok_at [OF assms(1)])
     (auto simp: vault_at_store intro: store_vault_tokens covered_armed covered_sol)

lemma init_account_vaults:
  assumes "init_account_law rt" "init_account rt payer key space A = Inr A'" "k \<noteq> key"
  shows "vault_at A' k = vault_at A k"
proof -
  have law: "k \<noteq> payer \<Longrightarrow> A' k = A k"
     "payer \<noteq> key \<Longrightarrow> \<exists>l. A' payer = (A payer)\<lparr>lamports := l\<rparr>"
    using assms unfolding init_account_law_def by blast+
  then show ?thesis using assms(3) by (cases "k = payer") (auto simp: vault_at_def)
qed

lemma initialize_vault_spl:
  assumes law: "init_account_law rt" and ok: "spl_ok rt (accounts s)"
    and run: "initialize_vault rt signers own key mnt ident tmo inputs s = Inr s'"
  shows "spl_ok rt (accounts s')"
proof -
  from run obtain bmp A v where
    init: "init_account rt own key (8 + vault_init_space) (accounts s) = Inr A"
    and h: "handle_initialize_vault own mnt bmp ident tmo inputs (unix_timestamp s) = Inr v"
    and s': "s' = s\<lparr>accounts := store_vault key v A\<rparr>"
    by (auto simp: initialize_vault_Inr accounts_initialize_vault_Inr)
  show ?thesis
    using init_account_vaults [OF law init] init_account_tokens [OF law init]
      handle_initialize_vault_inv(2) [OF h]
    by (auto simp: s' token_at_def intro!: spl_ok_store [OF ok])
qed

lemma check_in_spl:
  assumes ok: "spl_ok rt (accounts s)" and run: "check_in rt signers own key s = Inr s'"
  shows "spl_ok rt (accounts s')"
proof -
  from run obtain v v' where v: "vault_at (accounts s) key = Some v" "\<not> is_claimed v"
    and h: "handle_check_in v (unix_timestamp s) = Inr v'"
    and s': "s' = s\<lparr>accounts := store_vault key v' (accounts s)\<rparr>"
    by (auto simp: check_in_Inr accounts_check_in_Inr load_vault_Inr vault_at_Some)
  have "\<not> is_claimed v'" using h v(2) by (auto simp: handle_check_in_def and_then_eq_Inr Let_def)
  then show ?thesis
    using vault_no_token [OF v(1)] by (auto simp: s' intro!: spl_ok_store [OF ok])
qed

lemma set_beneficiaries_spl:
  assumes ok: "spl_ok rt (accounts s)"
    and run: "set_beneficiaries rt signers own key inputs s = Inr s'"
  shows "spl_ok rt (accounts s')"
proof -
  from run obtain v v' where v: "vault_at (accounts s) key = Some v" "\<not> is_claimed v"
    and h: "handle_set_beneficiaries v inputs = Inr v'"
    and s': "s' = s\<lparr>accounts := store_vault key v' (accounts s)\<rparr>"
    by (auto simp: set_beneficiaries_Inr accounts_set_beneficiaries_Inr load_vault_Inr vault_at_Some)
  have "\<not> is_claimed v'" using h v(2) by (simp add: handle_set_beneficiaries_Inr)
  then show ?thesis
    using vault_no_token [OF v(1)] by (auto simp: s' intro!: spl_ok_store [OF ok])
qed

lemma move_lamports_vaults: "move_lamports src dst amount A = Inr A' \<Longrightarrow> vault_at A' k = vault_at A k"
  by (auto simp: move_lamports_Inr vault_at_def)

lemma withdraw_sol_spl:
  assumes ok: "spl_ok rt (accounts s)" and run: "withdraw_sol rt signers own key amount s = Inr s'"
  shows "spl_ok rt (accounts s')"
proof -
  from run obtain v A where v: "vault_at (accounts s) key = Some v" "\<not> is_claimed v"
    and mv: "move_lamports key own amount (accounts s) = Inr A" and s': "s' = s\<lparr>accounts := A\<rparr>"
    by (auto simp: withdraw_sol_Inr accounts_withdraw_sol_Inr load_vault_Inr vault_at_Some)
  show ?thesis
    using v by (intro spl_ok_at [OF ok, of key])
      (auto simp: s' move_lamports_vaults [OF mv] intro: move_lamports_tokens [OF mv] covered_armed)
qed

lemma claim_sol_spl:
  assumes good: "ledger_ok rt (accounts s)" and ok: "spl_ok rt (accounts s)"
    and run: "claim_sol rt signers k key s = Inr s'"
  shows "spl_ok rt (accounts s')"
proof -
  from run obtain v amt v' A where v: "vault_at (accounts s) key = Some v" "is_sol v"
    and book: "book_claim v k (unix_timestamp s) (withdrawable_lamports rt (accounts s key)) = Inr (amt, v')"
    and mv: "move_lamports key k amt (accounts s) = Inr A"
    and s': "s' = s\<lparr>accounts := store_vault key v' A\<rparr>"
    by (auto simp: claim_sol_Inr accounts_claim_sol_Inr load_vault_Inr vault_at_Some)
  have "vault_inv v" using ledger_okD [OF good] v(1) by (simp add: vault_at_Some vault_ok_def)
  then have "is_sol v'" using book_claim_frame(3) [OF _ book] v(2) by (simp add: is_sol_def)
  then show ?thesis
    using vault_no_token [OF v(1)] move_lamports_vaults [OF mv] move_lamports_tokens [OF mv]
    by (auto simp: s' intro!: spl_ok_store [OF ok])
qed

lemma deposit_sol_spl:
  assumes law: "system_transfer_law rt" and ok: "spl_ok rt (accounts s)"
    and run: "deposit_sol rt signers own key amount s = Inr s'"
  shows "spl_ok rt (accounts s')"
proof -
  from run obtain A where tr: "system_transfer rt own key amount (accounts s) = Inr A"
    and s': "s' = s\<lparr>accounts := A\<rparr>" by (auto simp: deposit_sol_Inr)
  have "spl_ok rt A"
    by (rule spl_ok_kept [OF ok system_transfer_kept [OF law tr]])
       (simp add: vault_tokens_kept_def system_transfer_tokens [OF law tr])
  then show ?thesis by (simp add: s')
qed

lemma deposit_spl_spl:
  assumes law: "runtime_laws rt" and ok: "spl_ok rt (accounts s)"
    and wallets: "wallets signers (accounts s)"
    and run: "deposit_spl rt signers own key mnt own_token vault_token prog amount s = Inr s'"
  shows "spl_ok rt (accounts s')"
  using spl_ok_kept [OF ok deposit_spl_kept [OF law run]] deposit_spl_tokens [OF law wallets run]
  by (simp add: vault_tokens_kept_def)

text \<open>A withdrawal spends the tokens of an armed vault only.\<close>

lemma withdraw_spl_spl:
  assumes law: "runtime_laws rt" and ok: "spl_ok rt (accounts s)"
    and run: "withdraw_spl rt signers own key mnt vault_token own_token prog amount s = Inr s'"
  shows "spl_ok rt (accounts s')"
proof -
  have same: "vault_at (accounts s') k = vault_at (accounts s) k" for k
    using vaults_keptD [OF withdraw_spl_kept [OF law run], of k] by (simp add: kept_at_def)
  from run obtain v where "vault_at (accounts s) key = Some v" "\<not> is_claimed v"
    by (auto simp: withdraw_spl_Inr accounts_withdraw_spl_Inr load_vault_Inr vault_at_Some)
  then show ?thesis
    using same withdraw_spl_tokens [OF law _ run]
    by (intro spl_ok_at [OF ok, of key]) (auto intro: covered_armed)
qed

text \<open>The vault's associated account is the one that covers it.\<close>

lemma covered_solvent:
  assumes ok: "spl_ok rt A" and v: "vault_at A key = Some v" "mint v = Some m"
    and one: "one_program_per_mint A" and t: "data (A vt) = TokenData t" "tok_mint t = m"
    and vt: "vt = associated_address rt key m (owner_program (A vt))"
  shows "solvent v (unat (tok_amount t))"
  unfolding solvent_def
proof
  assume "is_claimed v"
  then obtain j u where j: "j = associated_address rt key m (owner_program (A j))"
    "token_at A j = Some u" "tok_mint u = m" "owed v \<le> unat (tok_amount u)"
    using ok v unfolding spl_ok_def covered_def by blast
  have "owner_program (A j) = owner_program (A vt)"
  proof -
    have "data (A j) = TokenData u" "tok_mint u = tok_mint t"
      using j(2,3) t(2) by (simp_all add: token_at_Some)
    then show ?thesis using one t(1) unfolding one_program_per_mint_def by blast
  qed
  then have "j = vt" using j(1) vt by simp
  then show "owed v \<le> unat (tok_amount t)" using j(2,4) t(1) by (simp add: token_at_Some)
qed

text \<open>An SPL claim pays from the account that covers the vault, and leaves it covered.\<close>

lemma claim_spl_spl:
  assumes law: "runtime_laws rt" and good: "ledger_ok rt (accounts s)" and ok: "spl_ok rt (accounts s)"
    and wallets: "wallets signers (accounts s)" and one: "one_program_per_mint (accounts s)"
    and run: "claim_spl rt signers k key mnt vault_token k_token prog s = Inr s'"
  shows "spl_ok rt (accounts s')"
proof -
  from run obtain v d t amt v' A A' where
    acc: "accounts_claim_spl rt signers k key mnt vault_token k_token prog (accounts s)
            = Inr (v, d, t, A)"
    and book: "book_claim v k (unix_timestamp s) (tok_amount t) = Inr (amt, v')"
    and tr: "transfer_checked rt prog vault_token mnt k_token key amt d A = Inr A'"
    and s': "s' = s\<lparr>accounts := store_vault key v' A'\<rparr>"
    by (auto simp: claim_spl_Inr)
  note accD = accounts_claim_splD [OF acc]
  have v: "vault_at (accounts s) key = Some v" using accD(1) by (simp add: vault_at_Some)
  have inv: "vault_inv v" using ledger_okD [OF good accD(1)] by (simp add: vault_ok_def)
  have "k \<noteq> key" using wallets accD(6) v by (auto simp: wallets_def list_all_iff)
  note same = claim_spl_transfer [OF law this acc]
  have src: "data (A vault_token) = TokenData t" using same(2) accD(2) by simp
  have prog: "vault_token = associated_address rt key mnt (owner_program (accounts s vault_token))"
    using acc unfolding accounts_claim_spl_Inr load_associated_Inr by blast
  obtain u where "data (A vault_token) = TokenData u" "tok_mint u = mnt"
    by (rule transfer_checkedE [OF runtime_lawsD(4) [OF law] tr]) auto
  then have tm: "tok_mint t = mnt" using src by simp
  have solv: "solvent v (unat (tok_amount t))"
    by (rule covered_solvent [OF ok v accD(4) one accD(2) tm prog])
  have left: "owed v' \<le> unat (tok_amount t - amt)"
    using book_claim_solvent [OF inv solv book] book_claim_frame(7) [OF inv book]
    by (simp add: solvent_def)
  have paid: "data (A' vault_token) = TokenData (t\<lparr>tok_amount := tok_amount t - amt\<rparr>)"
    by (rule transfer_checked_debit(1) [OF runtime_lawsD(4) [OF law] same(1) tr src])
  have "owner_program (A' vault_token) = owner_program (accounts s vault_token)"
    by (rule transfer_checkedE [OF runtime_lawsD(4) [OF law] tr]) (use same(2) in auto)
  moreover have ne: "vault_token \<noteq> key" using accD(1,2) by auto
  ultimately have cov: "covered rt (accounts s') key v'"
    using paid prog tm accD(3) left
    unfolding covered_def
    by (intro allI impI exI [of _ vault_token] exI [of _ "t\<lparr>tok_amount := tok_amount t - amt\<rparr>"])
       (use book_claim_frame(3) [OF inv book] accD(4) in
         \<open>auto simp: s' store_vault_def token_at_def\<close>)
  have vaults: "vaults_kept (accounts s) A'"
    using vaults_kept_trans [OF same(4) transfer_checked_kept [OF runtime_lawsD(4) [OF law] tr]] .
  show ?thesis
  proof (rule spl_ok_at [OF ok, of key])
    show "vault_at (accounts s') j = vault_at (accounts s) j" if "j \<noteq> key" for j
      using that vaults_keptD [OF vaults, of j] by (simp add: s' vault_at_store kept_at_def)
    show "tokens_kept (accounts s) (accounts s') j" if "j \<noteq> key" for j
      by (rule claim_spl_tokens [OF law that run])
    show "covered rt (accounts s') key w" if "vault_at (accounts s') key = Some w" for w
      using that cov by (simp add: s' vault_at_store)
  qed
qed

lemma close_vault_others:
  assumes law: "runtime_laws rt" and run: "close_vault rt signers own key vault_token prog s = Inr s'"
    and k: "k \<noteq> key"
  shows "tokens_kept (accounts s) (accounts s') k"
proof -
  from run obtain v tok A A' where
    v: "vault_at (accounts s) key = Some v"
    and h: "handle_close_vault rt own key v tok prog (accounts s) = Inr A"
    and cl: "close_to rt key own A = Inr A'" and s': "s' = s\<lparr>accounts := A'\<rparr>"
    by (auto simp: close_vault_Inr accounts_close_vault_Inr load_vault_Inr vault_at_Some)
  have A: "vaults_kept (accounts s) A \<and> tokens_kept (accounts s) A k"
  proof (cases "mint v")
    case None
    then show ?thesis using h by (simp add: handle_close_vault_sol)
  next
    case (Some m)
    then show ?thesis
      using h k close_token_account_kept [OF runtime_lawsD(5) [OF law]]
        close_token_account_tokens [OF runtime_lawsD(5) [OF law]]
      by (auto simp: handle_close_vault_spl)
  qed
  have "vault_at A key = Some v" using A v vaults_keptD [of "accounts s" A key] by (simp add: kept_at_def)
  note cl_tokens = close_to_tokens [OF cl vault_no_token [OF this]]
  show ?thesis using tokens_kept_trans [OF _ cl_tokens] A by (simp add: s')
qed

lemma close_vault_spl:
  assumes law: "runtime_laws rt" and ok: "spl_ok rt (accounts s)"
    and run: "close_vault rt signers own key vault_token prog s = Inr s'"
  shows "spl_ok rt (accounts s')"
proof (rule spl_ok_at [OF ok, of key])
  show "vault_at (accounts s') k = vault_at (accounts s) k" if "k \<noteq> key" for k
    using close_vault_kept(1) [OF law run that] by (simp add: kept_at_def)
qed (use close_vault_kept(2) [OF law run] close_vault_others [OF law run] in simp_all)

section \<open>Every reachable chain\<close>

lemma dispatch_spl:
  assumes law: "runtime_laws rt" and good: "ledger_ok rt (accounts s)" and ok: "spl_ok rt (accounts s)"
    and signers: "wallets signers (accounts s)" "one_program_per_mint (accounts s)"
    and run: "dispatch rt signers ix s = Inr s'"
  shows "spl_ok rt (accounts s')"
  by (cases ix) (use run ok initialize_vault_spl [OF runtime_lawsD(2) [OF law] ok]
      deposit_sol_spl [OF runtime_lawsD(1) [OF law] ok] deposit_spl_spl [OF law ok signers(1)]
      check_in_spl [OF ok] set_beneficiaries_spl [OF ok] withdraw_sol_spl [OF ok]
      withdraw_spl_spl [OF law ok] claim_sol_spl [OF good ok]
      claim_spl_spl [OF law good ok signers] close_vault_spl [OF law ok] in auto)

lemma chain_step_spl:
  assumes "runtime_laws rt" "ledger_ok rt (accounts s)" "spl_ok rt (accounts s)" "chain_step rt s s'"
  shows "spl_ok rt (accounts s')"
  using assms(4,2,3) dispatch_spl [OF assms(1)]
  by (cases rule: chain_step.cases) (auto intro: spl_ok_kept)

lemma reachable_both:
  assumes "runtime_laws rt" "find_program_address_law rt" "reachable rt s"
  shows "ledger_ok rt (accounts s) \<and> spl_ok rt (accounts s)"
  using assms(3)
proof (rule reachable_invariant)
  fix s :: chain
  assume "\<And>key. vault_at (accounts s) key = None"
  then show "ledger_ok rt (accounts s) \<and> spl_ok rt (accounts s)"
    by (simp add: ledger_ok_def account_ok_at spl_ok_def)
qed (use chain_step_ok [OF assms(1,2)] chain_step_spl [OF assms(1)] in blast)

end
