(* ===== verification/Lifecycle.thy ===== *)
theory Lifecycle
  imports Spl_Invariant
begin

text \<open>
  The life of one vault as the rest of the world sees it: opened, kept alive and amended by
  its owner, claimed by its heirs, closed by its owner. \<open>life_step\<close> is that state machine,
  over the data of a single address; every instruction of the program is one of its steps
  at every address. What may and may not happen to a vault follows by inverting the steps.
\<close>

section \<open>The state machine\<close>

inductive life_step :: "pubkey list \<Rightarrow> i64 \<Rightarrow> vault option \<Rightarrow> vault option \<Rightarrow> bool"
  for signers now where
  keep: "life_step signers now x x"
| open_vault: "own \<in> set signers \<Longrightarrow>
     handle_initialize_vault own mnt bmp ident tmo inputs now = Inr v \<Longrightarrow>
     life_step signers now None (Some v)"
| check_in: "owner v \<in> set signers \<Longrightarrow> \<not> is_claimed v \<Longrightarrow> handle_check_in v now = Inr v' \<Longrightarrow>
     life_step signers now (Some v) (Some v')"
| amend: "owner v \<in> set signers \<Longrightarrow> \<not> is_claimed v \<Longrightarrow> handle_set_beneficiaries v inputs = Inr v' \<Longrightarrow>
     life_step signers now (Some v) (Some v')"
| claim: "k \<in> set signers \<Longrightarrow> book_claim v k now avail = Inr (amt, v') \<Longrightarrow>
     life_step signers now (Some v) (Some v')"
| close: "owner v \<in> set signers \<Longrightarrow> life_step signers now (Some v) None"

inductive_cases life_step_existingE: "life_step signers now (Some v) (Some v')"
inductive_cases life_step_closedE: "life_step signers now (Some v) None"
inductive_cases life_step_openedE: "life_step signers now None (Some v)"
inductive_simps life_step_none: "life_step signers now None None"

lemma kept_at_life: "kept_at A A' key \<Longrightarrow> life_step signers now (vault_at A key) (vault_at A' key)"
  by (simp add: kept_at_def life_step.keep)

lemma store_life:
  assumes "life_step signers now (vault_at A key) (Some v)" "\<And>k. k \<noteq> key \<Longrightarrow> vault_at B k = vault_at A k"
  shows "life_step signers now (vault_at A k) (vault_at (store_vault key v B) k)"
  using assms by (cases "k = key") (auto simp: vault_at_store intro: life_step.keep)

section \<open>Every instruction is a step of it\<close>

lemma initialize_vault_life:
  assumes law: "init_account_law rt"
    and run: "initialize_vault rt signers own key mnt ident tmo inputs s = Inr s'"
  shows "life_step signers (unix_timestamp s) (vault_at (accounts s) k) (vault_at (accounts s') k)"
proof -
  from run obtain bmp A v where own: "own \<in> set signers"
    and init: "init_account rt own key (8 + vault_init_space) (accounts s) = Inr A"
    and h: "handle_initialize_vault own mnt bmp ident tmo inputs (unix_timestamp s) = Inr v"
    and s': "s' = s\<lparr>accounts := store_vault key v A\<rparr>"
    by (auto simp: initialize_vault_Inr accounts_initialize_vault_Inr)
  have "vault_at (accounts s) key = None" using init_account_tokens(2) [OF law init] by simp
  then have "life_step signers (unix_timestamp s) (vault_at (accounts s) key) (Some v)"
    using life_step.open_vault [OF own h] by simp
  then show ?thesis
    using store_life init_account_vaults [OF law init] by (simp add: s')
qed

lemma check_in_life:
  "check_in rt signers own key s = Inr s' \<Longrightarrow>
     life_step signers (unix_timestamp s) (vault_at (accounts s) k) (vault_at (accounts s') k)"
  by (auto simp: check_in_Inr accounts_check_in_Inr load_vault_Inr vault_at_Some [symmetric]
      intro!: store_life life_step.check_in)

lemma set_beneficiaries_life:
  "set_beneficiaries rt signers own key inputs s = Inr s' \<Longrightarrow>
     life_step signers (unix_timestamp s) (vault_at (accounts s) k) (vault_at (accounts s') k)"
  by (auto simp: set_beneficiaries_Inr accounts_set_beneficiaries_Inr load_vault_Inr
      vault_at_Some [symmetric] intro!: store_life life_step.amend)

lemma claim_sol_life:
  assumes "claim_sol rt signers claimant key s = Inr s'"
  shows "life_step signers (unix_timestamp s) (vault_at (accounts s) k) (vault_at (accounts s') k)"
proof -
  from assms obtain v amt v' A where v: "vault_at (accounts s) key = Some v" "claimant \<in> set signers"
    and book: "book_claim v claimant (unix_timestamp s) (withdrawable_lamports rt (accounts s key))
                 = Inr (amt, v')"
    and mv: "move_lamports key claimant amt (accounts s) = Inr A"
    and s': "s' = s\<lparr>accounts := store_vault key v' A\<rparr>"
    by (auto simp: claim_sol_Inr accounts_claim_sol_Inr load_vault_Inr vault_at_Some)
  show ?thesis
    using v life_step.claim [OF v(2) book] move_lamports_vaults [OF mv]
    by (auto simp: s' intro!: store_life)
qed

lemma claim_spl_life:
  assumes "runtime_laws rt"
    and "claim_spl rt signers claimant key mnt vault_token k_token prog s = Inr s'"
  shows "life_step signers (unix_timestamp s) (vault_at (accounts s) k) (vault_at (accounts s') k)"
  using claim_spl_vault [OF assms]
proof cases
  case (1 v t amt v' A)
  have "vault_at A j = vault_at (accounts s) j" for j
    using vaults_keptD [OF 1(6), of j] by (simp add: kept_at_def)
  then show ?thesis
    using 1(1) life_step.claim [OF 1(4,5)] by (auto simp: 1(7) intro!: store_life)
qed

lemma close_vault_life:
  assumes "runtime_laws rt" "close_vault rt signers own key vault_token prog s = Inr s'"
  shows "life_step signers (unix_timestamp s) (vault_at (accounts s) k) (vault_at (accounts s') k)"
proof (cases "k = key")
  case True
  from assms(2) obtain v where "vault_at (accounts s) key = Some v" "owner v \<in> set signers"
    by (auto simp: close_vault_Inr accounts_close_vault_Inr load_vault_Inr vault_at_Some)
  then show ?thesis
    using close_vault_kept(2) [OF assms] True by (auto intro: life_step.close)
qed (use close_vault_kept(1) [OF assms] kept_at_life in blast)

lemma dispatch_life:
  assumes law: "runtime_laws rt" and run: "dispatch rt signers ix s = Inr s'"
  shows "life_step signers (unix_timestamp s) (vault_at (accounts s) k) (vault_at (accounts s') k)"
proof (cases ix)
  case (DepositSol own key amount)
  then show ?thesis
    using run vaults_keptD [OF system_transfer_kept [OF runtime_lawsD(1) [OF law]]]
    by (auto simp: deposit_sol_Inr intro: kept_at_life)
next
  case (DepositSpl own key mnt own_token vault_token prog amount)
  then show ?thesis using run deposit_spl_kept [OF law] by (auto intro!: kept_at_life vaults_keptD)
next
  case (WithdrawSpl own key mnt vault_token own_token prog amount)
  then show ?thesis using run withdraw_spl_kept [OF law] by (auto intro!: kept_at_life vaults_keptD)
next
  case (WithdrawSol own key amount)
  then show ?thesis
    using run by (auto simp: withdraw_sol_Inr move_lamports_vaults life_step.keep)
qed (use run initialize_vault_life [OF runtime_lawsD(2) [OF law]] check_in_life
      set_beneficiaries_life claim_sol_life claim_spl_life [OF law] close_vault_life [OF law] in auto)

end
