(* ===== verification/Custody.thy ===== *)
theory Custody
  imports Lifecycle
begin

text \<open>
  Who can take what out of a vault. For every instruction of the program: the lamports of
  a vault account and the tokens held under a vault's authority go down only in a
  withdrawal by the owner before the switch trips, in a claim by a listed, unpaid heir
  after the deadline, or, for the lamports, when the owner closes the vault.
\<close>

section \<open>Who is due\<close>

definition heir_due :: "pubkey list \<Rightarrow> i64 \<Rightarrow> vault \<Rightarrow> pubkey \<Rightarrow> bool" where
  "heir_due signers now v k \<longleftrightarrow> k \<in> set signers \<and>
     sint (last_checkin v) + sint (timeout_seconds v) \<le> sint now \<and>
     (\<exists>b\<in>set (heirs v). address b = k \<and> \<not> claimed b)"

lemma book_claim_due:
  "vault_inv v \<Longrightarrow> book_claim v k now avail = Inr (amt, v') \<Longrightarrow> k \<in> set signers \<Longrightarrow>
     heir_due signers now v k"
  by (auto simp: heir_due_def book_claim_Inr intro: nth_mem)

section \<open>Lamports\<close>

lemma kept_at_not_less: "kept_at A A' k \<Longrightarrow> vault_at A k = Some v \<Longrightarrow> \<not> lamports (A' k) < lamports (A k)"
  by (simp add: kept_at_def word_less_nat_alt)

lemma initialize_vault_kept:
  assumes law: "init_account_law rt" and v: "vault_at (accounts s) k = Some v"
    and run: "initialize_vault rt signers own key mnt ident tmo inputs s = Inr s'"
  shows "accounts s' k = accounts s k"
proof -
  from run obtain bmp A u where init: "init_account rt own key (8 + vault_init_space) (accounts s) = Inr A"
    and s': "s' = s\<lparr>accounts := store_vault key u A\<rparr>"
    by (auto simp: initialize_vault_Inr accounts_initialize_vault_Inr)
  have law': "data (accounts s key) = NoData" "k \<noteq> key \<Longrightarrow> k \<noteq> own \<Longrightarrow> A k = accounts s k"
     "own \<noteq> key \<Longrightarrow> data (accounts s own) = NoData"
    using law init unfolding init_account_law_def by blast+
  with v have "k \<noteq> key" "k \<noteq> own" by (cases "own = key"; auto simp: vault_at_def)+
  then show ?thesis using law'(2) by (simp add: s' store_vault_def)
qed

lemma store_vault_lamports [simp]: "lamports (store_vault key v A k) = lamports (A k)"
  by (simp add: store_vault_def)

text \<open>The three instructions that can take lamports out of a vault, and when they do.\<close>

lemma withdraw_sol_leaves:
  assumes "withdraw_sol rt signers own k amount s = Inr s'" "vault_at (accounts s) key = Some v"
    and "lamports (accounts s' key) < lamports (accounts s key)"
  shows "k = key \<and> own = owner v \<and> owner v \<in> set signers \<and> \<not> is_claimed v \<and>
    amount \<le> withdrawable_lamports rt (accounts s key)"
proof (cases "k = key")
  case True
  then show ?thesis using assms(1,2)
    by (auto simp: withdraw_sol_Inr accounts_withdraw_sol_Inr load_vault_Inr vault_at_Some)
next
  case False
  with assms(1) have "kept_at (accounts s) (accounts s') key"
    by (auto simp: withdraw_sol_Inr intro: move_lamports_kept)
  then show ?thesis using kept_at_not_less [OF _ assms(2)] assms(3) by blast
qed

lemma claim_sol_leaves:
  assumes "claim_sol rt signers claimant k s = Inr s'" "vault_at (accounts s) key = Some v" "vault_inv v"
    and "lamports (accounts s' key) < lamports (accounts s key)"
  shows "k = key \<and> heir_due signers (unix_timestamp s) v claimant"
proof (cases "k = key")
  case True
  then show ?thesis using assms(1,2) book_claim_due [OF assms(3)]
    by (auto simp: claim_sol_Inr accounts_claim_sol_Inr load_vault_Inr vault_at_Some)
next
  case False
  from assms(1) obtain amt A where "move_lamports k claimant amt (accounts s) = Inr A"
    and s': "lamports (accounts s' key) = lamports (A key)" by (auto simp: claim_sol_Inr)
  then have "kept_at (accounts s) A key" using False by (intro move_lamports_kept) auto
  then show ?thesis using kept_at_not_less [OF _ assms(2)] assms(4) s' by metis
qed

lemma close_vault_leaves:
  assumes "runtime_laws rt" "close_vault rt signers own k vt p s = Inr s'"
    and "vault_at (accounts s) key = Some v" "lamports (accounts s' key) < lamports (accounts s key)"
  shows "k = key \<and> own = owner v \<and> owner v \<in> set signers \<and>
    (is_sol v \<longrightarrow> withdrawable_lamports rt (accounts s key) = 0)"
proof (cases "k = key")
  case True
  then show ?thesis using assms(2,3)
    by (auto simp: close_vault_Inr accounts_close_vault_Inr load_vault_Inr vault_at_Some is_sol_def
        handle_close_vault_sol)
next
  case False
  then have "kept_at (accounts s) (accounts s') key"
    using close_vault_kept(1) [OF assms(1,2)] by simp
  then show ?thesis using kept_at_not_less [OF _ assms(3)] assms(4) by blast
qed

text \<open>The others leave the lamports of a vault alone, or add to them.\<close>

lemma claim_spl_lamports:
  assumes "runtime_laws rt" "claim_spl rt signers claimant k mnt vault_token claimant_token prog s = Inr s'"
    and "vault_at (accounts s) key = Some v"
  shows "\<not> lamports (accounts s' key) < lamports (accounts s key)"
proof -
  from assms(2) obtain u A where "vaults_kept (accounts s) A" "s' = s\<lparr>accounts := store_vault k u A\<rparr>"
    by (auto elim: claim_spl_vault [OF assms(1)])
  then have "lamports (accounts s' key) = lamports (A key)" "kept_at (accounts s) A key"
    by (auto intro: vaults_keptD)
  then show ?thesis using kept_at_not_less [OF _ assms(3)] by metis
qed

lemma token_and_deposit_lamports:
  assumes "runtime_laws rt" "vault_at (accounts s) key = Some v"
  shows "deposit_sol rt signers own k amount s = Inr s' \<Longrightarrow>
      \<not> lamports (accounts s' key) < lamports (accounts s key)"
    and "deposit_spl rt signers own k mnt own_token vault_token prog amount s = Inr s' \<Longrightarrow>
      \<not> lamports (accounts s' key) < lamports (accounts s key)"
    and "withdraw_spl rt signers own k mnt vault_token own_token prog amount s = Inr s' \<Longrightarrow>
      \<not> lamports (accounts s' key) < lamports (accounts s key)"
proof -
  have "\<not> lamports (accounts s' key) < lamports (accounts s key)"
    if "vaults_kept (accounts s) (accounts s')"
    using kept_at_not_less [OF vaults_keptD [OF that] assms(2)] .
  then show "deposit_sol rt signers own k amount s = Inr s' \<Longrightarrow>
      \<not> lamports (accounts s' key) < lamports (accounts s key)"
    and "deposit_spl rt signers own k mnt own_token vault_token prog amount s = Inr s' \<Longrightarrow>
      \<not> lamports (accounts s' key) < lamports (accounts s key)"
    and "withdraw_spl rt signers own k mnt vault_token own_token prog amount s = Inr s' \<Longrightarrow>
      \<not> lamports (accounts s' key) < lamports (accounts s key)"
    using system_transfer_kept [OF runtime_lawsD(1) [OF assms(1)]] deposit_spl_kept [OF assms(1)]
      withdraw_spl_kept [OF assms(1)]
    by (auto simp: deposit_sol_Inr)
qed

lemma lamports_leave:
  assumes law: "runtime_laws rt" and run: "dispatch rt signers ix s = Inr s'"
    and v: "vault_at (accounts s) key = Some v" and inv: "vault_inv v"
    and less: "lamports (accounts s' key) < lamports (accounts s key)"
  shows "(\<exists>amount. ix = WithdrawSol (owner v) key amount \<and> owner v \<in> set signers \<and> \<not> is_claimed v \<and>
            amount \<le> withdrawable_lamports rt (accounts s key)) \<or>
    (\<exists>k. ix = ClaimSol k key \<and> heir_due signers (unix_timestamp s) v k) \<or>
    (\<exists>vt p. ix = CloseVault (owner v) key vt p \<and> owner v \<in> set signers \<and>
       (is_sol v \<longrightarrow> withdrawable_lamports rt (accounts s key) = 0))"
proof (cases ix)
  case (InitializeVault own k mnt ident tmo inputs)
  then show ?thesis using run less initialize_vault_kept [OF runtime_lawsD(2) [OF law] v] by simp
next
  case (WithdrawSol own k amount)
  then have "withdraw_sol rt signers own k amount s = Inr s'" using run by simp
  from withdraw_sol_leaves [OF this v less] show ?thesis using WithdrawSol by simp
next
  case (ClaimSol claimant k)
  then have "claim_sol rt signers claimant k s = Inr s'" using run by simp
  from claim_sol_leaves [OF this v inv less] show ?thesis using ClaimSol by simp
next
  case (CloseVault own k vt p)
  then have "close_vault rt signers own k vt p s = Inr s'" using run by simp
  from close_vault_leaves [OF law this v less] show ?thesis using CloseVault by simp
qed (use run less token_and_deposit_lamports [OF law v] claim_spl_lamports [OF law _ v] in
    \<open>auto simp: check_in_Inr set_beneficiaries_Inr\<close>)

section \<open>Tokens\<close>

text \<open>The tokens of a mint that a token account holds under an authority.\<close>

definition tokens_of :: "ledger \<Rightarrow> pubkey \<Rightarrow> pubkey \<Rightarrow> pubkey \<Rightarrow> nat" where
  "tokens_of A tkey auth mnt = (case token_at A tkey of
     None \<Rightarrow> 0
   | Some t \<Rightarrow> if tok_owner t = auth \<and> tok_mint t = mnt then unat (tok_amount t) else 0)"

lemma tokens_of_kept: "tokens_kept A A' auth \<Longrightarrow> tokens_of A tkey auth mnt \<le> tokens_of A' tkey auth mnt"
  by (fastforce simp: tokens_kept_def tokens_of_def split: option.split)

lemma tokens_of_store:
  "token_at A key = None \<Longrightarrow> tokens_of (store_vault key v A) tkey auth mnt = tokens_of A tkey auth mnt"
  by (simp add: tokens_of_def token_at_def store_vault_def)

text \<open>Closing a vault destroys an empty token account at most.\<close>

lemma close_vault_tokens:
  assumes law: "runtime_laws rt"
    and run: "close_vault rt signers own key vault_token prog s = Inr s'"
  shows "tokens_of (accounts s) tkey auth mnt \<le> tokens_of (accounts s') tkey auth mnt"
proof -
  from run obtain v tok A A' where
    v: "data (accounts s key) = VaultData v"
    and h: "handle_close_vault rt own key v tok prog (accounts s) = Inr A"
    and cl: "close_to rt key own A = Inr A'" and s': "s' = s\<lparr>accounts := A'\<rparr>"
    by (auto simp: close_vault_Inr accounts_close_vault_Inr load_vault_Inr)
  have A: "tokens_of (accounts s) tkey auth mnt \<le> tokens_of A tkey auth mnt \<and>
      vault_at A key = vault_at (accounts s) key"
  proof (cases "mint v")
    case None
    then show ?thesis using h by (simp add: handle_close_vault_sol)
  next
    case (Some m)
    then obtain k p where cta: "close_token_account rt p k own key (accounts s) = Inr A"
      using h by (auto simp: handle_close_vault_spl)
    then have law': "\<exists>t. data (accounts s k) = TokenData t \<and> tok_amount t = 0"
      "A own = (accounts s own)\<lparr>lamports := lamports (accounts s own) + lamports (accounts s k)\<rparr>"
      "\<And>j. j \<noteq> k \<Longrightarrow> j \<noteq> own \<Longrightarrow> A j = accounts s j"
      using runtime_lawsD(5) [OF law] unfolding close_token_account_law_def by blast+
    have "tokens_of (accounts s) tkey auth mnt \<le> tokens_of A tkey auth mnt"
      using law' by (cases "tkey = k"; cases "tkey = own") (auto simp: tokens_of_def token_at_def)
    moreover have "vault_at A key = vault_at (accounts s) key"
      using vaults_keptD [OF close_token_account_kept [OF runtime_lawsD(5) [OF law] cta], of key]
      by (simp add: kept_at_def)
    ultimately show ?thesis by blast
  qed
  then have "token_at A key = None" using v by (auto simp: vault_at_Some [symmetric] intro: vault_no_token)
  then have "tokens_kept A A' auth" by (rule close_to_tokens [OF cl])
  then show ?thesis using A tokens_of_kept [of A A' auth tkey mnt] by (simp add: s')
qed

lemma tokens_leave:
  assumes law: "runtime_laws rt" and signers: "wallets signers (accounts s)"
    and run: "dispatch rt signers ix s = Inr s'"
    and v: "vault_at (accounts s) key = Some v" and inv: "vault_inv v"
    and less: "tokens_of (accounts s') tkey key mnt < tokens_of (accounts s) tkey key mnt"
  shows "(\<exists>own_token prog amount vt m. ix = WithdrawSpl (owner v) key m vt own_token prog amount \<and>
            mint v = Some m \<and> owner v \<in> set signers \<and> \<not> is_claimed v) \<or>
    (\<exists>k k_token prog vt m. ix = ClaimSpl k key m vt k_token prog \<and> mint v = Some m \<and>
            heir_due signers (unix_timestamp s) v k)"
proof -
  have no: "\<not> tokens_kept (accounts s) (accounts s') key"
    using less tokens_of_kept [of "accounts s" "accounts s'" key tkey mnt] by auto
  show ?thesis
  proof (cases ix)
    case (WithdrawSpl own k m vt own_token prog amount)
    then have w: "withdraw_spl rt signers own k m vt own_token prog amount s = Inr s'" using run by simp
    have "k = key" using withdraw_spl_tokens [OF law _ w] no by metis
    with w v have "owner v = own" "mint v = Some m" "own \<in> set signers" "\<not> is_claimed v"
      by (auto simp: withdraw_spl_Inr accounts_withdraw_spl_Inr load_vault_Inr vault_at_Some)
    then show ?thesis using WithdrawSpl \<open>k = key\<close> by blast
  next
    case (ClaimSpl k j m vt k_token prog)
    then have c: "claim_spl rt signers k j m vt k_token prog s = Inr s'" using run by simp
    have "j = key" using claim_spl_tokens [OF law _ c] no by metis
    moreover obtain u amt v' and t :: token_account where
      "vault_at (accounts s) j = Some u" "mint u = Some m" "k \<in> set signers"
      "book_claim u k (unix_timestamp s) (tok_amount t) = Inr (amt, v')"
      by (rule claim_spl_vault [OF law c]) blast
    ultimately have "mint v = Some m" "heir_due signers (unix_timestamp s) v k"
      using v book_claim_due [OF inv] by auto
    then show ?thesis using ClaimSpl \<open>j = key\<close> by blast
  next
    case (CloseVault own k vt p)
    then have "close_vault rt signers own k vt p s = Inr s'" using run by simp
    from close_vault_tokens [OF law this, of tkey key mnt] show ?thesis using less by simp
  next
    case (DepositSpl own k m own_token vt prog amount)
    with run have d: "deposit_spl rt signers own k m own_token vt prog amount s = Inr s'" by simp
    have "vault_at (accounts s) key \<noteq> None" using v by simp
    from deposit_spl_tokens [OF law signers d this] no show ?thesis by blast
  qed (use run no in \<open>auto dest: withdraw_sol_tokens [where auth = key] claim_sol_tokens [where auth = key]
        check_in_tokens [where auth = key] set_beneficiaries_tokens [where auth = key]
        deposit_sol_tokens [OF runtime_lawsD(1) [OF law], where auth = key]
        initialize_vault_tokens [OF runtime_lawsD(2) [OF law], where auth = key]\<close>)
qed

end
