(* ===== verification/Succession.thy ===== *)
theory Succession
  imports Custody
begin

text \<open>
  What happens after the deadline: a tripped vault is final and frozen for its owner, heirs
  claim in any order, when exactly a claim succeeds, and which vaults can be closed.
\<close>

section \<open>A tripped vault is final\<close>

lemma life_tripped:
  assumes "life_step signers now (Some v) x" "vault_inv v" "is_claimed v"
  shows "x = None \<and> owner v \<in> set signers \<or> x = Some v \<or>
    (\<exists>i<length (heirs v). heir_due signers now v (address (heirs v ! i)) \<and>
       \<not> claimed (heirs v ! i) \<and> x = Some (mark_claimed i v))"
  using assms(1)
proof cases
  case (claim k avail amt v')
  then show ?thesis
    using assms(2,3) book_claim_due [OF assms(2) claim(3) claim(2)]
    by (auto simp: book_claim_Inr tripped_def)
qed (use assms(3) in auto)

lemma mark_claimed_keeps:
  assumes "i < length (heirs v)"
  shows "length (heirs (mark_claimed i v)) = length (heirs v)"
    and "claimed (heirs v ! j) \<Longrightarrow> j < length (heirs v) \<Longrightarrow> claimed (heirs (mark_claimed i v) ! j)"
  using assms by (auto simp: heirs_mark_claimed nth_list_update)

section \<open>The owner is locked out\<close>

text \<open>The instructions only the owner may give, on the vault at \<open>key\<close>; closing is not one.\<close>

fun owner_move :: "pubkey \<Rightarrow> instruction \<Rightarrow> bool" where
  "owner_move key (DepositSol own k amount) \<longleftrightarrow> k = key"
| "owner_move key (DepositSpl own k mnt own_token vault_token prog amount) \<longleftrightarrow> k = key"
| "owner_move key (CheckIn own k) \<longleftrightarrow> k = key"
| "owner_move key (SetBeneficiaries own k inputs) \<longleftrightarrow> k = key"
| "owner_move key (WithdrawSol own k amount) \<longleftrightarrow> k = key"
| "owner_move key (WithdrawSpl own k mnt vault_token own_token prog amount) \<longleftrightarrow> k = key"
| "owner_move key _ \<longleftrightarrow> False"

lemma owner_move_frozen:
  assumes "vault_at (accounts s) key = Some v" "is_claimed v" "owner_move key ix"
  shows "\<exists>e. dispatch rt signers ix s = Inl e"
proof -
  have "dispatch rt signers ix s \<noteq> Inr s'" for s'
    using assms
    by (cases ix) (auto simp: check_in_Inr accounts_check_in_Inr set_beneficiaries_Inr
        accounts_set_beneficiaries_Inr deposit_sol_Inr accounts_deposit_sol_Inr withdraw_sol_Inr
        accounts_withdraw_sol_Inr deposit_spl_Inr accounts_deposit_spl_Inr withdraw_spl_Inr
        accounts_withdraw_spl_Inr load_vault_Inr vault_at_Some)
  then show ?thesis by (cases "dispatch rt signers ix s") auto
qed

lemma frozen_errors:
  assumes "load_vault rt (accounts s) key = Inr v" "is_claimed v" "owner v \<in> set signers"
  shows "check_in rt signers (owner v) key s = Inl (Dms VaultTriggered)"
    and "set_beneficiaries rt signers (owner v) key inputs s = Inl (Dms VaultTriggered)"
    and "is_sol v \<Longrightarrow> deposit_sol rt signers (owner v) key amount s = Inl (Dms VaultTriggered)"
    and "is_sol v \<Longrightarrow> withdraw_sol rt signers (owner v) key amount s = Inl (Dms VaultTriggered)"
    and "\<not> is_sol v \<Longrightarrow> load_mint rt (accounts s) m = Inr d \<Longrightarrow> load_token rt (accounts s) vt = Inr t \<Longrightarrow>
      load_token_program rt prog = Inr () \<Longrightarrow>
      init_if_needed_associated rt (accounts s) ot (owner v) (owner v) m prog = Inr A \<Longrightarrow>
      withdraw_spl rt signers (owner v) key m vt ot prog amount s = Inl (Dms VaultTriggered)"
proof -
  have r: "read_vault (accounts s) key = Inr v" "check_seeds rt key v = Inr ()"
    using assms(1) by (simp_all add: load_vault_read [symmetric])
  then show "\<not> is_sol v \<Longrightarrow> load_mint rt (accounts s) m = Inr d \<Longrightarrow> load_token rt (accounts s) vt = Inr t \<Longrightarrow>
      load_token_program rt prog = Inr () \<Longrightarrow>
      init_if_needed_associated rt (accounts s) ot (owner v) (owner v) m prog = Inr A \<Longrightarrow>
      withdraw_spl rt signers (owner v) key m vt ot prog amount s = Inl (Dms VaultTriggered)"
    using assms(2,3) by (simp add: withdraw_spl_def accounts_withdraw_spl_def load_signer_def load_token_program_def)
qed (use assms in \<open>simp_all add: check_in_def accounts_check_in_def set_beneficiaries_def
      accounts_set_beneficiaries_def deposit_sol_def accounts_deposit_sol_def withdraw_sol_def
      accounts_withdraw_sol_def load_signer_def\<close>)

section \<open>Claims in sequence\<close>

lemma run_claims_sol:
  "run rt (map (\<lambda>k. (signers k, ClaimSol k key)) ks) s = sol.claims rt signers key ks s"
  by (induction ks arbitrary: s) (auto intro: and_then_cong)

lemma run_claims_spl:
  "run rt (map (\<lambda>k. (signers k, ClaimSpl k key mnt vt (k_token k) prog)) ks) s
     = spl.claims rt signers key mnt vt k_token prog ks s"
  by (induction ks arbitrary: s) (auto intro: and_then_cong)

section \<open>When a SOL claim succeeds\<close>

text \<open>In a sound vault, the amount a due heir is paid is always there.\<close>

lemma payout_available:
  assumes inv: "vault_inv v" and solv: "solvent v (unat avail)" and b: "b \<in> set (unpaid v)"
  shows "payout v avail b \<le> unat avail"
  using solvent_pool [OF inv solv] owed_remove [OF b, of "pool_of v avail"]
  by (simp add: payout_def)

lemma book_claim_succeeds:
  assumes inv: "vault_inv v" and solv: "solvent v (unat avail)"
    and late: "sint (last_checkin v) + sint (timeout_seconds v) \<le> sint now"
    and b: "b \<in> set (unpaid v)" "0 < payout v avail b"
  shows "\<exists>amt v'. book_claim v (address b) now avail = Inr (amt, v') \<and> unat amt = payout v avail b"
proof -
  obtain i where i: "i < length (heirs v)" "heirs v ! i = b" "\<not> claimed b"
    using b(1) by (auto simp: unpaid_nth)
  have le: "payout v avail b \<le> unat avail" by (rule payout_available [OF inv solv b(1)])
  then have n: "unat (of_nat (payout v avail b) :: u64) = payout v avail b"
    using unat_less [of avail] by (simp add: unat_of_nat)
  have "book_claim v (address b) now avail
      = Inr (of_nat (payout v avail b), mark_claimed i (tripped v avail))"
    using i late le b(2) n
    by (auto simp: book_claim_Inr [OF inv] word_less_nat_alt word_le_nat_alt simp del: unat_of_nat)
  then show ?thesis using n by blast
qed

lemma claim_sol_succeeds:
  assumes ok: "ledger_ok rt (accounts s)" and v: "vault_at (accounts s) key = Some v" "is_sol v"
    and k: "k \<in> set signers" "k = address b" "k \<noteq> key" and b: "b \<in> set (unpaid v)"
    and late: "sint (last_checkin v) + sint (timeout_seconds v) \<le> sint (unix_timestamp s)"
    and pay: "0 < payout v (withdrawable_lamports rt (accounts s key)) b"
    and room: "unat (lamports (accounts s k)) + unat (lamports (accounts s key)) < 2 ^ 64"
  shows "\<exists>s'. claim_sol rt signers k key s = Inr s' \<and>
    lamports_of k s' = lamports_of k s + payout v (withdrawable_lamports rt (accounts s key)) b"
proof -
  let ?avail = "withdrawable_lamports rt (accounts s key)"
  have d: "data (accounts s key) = VaultData v" using v(1) by (simp add: vault_at_Some)
  note vok = ledger_okD [OF ok d, unfolded vault_ok_def]
  then have inv: "vault_inv v" and solv: "solvent v (unat ?avail)" using v(2) by simp_all
  from book_claim_succeeds [OF inv solv late b pay] obtain amt v' where
    book: "book_claim v k (unix_timestamp s) ?avail = Inr (amt, v')"
    and amt: "unat amt = payout v ?avail b" using k(2) by auto
  have le: "unat amt \<le> unat (lamports (accounts s key))"
    using payout_available [OF inv solv b] by (simp add: amt unat_withdrawable)
  then obtain A where mv: "move_lamports key k amt (accounts s) = Inr A"
    using room k(3) by (auto simp: move_lamports_Inr)
  have acc: "accounts_claim_sol rt signers k key (accounts s) = Inr v"
    using vok d v(2) k(1) by (simp add: accounts_claim_sol_Inr load_vault_Inr)
  have "lamports (A k) = lamports (accounts s k) + amt" using mv k(3) by (auto simp: move_lamports_Inr)
  moreover have "unat (lamports (accounts s k) + amt) = unat (lamports (accounts s k)) + unat amt"
    using room le by (simp add: unat_word_ariths)
  ultimately show ?thesis
    using acc book mv amt by (auto simp: claim_sol_Inr lamports_of_def)
qed

text \<open>The same for an SPL claim, once the heir's token account is there.\<close>

lemma claim_spl_succeeds:
  assumes law: "runtime_laws rt" "exact_transfer_law rt" "transfer_progress_law rt"
    and ok: "ledger_ok rt (accounts s)" "spl_ok rt (accounts s)" "one_program_per_mint (accounts s)"
    and v: "vault_at (accounts s) key = Some v" "mint v = Some m"
    and k: "k \<in> set signers" "k = address b" "k \<noteq> key" and b: "b \<in> set (unpaid v)"
    and late: "sint (last_checkin v) + sint (timeout_seconds v) \<le> sint (unix_timestamp s)"
    and src: "load_associated rt (accounts s) vt key m p = Inr t" "tok_mint t = m"
    and mnt: "data (accounts s m) = MintData d" "owner_program (accounts s m) = p"
    and dst: "init_if_needed_associated rt (accounts s) kt k k m p = Inr A" "data (A kt) = TokenData u"
    and pay: "0 < payout v (tok_amount t) b"
    and room: "unat (tok_amount u) + unat (tok_amount t) < 2 ^ 64"
  shows "\<exists>s'. claim_spl rt signers k key m vt kt p s = Inr s' \<and>
    tokens_of (accounts s') kt k m = unat (tok_amount u) + payout v (tok_amount t) b"
proof -
  have d: "data (accounts s key) = VaultData v" using v(1) by (simp add: vault_at_Some)
  note vok = ledger_okD [OF ok(1) d, unfolded vault_ok_def]
  note vt = src(1) [unfolded load_associated_Inr]
  have inv: "vault_inv v" using vok by simp
  have solv: "solvent v (unat (tok_amount t))"
    using vt by (intro covered_solvent [OF ok(2) v ok(3) _ src(2)]) auto
  from book_claim_succeeds [OF inv solv late b pay] obtain amt v' where
    book: "book_claim v k (unix_timestamp s) (tok_amount t) = Inr (amt, v')"
    and amt: "unat amt = payout v (tok_amount t) b" using k(2) by auto
  have le: "unat amt \<le> unat (tok_amount t)" using payout_available [OF inv solv b] by (simp add: amt)
  have acc: "accounts_claim_spl rt signers k key m vt kt p (accounts s) = Inr (v, d, t, A)"
    using vok d v(2) k(1) mnt vt dst(1) src(1)
    by (simp add: accounts_claim_spl_Inr load_vault_Inr load_mint_Inr)
  note same = claim_spl_transfer [OF law(1) k(3) acc]
  have kt: "tok_mint u = m" "tok_owner u = k" "owner_program (A kt) = p" "p \<in> set (token_programs rt)"
    using dst by (auto simp: init_if_needed_associated_Inr)
  have "A m = accounts s m"
    using init_if_needed_other [OF runtime_lawsD(3) [OF law(1)] dst(1), of m] mnt(1) by simp
  then obtain A' where tr: "transfer_checked rt p vt m kt key amt d A = Inr A'"
    using law(3) [unfolded transfer_progress_law_def, rule_format, of p vt kt A t m key u d amt]
      vt kt dst(2) same(1,2) src(2) mnt le room by (auto simp: word_le_nat_alt)
  obtain u' where u': "data (A' kt) = TokenData u'" "unat (tok_amount u') = unat (tok_amount u) + unat amt"
    using law(2) [unfolded exact_transfer_law_def] tr same(1) dst(2) by blast
  have "tok_mint u' = m \<and> tok_owner u' = k"
    by (rule transfer_checkedE [OF runtime_lawsD(4) [OF law(1)] tr])
       (use u'(1) dst(2) kt(1,2) same(1) in \<open>auto split: if_splits\<close>)
  moreover have "kt \<noteq> key"
    using init_if_needed_other [OF runtime_lawsD(3) [OF law(1)] dst(1), of key] d dst(2) by auto
  ultimately have "tokens_of (store_vault key v' A') kt k m = unat (tok_amount u) + unat amt"
    using u' by (simp add: tokens_of_def token_at_def store_vault_def)
  then show ?thesis using acc book tr amt by (auto simp: claim_spl_Inr)
qed

section \<open>When no claim can succeed\<close>

text \<open>
  Two or more unpaid heirs, each with an entitlement that rounds down to zero: nobody is
  last, so nobody sweeps, and every claim is for zero.
\<close>

definition deadlocked :: "vault \<Rightarrow> u64 \<Rightarrow> bool" where
  "deadlocked v avail \<longleftrightarrow> 2 \<le> length (unpaid v) \<and>
     list_all (\<lambda>b. entitlement (pool_of v avail) b = 0) (unpaid v)"

lemma deadlocked_payout: "deadlocked v avail \<Longrightarrow> b \<in> set (unpaid v) \<Longrightarrow> payout v avail b = 0"
  by (auto simp: deadlocked_def payout_def list_all_iff)

lemma deadlocked_no_claim:
  assumes "vault_inv v" "deadlocked v avail"
  shows "book_claim v k now avail \<noteq> Inr r"
proof (cases r)
  case (Pair amt v')
  have "unat amt = 0" if "book_claim v k now avail = Inr (amt, v')"
  proof -
    from that obtain i where "i < length (heirs v)" "\<not> claimed (heirs v ! i)"
      and amt: "unat amt = payout v avail (heirs v ! i)" by (auto simp: book_claim_Inr [OF assms(1)])
    then have "heirs v ! i \<in> set (unpaid v)" by (auto simp: unpaid_nth)
    then show ?thesis using deadlocked_payout [OF assms(2)] amt by simp
  qed
  then show ?thesis using Pair book_claim_amount [of v k now avail amt v'] by (auto simp: unat_eq_0)
qed

lemma deadlocked_error:
  assumes inv: "vault_inv v" and dead: "deadlocked v avail" and due: "heir_due signers now v k"
  shows "book_claim v k now avail = Inl (Dms InsufficientFunds)"
proof -
  from due obtain i where i: "i < length (heirs v)" "address (heirs v ! i) = k" "\<not> claimed (heirs v ! i)"
    by (auto simp: heir_due_def in_set_conv_nth)
  let ?t = "\<lparr>ticket_share_bps = share_bps (heirs v ! i), is_last = (unpaid v = [heirs v ! i])\<rparr>"
  have "authorize_claim v k now avail = Inr (?t, mark_claimed i (tripped v avail))"
    using due i by (auto simp: authorize_claim_Inr [OF inv] heir_due_def)
  moreover have "payout v avail (heirs v ! i) = 0"
    using i by (intro deadlocked_payout [OF dead]) (auto simp: unpaid_nth)
  ultimately show ?thesis
    using claim_amount_payout [OF inv nth_mem [OF i(1)] refl, of i avail] by (simp add: book_claim_def)
qed

text \<open>A tripped SOL vault in that state never changes again, and nothing leaves it.\<close>

definition stuck :: "runtime \<Rightarrow> pubkey \<Rightarrow> vault \<Rightarrow> chain \<Rightarrow> bool" where
  "stuck rt key v s \<longleftrightarrow> vault_at (accounts s) key = Some v \<and> is_sol v \<and> is_claimed v \<and>
     deadlocked v 0 \<and> 0 < withdrawable_lamports rt (accounts s key)"

lemma pool_of_claimed: "is_claimed v \<Longrightarrow> pool_of v avail = unat (claim_pool v)"
  by (simp add: pool_of_def)

lemma stuck_deadlocked: "stuck rt key v s \<Longrightarrow> deadlocked v avail"
  by (auto simp: stuck_def deadlocked_def pool_of_claimed)

lemma close_sol_empty:
  assumes "close_vault rt signers own key vt prog s = Inr s'"
    and "vault_at (accounts s) key = Some v" "is_sol v"
  shows "withdrawable_lamports rt (accounts s key) = 0"
  using assms
  by (auto simp: close_vault_Inr accounts_close_vault_Inr load_vault_Inr vault_at_Some is_sol_def
      handle_close_vault_sol)

lemma closed_by_close:
  assumes law: "runtime_laws rt" and run: "dispatch rt signers ix s = Inr s'"
    and "vault_at (accounts s) key = Some v" "vault_at (accounts s') key = None"
  shows "\<exists>own vt prog. ix = CloseVault own key vt prog"
proof (cases ix)
  case (CloseVault own k vt prog)
  then have "k = key"
    using close_vault_kept(1) [OF law, of signers own k vt prog s s' key] run assms(3,4)
    by (auto simp: kept_at_def)
  then show ?thesis using CloseVault by blast
next
  case (InitializeVault own k mnt ident tmo inputs)
  then show ?thesis
    using run initialize_vault_kept [OF runtime_lawsD(2) [OF law] assms(3)] assms(3,4)
    by (auto simp: vault_at_def)
next
  case (DepositSol own k amount)
  with run have "kept_at (accounts s) (accounts s') key"
    by (auto simp: deposit_sol_Inr intro!: vaults_keptD system_transfer_kept [OF runtime_lawsD(1) [OF law]])
  then show ?thesis using assms(3,4) by (simp add: kept_at_def)
next
  case (DepositSpl own k mnt ot vt prog amount)
  with run have "kept_at (accounts s) (accounts s') key"
    by (auto intro!: vaults_keptD deposit_spl_kept [OF law])
  then show ?thesis using assms(3,4) by (simp add: kept_at_def)
next
  case (WithdrawSpl own k mnt vt ot prog amount)
  with run have "kept_at (accounts s) (accounts s') key"
    by (auto intro!: vaults_keptD withdraw_spl_kept [OF law])
  then show ?thesis using assms(3,4) by (simp add: kept_at_def)
next
  case (ClaimSpl claimant k mnt vt ct prog)
  then obtain u A where "vaults_kept (accounts s) A" "s' = s\<lparr>accounts := store_vault k u A\<rparr>"
    using run by (auto elim: claim_spl_vault [OF law])
  then show ?thesis
    using assms(3,4) vaults_keptD [of "accounts s" A key]
    by (auto simp: vault_at_store kept_at_def split: if_splits)
qed (use run assms(3,4) in \<open>auto simp: check_in_Inr set_beneficiaries_Inr withdraw_sol_Inr claim_sol_Inr
      vault_at_store move_lamports_vaults split: if_splits\<close>)

lemma stuck_dispatch:
  assumes law: "runtime_laws rt" and ok: "ledger_ok rt (accounts s)" "ledger_ok rt (accounts s')"
    and run: "dispatch rt signers ix s = Inr s'" and stuck: "stuck rt key v s"
  shows "stuck rt key v s'" and "lamports (accounts s key) \<le> lamports (accounts s' key)"
proof -
  have v: "vault_at (accounts s) key = Some v" "is_sol v" "is_claimed v"
    using stuck by (simp_all add: stuck_def)
  then have inv: "vault_inv v" using ledger_okD [OF ok(1)] by (auto simp: vault_at_Some vault_ok_def)
  have no: "book_claim v k now avail \<noteq> Inr r" for k now avail r
    by (rule deadlocked_no_claim [OF inv stuck_deadlocked [OF stuck]])
  have open_: "withdrawable_lamports rt (accounts s key) \<noteq> 0"
    using stuck by (auto simp: stuck_def)
  have still: "vault_at (accounts s') key \<noteq> None"
    using closed_by_close [OF law run v(1)] run close_sol_empty [OF _ v(1,2)] open_ by fastforce
  have "life_step signers (unix_timestamp s) (Some v) (vault_at (accounts s') key)"
    using dispatch_life [OF law run, of key] v(1) by simp
  then have v': "vault_at (accounts s') key = Some v"
    by (cases rule: life_step.cases) (use still v(3) no in auto)
  show le: "lamports (accounts s key) \<le> lamports (accounts s' key)"
  proof (rule ccontr)
    assume "\<not> ?thesis"
    then have "lamports (accounts s' key) < lamports (accounts s key)" by simp
    from lamports_leave [OF law run v(1) inv this] open_ v(2,3)
    obtain k where "ix = ClaimSol k key" by auto
    then show False
      using run no v(1) by (auto simp: claim_sol_Inr accounts_claim_sol_Inr load_vault_Inr vault_at_Some)
  qed
  have "data_len (accounts s' key) = data_len (accounts s key)"
    using ledger_okD [OF ok(1)] ledger_okD [OF ok(2)] v(1) v' by (auto simp: vault_at_Some vault_ok_def)
  then show "stuck rt key v s'"
    using stuck le v' withdrawable_mono [of "accounts s key" "accounts s' key" rt]
    by (auto simp: stuck_def word_less_nat_alt word_le_nat_alt)
qed

lemma stuck_step:
  assumes law: "runtime_laws rt" "find_program_address_law rt"
    and ok: "ledger_ok rt (accounts s)" and step: "chain_step rt s s'" and stuck: "stuck rt key v s"
  shows "stuck rt key v s'"
  using step
proof cases
  case (instruction signers ix)
  then show ?thesis using stuck_dispatch(1) [OF law(1) ok chain_step_ok [OF law ok step] _ stuck] by blast
next
  case (time_passes now)
  then show ?thesis using stuck by (simp add: stuck_def)
next
  case (outside A)
  then have "kept_at (accounts s) (accounts s') key" by (auto intro: vaults_keptD)
  then show ?thesis
    using stuck withdrawable_mono [of "accounts s key" "accounts s' key" rt]
    by (auto simp: stuck_def kept_at_def word_less_nat_alt)
qed

lemma stuck_forever:
  assumes law: "runtime_laws rt" "find_program_address_law rt"
    and ok: "ledger_ok rt (accounts s)" and steps: "(chain_step rt)\<^sup>*\<^sup>* s s'" and stuck: "stuck rt key v s"
  shows "stuck rt key v s' \<and> ledger_ok rt (accounts s')"
  using steps by induction (use ok stuck stuck_step [OF law] chain_step_ok [OF law] in auto)

section \<open>Strangers and closing\<close>

lemma stranger_vault:
  assumes law: "runtime_laws rt" and run: "dispatch rt signers ix s = Inr s'"
    and v: "vault_at (accounts s) key = Some v" and inv: "vault_inv v"
    and owner: "owner v \<notin> set signers"
    and heirs: "\<And>k. \<not> heir_due signers (unix_timestamp s) v k"
  shows "vault_at (accounts s') key = Some v"
proof -
  have "life_step signers (unix_timestamp s) (Some v) (vault_at (accounts s') key)"
    using dispatch_life [OF law run, of key] v by simp
  then show ?thesis
  proof (cases rule: life_step.cases)
    case (claim k avail amt v')
    then show ?thesis using heirs book_claim_due [OF inv claim(3,2)] by blast
  qed (use owner in auto)
qed

lemma close_sol_Inr:
  assumes v: "load_vault rt (accounts s) key = Inr v" "is_sol v"
  shows "close_vault rt signers own key None None s = Inr s' \<longleftrightarrow>
    own \<in> set signers \<and> owner v = own \<and> withdrawable_lamports rt (accounts s key) = 0 \<and>
    close_to rt key own (accounts s) = Inr (accounts s') \<and> unix_timestamp s' = unix_timestamp s"
  using v
  by (cases s; cases s') (auto simp: close_vault_Inr accounts_close_vault_Inr handle_close_vault_sol is_sol_def)

lemma close_spl_Inr:
  assumes v: "load_vault rt (accounts s) key = Inr v" "mint v = Some m"
  shows "close_vault rt signers own key (Some tkey) (Some p) s = Inr s' \<longleftrightarrow>
    own \<in> set signers \<and> owner v = own \<and> p \<in> set (token_programs rt) \<and>
    (\<exists>t A. load_token rt (accounts s) tkey = Inr t \<and> tok_mint t = m \<and> tok_owner t = key \<and>
       tok_amount t = 0 \<and> close_token_account rt p tkey own key (accounts s) = Inr A \<and>
       close_to rt key own A = Inr (accounts s')) \<and> unix_timestamp s' = unix_timestamp s"
  using v
  by (cases s; cases s') (auto simp: close_vault_Inr accounts_close_vault_Inr handle_close_vault_spl)

end
