(* ===== verification/Sample_World.thy ===== *)
theory Sample_World
  imports Lifecycle
begin

text \<open>
  A concrete world for the witnesses: a runtime that obeys every law (proved here), with
  five wallets, a mint and their token accounts. The scenarios run the program's own entry
  points on it.
\<close>

section \<open>A lawful runtime\<close>

definition sample_addr :: "u8 list list \<Rightarrow> pubkey" where
  "sample_addr seeds = 1000 + sum_list (map ucast (concat seeds))"

definition no_data :: "account \<Rightarrow> bool" where
  "no_data a = (case data a of NoData \<Rightarrow> True | _ \<Rightarrow> False)"

definition sample_transfer :: "pubkey \<Rightarrow> pubkey \<Rightarrow> u64 \<Rightarrow> ledger \<Rightarrow> nat + ledger" where
  "sample_transfer src dst amount A =
     (if no_data (A src) \<and> amount \<le> lamports (A src) \<and>
         (src = dst \<or> unat (lamports (A dst)) + unat amount < 2 ^ 64)
      then Inr (if src = dst then A
                else A(src := (A src)\<lparr>lamports := lamports (A src) - amount\<rparr>,
                       dst := (A dst)\<lparr>lamports := lamports (A dst) + amount\<rparr>))
      else Inl 1)"

definition sample_rent :: "nat \<Rightarrow> u64" where
  "sample_rent n = of_nat ((128 + n) * 6960)"

definition sample_init :: "pubkey \<Rightarrow> pubkey \<Rightarrow> nat \<Rightarrow> ledger \<Rightarrow> nat + ledger" where
  "sample_init payer key space A =
     (let need = saturating_sub (sample_rent space) (lamports (A key))
      in if no_data (A key) \<and> no_data (A payer) \<and> payer \<noteq> key \<and> need \<le> lamports (A payer)
         then Inr (A(payer := (A payer)\<lparr>lamports := lamports (A payer) - need\<rparr>,
                     key := \<lparr>lamports = (if lamports (A key) \<le> sample_rent space
                                         then sample_rent space else lamports (A key)),
                             owner_program = 9, data_len = space, data = OtherData\<rparr>))
         else Inl 2)"

definition sample_associated :: "pubkey \<Rightarrow> pubkey \<Rightarrow> pubkey \<Rightarrow> pubkey" where
  "sample_associated wallet mnt prog = 100000 * wallet + 100 * mnt + prog"

definition sample_create ::
  "pubkey \<Rightarrow> pubkey \<Rightarrow> pubkey \<Rightarrow> pubkey \<Rightarrow> pubkey \<Rightarrow> ledger \<Rightarrow> nat + ledger" where
  "sample_create payer key wallet mnt prog A =
     (if no_data (A key) \<and> no_data (A payer) \<and> payer \<noteq> key \<and> 2039280 \<le> lamports (A payer) \<and>
         unat (lamports (A key)) + 2039280 < 2 ^ 64
      then Inr (A(payer := (A payer)\<lparr>lamports := lamports (A payer) - 2039280\<rparr>,
                  key := \<lparr>lamports = lamports (A key) + 2039280, owner_program = prog, data_len = 165,
                          data = TokenData \<lparr>tok_mint = mnt, tok_owner = wallet, tok_amount = 0\<rparr>\<rparr>))
      else Inl 3)"

definition sample_token_transfer ::
  "pubkey \<Rightarrow> pubkey \<Rightarrow> pubkey \<Rightarrow> pubkey \<Rightarrow> pubkey \<Rightarrow> u64 \<Rightarrow> u8 \<Rightarrow> ledger \<Rightarrow> nat + ledger" where
  "sample_token_transfer prog src mnt dst auth amount dec A =
     (case (data (A src), data (A dst)) of
        (TokenData t, TokenData u) \<Rightarrow>
          if tok_mint t = mnt \<and> tok_mint u = mnt \<and> tok_owner t = auth \<and> amount \<le> tok_amount t \<and>
             unat (tok_amount u) + unat amount < 2 ^ 64
          then Inr (if src = dst then A
                    else A(src := (A src)\<lparr>data := TokenData (t\<lparr>tok_amount := tok_amount t - amount\<rparr>)\<rparr>,
                           dst := (A dst)\<lparr>data := TokenData (u\<lparr>tok_amount := tok_amount u + amount\<rparr>)\<rparr>))
          else Inl 4
      | _ \<Rightarrow> Inl 4)"

definition sample_close :: "pubkey \<Rightarrow> pubkey \<Rightarrow> pubkey \<Rightarrow> pubkey \<Rightarrow> ledger \<Rightarrow> nat + ledger" where
  "sample_close prog key dst auth A =
     (case data (A key) of
        TokenData t \<Rightarrow>
          if tok_owner t = auth \<and> tok_amount t = 0 \<and> key \<noteq> dst \<and>
             unat (lamports (A dst)) + unat (lamports (A key)) < 2 ^ 64
          then Inr (A(dst := (A dst)\<lparr>lamports := lamports (A dst) + lamports (A key)\<rparr>,
                      key := \<lparr>lamports = 0, owner_program = 0, data_len = 0, data = NoData\<rparr>))
          else Inl 5
      | _ \<Rightarrow> Inl 5)"

definition sample_rt :: runtime where
  "sample_rt = \<lparr>program_id = 9, system_program = 0, token_programs = [6],
     find_program_address = (\<lambda>seeds. (sample_addr seeds, 255)),
     create_program_address = (\<lambda>seeds. Some (sample_addr (butlast seeds))),
     minimum_balance = sample_rent, system_transfer = sample_transfer,
     init_account = sample_init, associated_address = sample_associated,
     create_associated = sample_create, transfer_checked = sample_token_transfer,
     close_token_account = sample_close\<rparr>"

lemma sample_rt_fields [simp]:
  "program_id sample_rt = 9" "system_program sample_rt = 0" "token_programs sample_rt = [6]"
  "find_program_address sample_rt seeds = (sample_addr seeds, 255)"
  "create_program_address sample_rt seeds = Some (sample_addr (butlast seeds))"
  "minimum_balance sample_rt = sample_rent" "system_transfer sample_rt = sample_transfer"
  "init_account sample_rt = sample_init" "associated_address sample_rt = sample_associated"
  "create_associated sample_rt = sample_create" "transfer_checked sample_rt = sample_token_transfer"
  "close_token_account sample_rt = sample_close"
  by (simp_all add: sample_rt_def)

lemma no_data_iff [simp]: "no_data a \<longleftrightarrow> data a = NoData"
  by (simp add: no_data_def split: account_data.split)

lemma sample_token_transferD:
  assumes "sample_token_transfer prog src mnt dst auth amount dec A = Inr A'"
  shows "\<exists>t u n. data (A src) = TokenData t \<and> tok_mint t = mnt \<and>
          data (A dst) = TokenData u \<and> tok_mint u = mnt \<and>
          unat amount \<le> unat (tok_amount t) \<and> unat (tok_amount u) \<le> unat n \<and>
          unat n \<le> unat (tok_amount u) + unat amount \<and>
          A' = (if src = dst then A
                else A(src := (A src)\<lparr>data := TokenData (t\<lparr>tok_amount := tok_amount t - amount\<rparr>)\<rparr>,
                       dst := (A dst)\<lparr>data := TokenData (u\<lparr>tok_amount := n\<rparr>)\<rparr>))"
proof -
  from assms obtain t u where tu: "data (A src) = TokenData t" "data (A dst) = TokenData u"
    and c: "tok_mint t = mnt" "tok_mint u = mnt" "amount \<le> tok_amount t"
      "unat (tok_amount u) + unat amount < 2 ^ 64"
    and A': "A' = (if src = dst then A
       else A(src := (A src)\<lparr>data := TokenData (t\<lparr>tok_amount := tok_amount t - amount\<rparr>)\<rparr>,
              dst := (A dst)\<lparr>data := TokenData (u\<lparr>tok_amount := tok_amount u + amount\<rparr>)\<rparr>))"
    by (auto simp: sample_token_transfer_def split: if_splits account_data.splits)
  have "unat (tok_amount u + amount) = unat (tok_amount u) + unat amount"
    using c(4) by (simp add: unat_word_ariths)
  then show ?thesis
    using tu c A'
    by (intro exI [of _ t] exI [of _ u] exI [of _ "tok_amount u + amount"])
       (simp add: word_le_nat_alt)
qed

lemma sample_laws: "runtime_laws sample_rt"
proof -
  have "system_transfer_law sample_rt"
    unfolding system_transfer_law_def
    by (auto simp: sample_transfer_def word_le_nat_alt split: if_splits)
  moreover have "init_account_law sample_rt"
    unfolding init_account_law_def
    by (auto simp: sample_init_def Let_def word_le_nat_alt unat_minus_le split: if_splits)
  moreover have "create_associated_law sample_rt"
    unfolding create_associated_law_def
    by (auto simp: sample_create_def split: if_splits)
  moreover have "transfer_checked_law sample_rt"
    unfolding transfer_checked_law_def sample_rt_fields
    by (intro allI impI) (rule sample_token_transferD)
  moreover have "close_token_account_law sample_rt"
    unfolding close_token_account_law_def
    by (auto simp: sample_close_def split: if_splits account_data.splits)
  ultimately show ?thesis by (simp add: runtime_laws_def)
qed

lemma sample_find_law: "find_program_address_law sample_rt"
  by (simp add: find_program_address_law_def)

lemma sample_exact: "exact_transfer_law sample_rt"
  unfolding exact_transfer_law_def
proof (intro allI impI)
  fix prog src mnt dst auth amount dec A A' u
  assume a: "transfer_checked sample_rt prog src mnt dst auth amount dec A = Inr A' \<and> src \<noteq> dst \<and>
     data (A dst) = TokenData u"
  then have fits: "unat (tok_amount u) + unat amount < 2 ^ 64"
    and A': "data (A' dst) = TokenData (u\<lparr>tok_amount := tok_amount u + amount\<rparr>)"
    by (auto simp: sample_token_transfer_def split: if_splits account_data.splits)
  have "unat (tok_amount u + amount) = unat (tok_amount u) + unat amount"
    using fits by (simp add: unat_word_ariths)
  with A' show "\<exists>u'. data (A' dst) = TokenData u' \<and> unat (tok_amount u') = unat (tok_amount u) + unat amount"
    by auto
qed

lemma sample_progress: "transfer_progress_law sample_rt"
  unfolding transfer_progress_law_def by (auto simp: sample_token_transfer_def)

section \<open>The accounts of the world\<close>

definition wallet_account :: account where
  "wallet_account = \<lparr>lamports = 1000000000, owner_program = 0, data_len = 0, data = NoData\<rparr>"

definition unused_account :: account where
  "unused_account = \<lparr>lamports = 0, owner_program = 0, data_len = 0, data = NoData\<rparr>"

definition token_acct :: "pubkey \<Rightarrow> pubkey \<Rightarrow> u64 \<Rightarrow> account" where
  "token_acct mnt wallet n = \<lparr>lamports = 2039280, owner_program = 6, data_len = 165,
     data = TokenData \<lparr>tok_mint = mnt, tok_owner = wallet, tok_amount = n\<rparr>\<rparr>"

text \<open>Owner 1, heirs 2, 3 and 4, a stranger 5; mint 50; the owner holds 1000 tokens.\<close>

definition genesis :: chain where
  "genesis = \<lparr>accounts = (\<lambda>_. unused_account)
      (1 := wallet_account, 2 := wallet_account, 3 := wallet_account, 4 := wallet_account,
       5 := wallet_account,
       50 := \<lparr>lamports = 1461600, owner_program = 6, data_len = 82, data = MintData 6\<rparr>,
       105006 := token_acct 50 1 1000),
     unix_timestamp = 1800000000\<rparr>"

end
