(* ===== verification/Scenarios.thy ===== *)
theory Scenarios
  imports Sample_World
begin

text \<open>
  Runs of the program on the sample world, one chain per instruction, each shown to be
  reachable. They are where the witnesses of the properties live: a SOL vault (key 1564)
  and an SPL vault (key 1565) of owner 1, both with the heirs 2 (60%) and 3 (40%), and a
  SOL vault (key 1566) whose small pool leaves dust that nobody can claim.
\<close>

section \<open>Stepping through a run\<close>

text \<open>In this world every token account belongs to the one token program.\<close>

definition uniform :: "ledger \<Rightarrow> bool" where
  "uniform A \<longleftrightarrow> (\<forall>k t. data (A k) = TokenData t \<longrightarrow> owner_program (A k) = 6)"

lemma uniform_one_program: "uniform A \<Longrightarrow> one_program_per_mint A"
  by (auto simp: uniform_def one_program_per_mint_def)

lemma uniform_upd:
  "uniform A \<Longrightarrow> (\<And>t. data a = TokenData t \<Longrightarrow> owner_program a = 6) \<Longrightarrow> uniform (A(k := a))"
  by (auto simp: uniform_def)

lemma play:
  assumes "reachable sample_rt s" "uniform (accounts s)" "wallets signers (accounts s)"
    and "dispatch sample_rt signers ix s = Inr s'"
  shows "reachable sample_rt s'"
  using assms by (blast intro: reachable.step chain_step.instruction uniform_one_program)

lemma wait:
  assumes "reachable sample_rt s" "sint (unix_timestamp s) \<le> sint now" "s' = s\<lparr>unix_timestamp := now\<rparr>"
  shows "reachable sample_rt s'"
  using assms by (blast intro: reachable.step chain_step.time_passes)

section \<open>The vaults\<close>

definition heir_2 :: "bool \<Rightarrow> beneficiary" where
  "heir_2 paid = \<lparr>address = 2, share_bps = 6000, claimed = paid\<rparr>"

definition heir_3 :: "bool \<Rightarrow> beneficiary" where
  "heir_3 paid = \<lparr>address = 3, share_bps = 4000, claimed = paid\<rparr>"

definition sample_inputs :: "beneficiary_input list" where
  "sample_inputs = [\<lparr>input_address = 2, input_share_bps = 6000\<rparr>,
                    \<lparr>input_address = 3, input_share_bps = 4000\<rparr>]"

definition sample_vault :: "u64 \<Rightarrow> pubkey option \<Rightarrow> bool \<Rightarrow> bool \<Rightarrow> u64 \<Rightarrow> vault" where
  "sample_vault ident mnt paid2 paid3 p =
     \<lparr>owner = 1, vault_id = ident, mint = mnt, last_checkin = 1800000000, timeout_seconds = 60,
      beneficiaries = [heir_2 paid2, heir_3 paid3, beneficiary_default, beneficiary_default,
                       beneficiary_default],
      beneficiary_count = 2, is_claimed = paid2 \<or> paid3, claim_pool = p, bump = 255\<rparr>"

lemma sample_vault_fields [simp]:
  "owner (sample_vault ident mnt p2 p3 p) = 1" "vault_id (sample_vault ident mnt p2 p3 p) = ident"
  "mint (sample_vault ident mnt p2 p3 p) = mnt" "bump (sample_vault ident mnt p2 p3 p) = 255"
  "last_checkin (sample_vault ident mnt p2 p3 p) = 1800000000"
  "timeout_seconds (sample_vault ident mnt p2 p3 p) = 60"
  "is_claimed (sample_vault ident mnt p2 p3 p) \<longleftrightarrow> p2 \<or> p3"
  "claim_pool (sample_vault ident mnt p2 p3 p) = p"
  "heirs (sample_vault ident mnt p2 p3 p) = [heir_2 p2, heir_3 p3]"
  "is_sol (sample_vault ident mnt p2 p3 p) \<longleftrightarrow> mnt = None"
  by (simp_all add: sample_vault_def heirs_def is_sol_def)

lemma heir_fields [simp]:
  "address (heir_2 c) = 2" "share_bps (heir_2 c) = 6000" "claimed (heir_2 c) = c"
  "address (heir_3 c) = 3" "share_bps (heir_3 c) = 4000" "claimed (heir_3 c) = c"
  by (simp_all add: heir_2_def heir_3_def)

lemma sample_unpaid [simp]:
  "unpaid (sample_vault ident mnt p2 p3 p) = (if p2 then [] else [heir_2 False]) @ (if p3 then [] else [heir_3 False])"
  by (cases p2; cases p3) (simp_all add: unpaid_def)

lemma sample_table: "valid_table [heir_2 p2, heir_3 p3]"
  by (simp add: valid_table_def MAX_BENEFICIARIES_def)

lemma sample_inv:
  assumes "p2 \<or> p3 \<longleftrightarrow> p \<noteq> 0"
  shows "vault_inv (sample_vault ident mnt p2 p3 p)"
  using assms
  by (auto simp: vault_inv_def sample_table word_neq_0_conv [symmetric])
     (simp_all add: sample_vault_def MAX_BENEFICIARIES_def)

section \<open>Addresses\<close>

lemma sum_zeros: "sum_list (replicate n 0) = (0 :: pubkey)"
  by (induction n) auto

lemma owner_bytes: "le_bytes 32 (1 :: pubkey) = 1 # replicate 31 0"
  by (simp add: le_bytes_def upt_rec numeral_eq_Suc)

lemma stranger_bytes: "le_bytes 32 (5 :: pubkey) =
  [5, 0, 0, 0, 0, 0, 0, 0, 0, 0, 0, 0, 0, 0, 0, 0,
   0, 0, 0, 0, 0, 0, 0, 0, 0, 0, 0, 0, 0, 0, 0, 0]"
  by (simp add: le_bytes_def upt_rec)

lemma id_bytes:
  "le_bytes 8 (7 :: u64) = [7, 0, 0, 0, 0, 0, 0, 0]" "le_bytes 8 (8 :: u64) = [8, 0, 0, 0, 0, 0, 0, 0]"
  "le_bytes 8 (9 :: u64) = [9, 0, 0, 0, 0, 0, 0, 0]"
  by (simp_all add: le_bytes_def upt_rec)

lemma sample_keys:
  "sample_addr (vault_seeds 1 7) = 1564" "sample_addr (vault_seeds 1 8) = 1565"
  "sample_addr (vault_seeds 1 9) = 1566" "sample_addr (vault_seeds 5 7) = 1568"
  unfolding vault_seeds_def VAULT_SEED_def owner_bytes stranger_bytes id_bytes
  by (simp_all add: sample_addr_def sum_zeros)

lemma vault_space: "8 + vault_init_space = 283"
  by (simp add: vault_init_space_def beneficiary_init_space_def MAX_BENEFICIARIES_def)

lemma sample_rent_vault [simp]: "sample_rent 283 = 2860560"
  by (simp add: sample_rent_def)

lemma sample_load [simp]:
  "data (A 1564) = VaultData (sample_vault 7 mnt p2 p3 p) \<Longrightarrow>
     load_vault sample_rt A 1564 = Inr (sample_vault 7 mnt p2 p3 p)"
  "data (A 1565) = VaultData (sample_vault 8 mnt p2 p3 p) \<Longrightarrow>
     load_vault sample_rt A 1565 = Inr (sample_vault 8 mnt p2 p3 p)"
  by (simp_all add: load_vault_Inr butlast_append sample_keys)

section \<open>A SOL vault: opened, funded, silent, claimed\<close>

abbreviation wallet :: "u64 \<Rightarrow> account" where
  "wallet l \<equiv> wallet_account\<lparr>lamports := l\<rparr>"

abbreviation vault_account :: "u64 \<Rightarrow> vault \<Rightarrow> account" where
  "vault_account l v \<equiv> \<lparr>lamports = l, owner_program = 9, data_len = 283, data = VaultData v\<rparr>"

definition sol_open :: chain where
  "sol_open = genesis\<lparr>accounts := (accounts genesis)(1 := wallet 997139440,
     1564 := vault_account 2860560 (sample_vault 7 None False False 0))\<rparr>"

definition sol_funded :: chain where
  "sol_funded = sol_open\<lparr>accounts := (accounts sol_open)(1 := wallet 996139440,
     1564 := vault_account 3860560 (sample_vault 7 None False False 0))\<rparr>"

definition sol_late :: chain where
  "sol_late = sol_funded\<lparr>unix_timestamp := 1800000060\<rparr>"

definition sol_tripped :: chain where
  "sol_tripped = sol_late\<lparr>accounts := (accounts sol_late)(2 := wallet 1000600000,
     1564 := vault_account 3260560 (sample_vault 7 None True False 1000000))\<rparr>"

definition sol_spent :: chain where
  "sol_spent = sol_tripped\<lparr>accounts := (accounts sol_tripped)(3 := wallet 1000400000,
     1564 := vault_account 2860560 (sample_vault 7 None True True 1000000))\<rparr>"

lemmas sol_chain_defs = sol_spent_def sol_tripped_def sol_late_def sol_funded_def sol_open_def
  genesis_def

lemma genesis_reachable: "reachable sample_rt genesis"
  by (rule reachable.start)
     (auto simp: genesis_def vault_at_def wallet_account_def unused_account_def token_acct_def)

lemma genesis_uniform: "uniform (accounts genesis)"
  by (auto simp: genesis_def uniform_def wallet_account_def unused_account_def token_acct_def
      split: if_splits)

lemma sol_uniform:
  "uniform (accounts sol_open)" "uniform (accounts sol_funded)" "uniform (accounts sol_late)"
  "uniform (accounts sol_tripped)" "uniform (accounts sol_spent)"
  using genesis_uniform
  by (simp_all add: sol_spent_def sol_tripped_def sol_late_def sol_funded_def sol_open_def
      uniform_def wallet_account_def)

lemma open_steps:
  "init_account sample_rt 1 1564 283 (accounts genesis) = Inr ((accounts genesis)(1 := wallet 997139440,
     1564 := \<lparr>lamports = 2860560, owner_program = 9, data_len = 283, data = OtherData\<rparr>))"
  by (simp add: sample_init_def genesis_def wallet_account_def unused_account_def saturating_sub_def)

lemma sample_init_vault:
  "handle_initialize_vault 1 mnt 255 ident 60 sample_inputs 1800000000
     = Inr (sample_vault ident mnt False False 0)"
proof -
  have "table_of sample_inputs = [heir_2 False, heir_3 False]"
    by (simp add: table_of_def sample_inputs_def slot_of_input_def heir_2_def heir_3_def)
  then show ?thesis
    using sample_table [of False False]
    by (simp add: handle_initialize_vault_Inr)
       (simp add: sample_vault_def sample_inputs_def MAX_BENEFICIARIES_def slot_of_input_def
         heir_2_def heir_3_def numeral_eq_Suc)
qed

lemma sol_open_step:
  "dispatch sample_rt [1] (InitializeVault 1 1564 None 7 60 sample_inputs) genesis = Inr sol_open"
proof -
  have "accounts_initialize_vault sample_rt [1] 1 1564 None 7 (accounts genesis)
      = Inr (255, (accounts genesis)(1 := wallet 997139440,
     1564 := \<lparr>lamports = 2860560, owner_program = 9, data_len = 283, data = OtherData\<rparr>))"
    unfolding accounts_initialize_vault_Inr vault_space open_steps by (simp add: sample_keys)
  then show ?thesis
    using sample_init_vault [of None 7]
    by (simp add: initialize_vault_def sol_open_def store_vault_def) (simp add: genesis_def)
qed

lemma sol_deposit_step:
  "dispatch sample_rt [1] (DepositSol 1 1564 1000000) sol_open = Inr sol_funded"
proof -
  have "accounts_deposit_sol sample_rt [1] 1 1564 (accounts sol_open)
      = Inr (sample_vault 7 None False False 0)"
    by (simp add: accounts_deposit_sol_Inr) (simp add: sol_open_def)
  moreover have "sample_transfer 1 1564 1000000 (accounts sol_open) = Inr (accounts sol_funded)"
    by (simp add: sample_transfer_def sol_open_def sol_funded_def genesis_def wallet_account_def)
  ultimately show ?thesis
    by (simp add: deposit_sol_Inr) (simp add: sol_funded_def)
qed

text \<open>Heir 2 takes 60% of a pool of a million; heir 3, the last one, takes what is left.\<close>

lemma sample_mark:
  "mark_claimed 0 (tripped (sample_vault ident mnt False False 0) p) = sample_vault ident mnt True False p"
  "mark_claimed 1 (tripped (sample_vault ident mnt True False p) q) = sample_vault ident mnt True True p"
  by (simp_all add: mark_claimed_def tripped_def sample_vault_def heir_2_def heir_3_def)

lemma sample_claim_2:
  "book_claim (sample_vault ident mnt False False 0) 2 1800000060 1000000
     = Inr (600000, sample_vault ident mnt True False 1000000)"
  unfolding book_claim_Inr [OF sample_inv [of False False 0, simplified]]
  by (intro conjI exI [of _ 0])
     (simp_all add: sample_mark payout_def entitlement_def pool_of_def)

lemma sample_claim_3:
  "book_claim (sample_vault ident mnt True False 1000000) 3 1800000060 400000
     = Inr (400000, sample_vault ident mnt True True 1000000)"
  unfolding book_claim_Inr [OF sample_inv [of True False 1000000, simplified]]
  by (intro conjI exI [of _ 1])
     (simp_all add: sample_mark [simplified] payout_def)

lemma sol_claim_2_step: "dispatch sample_rt [2] (ClaimSol 2 1564) sol_late = Inr sol_tripped"
proof -
  have v: "accounts_claim_sol sample_rt [2] 2 1564 (accounts sol_late)
      = Inr (sample_vault 7 None False False 0)"
    by (simp add: accounts_claim_sol_Inr) (simp add: sol_late_def sol_funded_def)
  have w: "withdrawable_lamports sample_rt (accounts sol_late 1564) = 1000000"
    by (simp add: withdrawable_lamports_def sol_late_def sol_funded_def saturating_sub_def)
  have m: "move_lamports 1564 2 600000 (accounts sol_late) = Inr ((accounts sol_late)
     (1564 := vault_account 3260560 (sample_vault 7 None False False 0), 2 := wallet 1000600000))"
    by (simp add: move_lamports_Inr sol_late_def sol_funded_def sol_open_def genesis_def
        wallet_account_def)
  have "unix_timestamp sol_late = 1800000060" by (simp add: sol_late_def)
  then show ?thesis
    using v w m sample_claim_2 [of 7 None]
    by (simp add: claim_sol_def handle_claim_sol_def)
       (simp add: sol_tripped_def store_vault_def fun_upd_twist)
qed

lemma sol_claim_3_step: "dispatch sample_rt [3] (ClaimSol 3 1564) sol_tripped = Inr sol_spent"
proof -
  have v: "accounts_claim_sol sample_rt [3] 3 1564 (accounts sol_tripped)
      = Inr (sample_vault 7 None True False 1000000)"
    by (simp add: accounts_claim_sol_Inr) (simp add: sol_tripped_def)
  have w: "withdrawable_lamports sample_rt (accounts sol_tripped 1564) = 400000"
    by (simp add: withdrawable_lamports_def sol_tripped_def saturating_sub_def)
  have m: "move_lamports 1564 3 400000 (accounts sol_tripped) = Inr ((accounts sol_tripped)
     (1564 := vault_account 2860560 (sample_vault 7 None True False 1000000), 3 := wallet 1000400000))"
    by (simp add: move_lamports_Inr sol_tripped_def sol_late_def sol_funded_def sol_open_def genesis_def
        wallet_account_def)
  have "unix_timestamp sol_tripped = 1800000060" by (simp add: sol_tripped_def sol_late_def)
  then show ?thesis
    using v w m sample_claim_3 [of 7 None]
    by (simp add: claim_sol_def handle_claim_sol_def)
       (simp add: sol_spent_def store_vault_def fun_upd_twist)
qed

lemma sol_reachable:
  "reachable sample_rt sol_open" "reachable sample_rt sol_funded" "reachable sample_rt sol_late"
  "reachable sample_rt sol_tripped" "reachable sample_rt sol_spent"
proof -
  have w: "wallets [1] (accounts genesis)" "wallets [1] (accounts sol_open)"
    "wallets [2] (accounts sol_late)" "wallets [3] (accounts sol_tripped)"
    by (simp_all add: wallets_def vault_at_def sol_chain_defs wallet_account_def)
  show 1: "reachable sample_rt sol_open"
    by (rule play [OF genesis_reachable genesis_uniform w(1) sol_open_step])
  show 2: "reachable sample_rt sol_funded"
    by (rule play [OF 1 sol_uniform(1) w(2) sol_deposit_step])
  show 3: "reachable sample_rt sol_late"
    by (rule wait [OF 2 _ sol_late_def]) (simp add: sol_funded_def sol_open_def genesis_def)
  show 4: "reachable sample_rt sol_tripped"
    by (rule play [OF 3 sol_uniform(3) w(3) sol_claim_2_step])
  show "reachable sample_rt sol_spent"
    by (rule play [OF 4 sol_uniform(4) w(4) sol_claim_3_step])
qed

text \<open>What is stored at the vault's address, chain by chain.\<close>

lemma sol_vaults:
  "vault_at (accounts sol_open) 1564 = Some (sample_vault 7 None False False 0)"
  "vault_at (accounts sol_funded) 1564 = Some (sample_vault 7 None False False 0)"
  "vault_at (accounts sol_late) 1564 = Some (sample_vault 7 None False False 0)"
  "vault_at (accounts sol_tripped) 1564 = Some (sample_vault 7 None True False 1000000)"
  "vault_at (accounts sol_spent) 1564 = Some (sample_vault 7 None True True 1000000)"
  by (simp_all add: vault_at_def sol_chain_defs)

section \<open>An SPL vault: opened, funded, silent, claimed by heir 2\<close>

definition spl_open :: chain where
  "spl_open = genesis\<lparr>accounts := (accounts genesis)(1 := wallet 997139440,
     1565 := vault_account 2860560 (sample_vault 8 (Some 50) False False 0))\<rparr>"

definition spl_funded :: chain where
  "spl_funded = spl_open\<lparr>accounts := (accounts spl_open)(1 := wallet 995100160,
     105006 := token_acct 50 1 0, 156505006 := token_acct 50 1565 1000)\<rparr>"

definition spl_late :: chain where
  "spl_late = spl_funded\<lparr>unix_timestamp := 1800000060\<rparr>"

definition spl_tripped :: chain where
  "spl_tripped = spl_late\<lparr>accounts := (accounts spl_late)(2 := wallet 997960720,
     205006 := token_acct 50 2 600, 156505006 := token_acct 50 1565 400,
     1565 := vault_account 2860560 (sample_vault 8 (Some 50) True False 1000))\<rparr>"

lemmas spl_chain_defs = spl_tripped_def spl_late_def spl_funded_def spl_open_def genesis_def
lemmas account_defs = wallet_account_def unused_account_def token_acct_def

lemma spl_open_step:
  "dispatch sample_rt [1] (InitializeVault 1 1565 (Some 50) 8 60 sample_inputs) genesis = Inr spl_open"
proof -
  have init: "init_account sample_rt 1 1565 283 (accounts genesis)
      = Inr ((accounts genesis)(1 := wallet 997139440,
     1565 := \<lparr>lamports = 2860560, owner_program = 9, data_len = 283, data = OtherData\<rparr>))"
    by (simp add: sample_init_def genesis_def account_defs saturating_sub_def)
  have mnt: "load_mint sample_rt (accounts genesis) 50 = Inr 6"
    by (simp add: load_mint_Inr genesis_def)
  have "accounts_initialize_vault sample_rt [1] 1 1565 (Some 50) 8 (accounts genesis)
      = Inr (255, (accounts genesis)(1 := wallet 997139440,
     1565 := \<lparr>lamports = 2860560, owner_program = 9, data_len = 283, data = OtherData\<rparr>))"
    unfolding accounts_initialize_vault_Inr vault_space init using mnt by (simp add: sample_keys)
  then show ?thesis
    using sample_init_vault [of "Some 50" 8]
    by (simp add: initialize_vault_def spl_open_def store_vault_def) (simp add: genesis_def)
qed

lemma spl_uniform:
  "uniform (accounts spl_open)" "uniform (accounts spl_funded)" "uniform (accounts spl_late)"
  "uniform (accounts spl_tripped)"
  using genesis_uniform
  by (simp_all add: spl_tripped_def spl_late_def spl_funded_def spl_open_def uniform_def account_defs)

lemma spl_deposit_step:
  "dispatch sample_rt [1] (DepositSpl 1 1565 50 105006 156505006 6 1000) spl_open = Inr spl_funded"
proof -
  let ?A = "(accounts spl_open)(1 := wallet 995100160, 156505006 := token_acct 50 1565 0)"
  have "create_associated sample_rt 1 156505006 1565 50 6 (accounts spl_open) = Inr ?A"
    by (simp add: sample_create_def spl_open_def genesis_def account_defs)
  then have init: "init_if_needed_associated sample_rt (accounts spl_open) 156505006 1 1565 50 6 = Inr ?A"
    by (simp add: init_if_needed_associated_Inr sample_associated_def)
       (simp add: spl_open_def genesis_def account_defs)
  have "load_associated sample_rt (accounts spl_open) 105006 1 50 6
      = Inr \<lparr>tok_mint = 50, tok_owner = 1, tok_amount = 1000\<rparr>"
    by (simp add: load_associated_Inr sample_associated_def) (simp add: spl_open_def genesis_def account_defs)
  moreover have "load_vault sample_rt (accounts spl_open) 1565 = Inr (sample_vault 8 (Some 50) False False 0)"
    by (rule sample_load) (simp add: spl_open_def)
  moreover have "load_mint sample_rt (accounts spl_open) 50 = Inr 6"
    by (simp add: load_mint_Inr spl_open_def genesis_def)
  ultimately have acc: "accounts_deposit_spl sample_rt [1] 1 1565 50 105006 156505006 6 (accounts spl_open)
      = Inr (6, ?A)"
    using init by (simp add: accounts_deposit_spl_Inr)
  have "sample_token_transfer 6 105006 50 156505006 1 1000 6 ?A = Inr (accounts spl_funded)"
    by (simp add: sample_token_transfer_def spl_funded_def spl_open_def genesis_def account_defs
        fun_upd_twist)
  then show ?thesis
    using acc by (simp add: deposit_spl_Inr) (simp add: spl_funded_def)
qed

lemma sample_spl_claim_2:
  "book_claim (sample_vault ident mnt False False 0) 2 1800000060 1000
     = Inr (600, sample_vault ident mnt True False 1000)"
  unfolding book_claim_Inr [OF sample_inv [of False False 0, simplified]]
  by (intro conjI exI [of _ 0])
     (simp_all add: sample_mark payout_def entitlement_def pool_of_def)

lemma spl_claim_2_step:
  "dispatch sample_rt [2] (ClaimSpl 2 1565 50 156505006 205006 6) spl_late = Inr spl_tripped"
proof -
  let ?A = "(accounts spl_late)(2 := wallet 997960720, 205006 := token_acct 50 2 0)"
  have "create_associated sample_rt 2 205006 2 50 6 (accounts spl_late) = Inr ?A"
    by (simp add: sample_create_def spl_late_def spl_funded_def spl_open_def genesis_def account_defs)
  then have init: "init_if_needed_associated sample_rt (accounts spl_late) 205006 2 2 50 6 = Inr ?A"
    by (simp add: init_if_needed_associated_Inr sample_associated_def)
       (simp add: spl_late_def spl_funded_def spl_open_def genesis_def account_defs)
  have "load_associated sample_rt (accounts spl_late) 156505006 1565 50 6
      = Inr \<lparr>tok_mint = 50, tok_owner = 1565, tok_amount = 1000\<rparr>"
    by (simp add: load_associated_Inr sample_associated_def)
       (simp add: spl_late_def spl_funded_def account_defs)
  moreover have "load_vault sample_rt (accounts spl_late) 1565 = Inr (sample_vault 8 (Some 50) False False 0)"
    by (rule sample_load) (simp add: spl_late_def spl_funded_def spl_open_def)
  moreover have "load_mint sample_rt (accounts spl_late) 50 = Inr 6"
    by (simp add: load_mint_Inr spl_late_def spl_funded_def spl_open_def genesis_def)
  ultimately have acc: "accounts_claim_spl sample_rt [2] 2 1565 50 156505006 205006 6 (accounts spl_late)
      = Inr (sample_vault 8 (Some 50) False False 0, 6,
             \<lparr>tok_mint = 50, tok_owner = 1565, tok_amount = 1000\<rparr>, ?A)"
    using init by (simp add: accounts_claim_spl_Inr)
  have tr: "sample_token_transfer 6 156505006 50 205006 1565 600 6 ?A = Inr ((accounts spl_late)
     (2 := wallet 997960720, 156505006 := token_acct 50 1565 400, 205006 := token_acct 50 2 600))"
    by (simp add: sample_token_transfer_def spl_late_def spl_funded_def account_defs fun_upd_twist)
  have "unix_timestamp spl_late = 1800000060" by (simp add: spl_late_def)
  then show ?thesis
    using acc tr sample_spl_claim_2 [of 8 "Some 50"]
    by (simp add: claim_spl_def handle_claim_spl_def)
       (simp add: spl_tripped_def store_vault_def fun_upd_twist
         spl_late_def spl_funded_def spl_open_def)
qed

lemma spl_reachable:
  "reachable sample_rt spl_open" "reachable sample_rt spl_funded" "reachable sample_rt spl_late"
  "reachable sample_rt spl_tripped"
proof -
  have w: "wallets [1] (accounts genesis)" "wallets [1] (accounts spl_open)" "wallets [2] (accounts spl_late)"
    by (simp_all add: wallets_def vault_at_def spl_chain_defs account_defs)
  show 1: "reachable sample_rt spl_open"
    by (rule play [OF genesis_reachable genesis_uniform w(1) spl_open_step])
  show 2: "reachable sample_rt spl_funded"
    by (rule play [OF 1 spl_uniform(1) w(2) spl_deposit_step])
  show 3: "reachable sample_rt spl_late"
    by (rule wait [OF 2 _ spl_late_def]) (simp add: spl_funded_def spl_open_def genesis_def)
  show "reachable sample_rt spl_tripped"
    by (rule play [OF 3 spl_uniform(3) w(3) spl_claim_2_step])
qed

lemma spl_vaults:
  "vault_at (accounts spl_open) 1565 = Some (sample_vault 8 (Some 50) False False 0)"
  "vault_at (accounts spl_funded) 1565 = Some (sample_vault 8 (Some 50) False False 0)"
  "vault_at (accounts spl_late) 1565 = Some (sample_vault 8 (Some 50) False False 0)"
  "vault_at (accounts spl_tripped) 1565 = Some (sample_vault 8 (Some 50) True False 1000)"
  by (simp_all add: vault_at_def spl_chain_defs)

section \<open>Closing that vault through another token account\<close>

text \<open>
  Anyone may create a token account whose authority is the vault (address 77 here). The
  owner closes the tripped vault by naming it, opens the vault again and withdraws the 400
  tokens that heir 3 is owed.
\<close>

definition spl_decoy :: chain where
  "spl_decoy = spl_tripped\<lparr>accounts := (accounts spl_tripped)(77 := token_acct 50 1565 0)\<rparr>"

definition spl_closed :: chain where
  "spl_closed = spl_decoy\<lparr>accounts := (accounts spl_decoy)(77 := unused_account,
     1 := wallet 1000000000, 1565 := unused_account)\<rparr>"

definition spl_reopened :: chain where
  "spl_reopened = spl_closed\<lparr>accounts := (accounts spl_closed)(1 := wallet 997139440,
     1565 := vault_account 2860560
       ((sample_vault 8 (Some 50) False False 0)\<lparr>last_checkin := 1800000060\<rparr>))\<rparr>"

definition spl_drained :: chain where
  "spl_drained = spl_reopened\<lparr>accounts := (accounts spl_reopened)(105006 := token_acct 50 1 400,
     156505006 := token_acct 50 1565 0)\<rparr>"

lemmas spl_exploit_defs = spl_drained_def spl_reopened_def spl_closed_def spl_decoy_def

lemma spl_close_step:
  "dispatch sample_rt [1] (CloseVault 1 1565 (Some 77) (Some 6)) spl_decoy = Inr spl_closed"
proof -
  let ?t = "\<lparr>tok_mint = 50, tok_owner = 1565, tok_amount = 0\<rparr>"
  let ?A = "(accounts spl_decoy)(77 := unused_account, 1 := wallet 997139440)"
  have "load_vault sample_rt (accounts spl_decoy) 1565 = Inr (sample_vault 8 (Some 50) True False 1000)"
    by (rule sample_load) (simp add: spl_decoy_def spl_tripped_def)
  moreover have "load_token sample_rt (accounts spl_decoy) 77 = Inr ?t"
    by (simp add: load_token_Inr spl_decoy_def token_acct_def)
  ultimately have acc: "accounts_close_vault sample_rt [1] 1 1565 (Some 77) (Some 6) (accounts spl_decoy)
      = Inr (sample_vault 8 (Some 50) True False 1000, Some (77, ?t))"
    by (simp add: accounts_close_vault_Inr)
  have "sample_close 6 77 1 1565 (accounts spl_decoy) = Inr ?A"
    by (simp add: sample_close_def spl_decoy_def spl_tripped_def spl_late_def spl_funded_def
        account_defs fun_upd_twist)
  then have "handle_close_vault sample_rt 1 1565 (sample_vault 8 (Some 50) True False 1000)
      (Some (77, ?t)) (Some 6) (accounts spl_decoy) = Inr ?A"
    by (simp add: handle_close_vault_spl)
  moreover have "close_to sample_rt 1565 1 ?A = Inr (accounts spl_closed)"
    by (simp add: close_to_Inr spl_closed_def) (simp add: spl_decoy_def spl_tripped_def account_defs)
  ultimately show ?thesis
    using acc by (simp add: close_vault_Inr) (simp add: spl_closed_def)
qed

lemma spl_reopen_step:
  "dispatch sample_rt [1] (InitializeVault 1 1565 (Some 50) 8 60 sample_inputs) spl_closed = Inr spl_reopened"
proof -
  let ?A = "(accounts spl_closed)(1 := wallet 997139440,
     1565 := \<lparr>lamports = 2860560, owner_program = 9, data_len = 283, data = OtherData\<rparr>)"
  have init: "init_account sample_rt 1 1565 283 (accounts spl_closed) = Inr ?A"
    by (simp add: sample_init_def spl_closed_def account_defs saturating_sub_def)
  have mnt: "load_mint sample_rt (accounts spl_closed) 50 = Inr 6"
    by (simp add: load_mint_Inr spl_closed_def spl_decoy_def spl_chain_defs)
  have acc: "accounts_initialize_vault sample_rt [1] 1 1565 (Some 50) 8 (accounts spl_closed) = Inr (255, ?A)"
    unfolding accounts_initialize_vault_Inr vault_space init using mnt by (simp add: sample_keys)
  have "handle_initialize_vault 1 (Some 50) 255 8 60 sample_inputs 1800000060
      = Inr ((sample_vault 8 (Some 50) False False 0)\<lparr>last_checkin := 1800000060\<rparr>)"
    using sample_init_vault [of "Some 50" 8] by (simp add: handle_initialize_vault_Inr)
  moreover have "unix_timestamp spl_closed = 1800000060"
    by (simp add: spl_closed_def spl_decoy_def spl_tripped_def spl_late_def)
  ultimately show ?thesis
    using acc by (simp add: initialize_vault_def spl_reopened_def store_vault_def)
qed

lemma spl_drain_step:
  "dispatch sample_rt [1] (WithdrawSpl 1 1565 50 156505006 105006 6 400) spl_reopened = Inr spl_drained"
proof -
  have at: "accounts spl_reopened 156505006 = token_acct 50 1565 400"
    "accounts spl_reopened 105006 = token_acct 50 1 0"
    by (simp_all add: spl_exploit_defs spl_tripped_def spl_late_def spl_funded_def)
  have "load_vault sample_rt (accounts spl_reopened) 1565
      = Inr ((sample_vault 8 (Some 50) False False 0)\<lparr>last_checkin := 1800000060\<rparr>)"
    by (simp add: load_vault_Inr butlast_append sample_keys) (simp add: spl_reopened_def)
  moreover have "load_mint sample_rt (accounts spl_reopened) 50 = Inr 6"
    by (simp add: load_mint_Inr spl_exploit_defs spl_chain_defs)
  moreover have "load_associated sample_rt (accounts spl_reopened) 156505006 1565 50 6
      = Inr \<lparr>tok_mint = 50, tok_owner = 1565, tok_amount = 400\<rparr>"
    by (simp add: load_associated_Inr sample_associated_def at) (simp add: token_acct_def)
  moreover have "init_if_needed_associated sample_rt (accounts spl_reopened) 105006 1 1 50 6
      = Inr (accounts spl_reopened)"
    by (simp add: init_if_needed_associated_Inr sample_associated_def at) (simp add: token_acct_def)
  ultimately have acc: "accounts_withdraw_spl sample_rt [1] 1 1565 50 156505006 105006 6 (accounts spl_reopened)
      = Inr (6, \<lparr>tok_mint = 50, tok_owner = 1565, tok_amount = 400\<rparr>, accounts spl_reopened)"
    by (simp add: accounts_withdraw_spl_Inr)
  have "sample_token_transfer 6 156505006 50 105006 1565 400 6 (accounts spl_reopened)
      = Inr (accounts spl_drained)"
    by (simp add: sample_token_transfer_def at spl_drained_def) (simp add: at token_acct_def fun_upd_twist)
  then show ?thesis
    using acc by (simp add: withdraw_spl_Inr) (simp add: spl_drained_def)
qed

lemma spl_decoy_reachable: "reachable sample_rt spl_decoy"
proof -
  have unused: "data (accounts spl_tripped 77) = NoData"
    by (simp add: spl_chain_defs unused_account_def)
  have same: "accounts spl_decoy k = accounts spl_tripped k" if "k \<noteq> 77" for k
    using that by (simp add: spl_decoy_def)
  have "kept_at (accounts spl_tripped) (accounts spl_decoy) k" for k
  proof (cases "k = 77")
    case True
    then show ?thesis
      using unused by (intro kept_at_no_vault) (simp_all add: spl_decoy_def vault_at_def token_acct_def)
  qed (use same in \<open>auto intro: kept_at_same\<close>)
  then have "vaults_kept (accounts spl_tripped) (accounts spl_decoy)" by (simp add: vaults_kept_def)
  moreover have "vault_tokens_kept (accounts spl_tripped) (accounts spl_decoy)"
    unfolding vault_tokens_kept_def
  proof (intro allI impI tokens_keptI)
    fix j k t
    assume "data (accounts spl_tripped k) = TokenData t"
    with unused same [of k] show "data (accounts spl_decoy k) = TokenData t \<and>
        owner_program (accounts spl_decoy k) = owner_program (accounts spl_tripped k)"
      by (cases "k = 77") auto
  qed
  ultimately have "chain_step sample_rt spl_tripped (spl_tripped\<lparr>accounts := accounts spl_decoy\<rparr>)"
    by (rule chain_step.outside)
  moreover have "spl_tripped\<lparr>accounts := accounts spl_decoy\<rparr> = spl_decoy"
    by (simp add: spl_decoy_def)
  ultimately show ?thesis using reachable.step [OF spl_reachable(4)] by simp
qed

lemma spl_exploit_reachable:
  "reachable sample_rt spl_closed" "reachable sample_rt spl_reopened" "reachable sample_rt spl_drained"
proof -
  have u: "uniform (accounts spl_decoy)" "uniform (accounts spl_closed)" "uniform (accounts spl_reopened)"
    using spl_uniform(4)
    by (simp_all add: uniform_def spl_reopened_def spl_closed_def spl_decoy_def account_defs)
  have w: "wallets [1] (accounts spl_decoy)" "wallets [1] (accounts spl_closed)"
    "wallets [1] (accounts spl_reopened)"
    by (simp_all add: wallets_def vault_at_def spl_exploit_defs spl_chain_defs account_defs)
  show 1: "reachable sample_rt spl_closed" by (rule play [OF spl_decoy_reachable u(1) w(1) spl_close_step])
  show 2: "reachable sample_rt spl_reopened" by (rule play [OF 1 u(2) w(2) spl_reopen_step])
  show "reachable sample_rt spl_drained" by (rule play [OF 2 u(3) w(3) spl_drain_step])
qed

section \<open>Dust\<close>

text \<open>
  Heirs 2 (99.98%), 3 and 4 (0.01% each) and a pool of 5000 lamports: heir 2 takes 4999, and the one lamport left is nobody's.
\<close>

definition dust_inputs :: "beneficiary_input list" where
  "dust_inputs = [\<lparr>input_address = 2, input_share_bps = 9998\<rparr>, \<lparr>input_address = 3, input_share_bps = 1\<rparr>,
                  \<lparr>input_address = 4, input_share_bps = 1\<rparr>]"

definition dust_heirs :: "bool \<Rightarrow> beneficiary list" where
  "dust_heirs paid = [\<lparr>address = 2, share_bps = 9998, claimed = paid\<rparr>,
     \<lparr>address = 3, share_bps = 1, claimed = False\<rparr>, \<lparr>address = 4, share_bps = 1, claimed = False\<rparr>]"

definition dust_vault :: "bool \<Rightarrow> u64 \<Rightarrow> vault" where
  "dust_vault paid p = \<lparr>owner = 1, vault_id = 9, mint = None, last_checkin = 1800000000,
     timeout_seconds = 60, beneficiaries = dust_heirs paid @ [beneficiary_default, beneficiary_default],
     beneficiary_count = 3, is_claimed = paid, claim_pool = p, bump = 255\<rparr>"

definition dust_open :: chain where
  "dust_open = genesis\<lparr>accounts := (accounts genesis)(1 := wallet 997139440,
     1566 := vault_account 2860560 (dust_vault False 0))\<rparr>"

definition dust_funded :: chain where
  "dust_funded = dust_open\<lparr>accounts := (accounts dust_open)(1 := wallet 997134440,
     1566 := vault_account 2865560 (dust_vault False 0))\<rparr>"

definition dust_late :: chain where
  "dust_late = dust_funded\<lparr>unix_timestamp := 1800000060\<rparr>"

definition dust_left :: chain where
  "dust_left = dust_late\<lparr>accounts := (accounts dust_late)(2 := wallet 1000004999,
     1566 := vault_account 2860561 (dust_vault True 5000))\<rparr>"

lemmas dust_chain_defs = dust_left_def dust_late_def dust_funded_def dust_open_def genesis_def

lemma dust_vault_fields [simp]:
  "owner (dust_vault c p) = 1" "vault_id (dust_vault c p) = 9" "mint (dust_vault c p) = None"
  "bump (dust_vault c p) = 255" "last_checkin (dust_vault c p) = 1800000000"
  "timeout_seconds (dust_vault c p) = 60" "is_claimed (dust_vault c p) = c"
  "claim_pool (dust_vault c p) = p" "heirs (dust_vault c p) = dust_heirs c" "is_sol (dust_vault c p)"
  by (simp_all add: dust_vault_def heirs_def dust_heirs_def is_sol_def)

lemma dust_inv: "c \<longleftrightarrow> p \<noteq> 0 \<Longrightarrow> vault_inv (dust_vault c p)"
  by (auto simp: vault_inv_def valid_table_def dust_heirs_def unpaid_def MAX_BENEFICIARIES_def
      word_neq_0_conv [symmetric]) (simp_all add: dust_vault_def dust_heirs_def)

lemma dust_init:
  "handle_initialize_vault 1 None 255 9 60 dust_inputs 1800000000 = Inr (dust_vault False 0)"
proof -
  have "table_of dust_inputs = dust_heirs False"
    by (simp add: table_of_def dust_inputs_def slot_of_input_def dust_heirs_def)
  then show ?thesis
    using vault_inv_table [OF dust_inv [of False 0]]
    by (simp add: handle_initialize_vault_Inr)
       (simp add: dust_vault_def dust_inputs_def MAX_BENEFICIARIES_def slot_of_input_def
         dust_heirs_def numeral_eq_Suc)
qed

lemma dust_claim:
  "book_claim (dust_vault False 0) 2 1800000060 5000 = Inr (4999, dust_vault True 5000)"
proof -
  have "mark_claimed 0 (tripped (dust_vault False 0) 5000) = dust_vault True 5000"
    by (simp add: mark_claimed_def tripped_def dust_vault_def dust_heirs_def)
  then show ?thesis
    unfolding book_claim_Inr [OF dust_inv [of False 0, simplified]]
    by (intro conjI exI [of _ 0])
       (simp_all add: payout_def entitlement_def pool_of_def unpaid_def dust_heirs_def)
qed

lemma dust_load [simp]:
  "data (A 1566) = VaultData (dust_vault c p) \<Longrightarrow> load_vault sample_rt A 1566 = Inr (dust_vault c p)"
  by (simp add: load_vault_Inr butlast_append sample_keys)

lemma dust_open_step:
  "dispatch sample_rt [1] (InitializeVault 1 1566 None 9 60 dust_inputs) genesis = Inr dust_open"
proof -
  let ?A = "(accounts genesis)(1 := wallet 997139440,
     1566 := \<lparr>lamports = 2860560, owner_program = 9, data_len = 283, data = OtherData\<rparr>)"
  have init: "init_account sample_rt 1 1566 283 (accounts genesis) = Inr ?A"
    by (simp add: sample_init_def genesis_def account_defs saturating_sub_def)
  have "accounts_initialize_vault sample_rt [1] 1 1566 None 9 (accounts genesis) = Inr (255, ?A)"
    unfolding accounts_initialize_vault_Inr vault_space init by (simp add: sample_keys)
  then show ?thesis
    using dust_init by (simp add: initialize_vault_def dust_open_def store_vault_def) (simp add: genesis_def)
qed

lemma dust_deposit_step: "dispatch sample_rt [1] (DepositSol 1 1566 5000) dust_open = Inr dust_funded"
proof -
  have "accounts_deposit_sol sample_rt [1] 1 1566 (accounts dust_open) = Inr (dust_vault False 0)"
    by (simp add: accounts_deposit_sol_Inr) (simp add: dust_open_def)
  moreover have "sample_transfer 1 1566 5000 (accounts dust_open) = Inr (accounts dust_funded)"
    by (simp add: sample_transfer_def dust_open_def dust_funded_def genesis_def wallet_account_def)
  ultimately show ?thesis by (simp add: deposit_sol_Inr) (simp add: dust_funded_def)
qed

lemma dust_claim_step: "dispatch sample_rt [2] (ClaimSol 2 1566) dust_late = Inr dust_left"
proof -
  have v: "accounts_claim_sol sample_rt [2] 2 1566 (accounts dust_late) = Inr (dust_vault False 0)"
    by (simp add: accounts_claim_sol_Inr) (simp add: dust_late_def dust_funded_def)
  have w: "withdrawable_lamports sample_rt (accounts dust_late 1566) = 5000"
    by (simp add: withdrawable_lamports_def dust_late_def dust_funded_def saturating_sub_def)
  have m: "move_lamports 1566 2 4999 (accounts dust_late) = Inr ((accounts dust_late)
     (1566 := vault_account 2860561 (dust_vault False 0), 2 := wallet 1000004999))"
    by (simp add: move_lamports_Inr dust_late_def dust_funded_def dust_open_def genesis_def
        wallet_account_def)
  have "unix_timestamp dust_late = 1800000060" by (simp add: dust_late_def)
  then show ?thesis
    using v w m dust_claim
    by (simp add: claim_sol_def handle_claim_sol_def)
       (simp add: dust_left_def store_vault_def fun_upd_twist)
qed

lemma dust_reachable: "reachable sample_rt dust_left"
proof -
  have u: "uniform (accounts dust_open)" "uniform (accounts dust_late)"
    using genesis_uniform
    by (simp_all add: dust_late_def dust_funded_def dust_open_def uniform_def wallet_account_def)
  have w: "wallets [1] (accounts genesis)" "wallets [1] (accounts dust_open)" "wallets [2] (accounts dust_late)"
    by (simp_all add: wallets_def vault_at_def dust_chain_defs account_defs)
  have 1: "reachable sample_rt dust_open"
    by (rule play [OF genesis_reachable genesis_uniform w(1) dust_open_step])
  have 2: "reachable sample_rt dust_funded" by (rule play [OF 1 u(1) w(2) dust_deposit_step])
  have 3: "reachable sample_rt dust_late"
    by (rule wait [OF 2 _ dust_late_def]) (simp add: dust_funded_def dust_open_def genesis_def)
  show ?thesis by (rule play [OF 3 u(2) w(3) dust_claim_step])
qed

section \<open>Someone else's business\<close>

text \<open>Wallet 5, which has no part in the vault at 1564, opens a vault of its own.\<close>

definition sol_other :: chain where
  "sol_other = sol_funded\<lparr>accounts := (accounts sol_funded)(5 := wallet 997139440,
     1568 := vault_account 2860560 ((sample_vault 7 None False False 0)\<lparr>owner := 5\<rparr>))\<rparr>"

lemma sol_other_step:
  "dispatch sample_rt [5] (InitializeVault 5 1568 None 7 60 sample_inputs) sol_funded = Inr sol_other"
proof -
  let ?A = "(accounts sol_funded)(5 := wallet 997139440,
     1568 := \<lparr>lamports = 2860560, owner_program = 9, data_len = 283, data = OtherData\<rparr>)"
  have init: "init_account sample_rt 5 1568 283 (accounts sol_funded) = Inr ?A"
    by (simp add: sample_init_def sol_chain_defs account_defs saturating_sub_def)
  have "accounts_initialize_vault sample_rt [5] 5 1568 None 7 (accounts sol_funded) = Inr (255, ?A)"
    unfolding accounts_initialize_vault_Inr vault_space init by (simp add: sample_keys)
  moreover have "handle_initialize_vault 5 None 255 7 60 sample_inputs 1800000000
      = Inr ((sample_vault 7 None False False 0)\<lparr>owner := 5\<rparr>)"
    using sample_init_vault [of None 7] by (simp add: handle_initialize_vault_Inr)
  moreover have "unix_timestamp sol_funded = 1800000000"
    by (simp add: sol_funded_def sol_open_def genesis_def)
  ultimately show ?thesis
    by (simp add: initialize_vault_def sol_other_def store_vault_def)
qed

lemma sol_other_wallets: "wallets [5] (accounts sol_funded)"
  by (simp add: wallets_def vault_at_def sol_chain_defs wallet_account_def)

end
