(* ===== verification/Component_Properties.thy ===== *)
theory Component_Properties
  imports Succession Scenarios
begin

text \<open>
  The properties of single components: the validation of a heir table, the arithmetic of
  shares, the rules of a claim and what each instruction does. The properties that span
  components are in the root theory.
\<close>

section \<open>Heir tables\<close>

text \<open>
  A reference description of the validation: the fault of the slot at one index, and the
  first fault in slot order.
\<close>

definition slot_fault :: "beneficiary list \<Rightarrow> nat \<Rightarrow> dms_error option" where
  "slot_fault bs i =
     (if address (bs ! i) = 0 then Some InvalidBeneficiary
      else if share_bps (bs ! i) = 0 then Some InvalidShares
      else if address (bs ! i) \<in> address ` set (take i bs) then Some DuplicateBeneficiary
      else if 65536 \<le> shares_total (take (Suc i) bs) then Some MathOverflow
      else None)"

fun first_fault :: "beneficiary list \<Rightarrow> nat list \<Rightarrow> dms_error option" where
  "first_fault bs [] = None"
| "first_fault bs (i # is) = (case slot_fault bs i of None \<Rightarrow> first_fault bs is | Some e \<Rightarrow> Some e)"

lemma shares_total_append: "shares_total (xs @ ys) = shares_total xs + shares_total ys"
  by (simp add: shares_total_def)

lemma validate_loop_faults:
  "unat tot = shares_total prev \<Longrightarrow>
   validate_loop prev rest tot =
     (case first_fault (prev @ rest) [length prev..<length (prev @ rest)] of
        Some e \<Rightarrow> Inl (Dms e)
      | None \<Rightarrow> Inr (of_nat (shares_total (prev @ rest))))"
proof (induction rest arbitrary: prev tot)
  case Nil
  then show ?case by (simp flip: Nil)
next
  case (Cons b rest)
  let ?all = "prev @ b # rest"
  have upt: "[length prev..<length ?all] = length prev # [Suc (length prev)..<length ?all]"
    by (rule upt_conv_Cons) simp
  have total: "shares_total (take (Suc (length prev)) ?all) = unat tot + unat (share_bps b)"
    using Cons.prems by (simp add: shares_total_append)
  have fault: "slot_fault ?all (length prev) =
     (if address b = 0 then Some InvalidBeneficiary else if share_bps b = 0 then Some InvalidShares
      else if address b \<in> address ` set prev then Some DuplicateBeneficiary
      else if 65536 \<le> unat tot + unat (share_bps b) then Some MathOverflow else None)"
    unfolding slot_fault_def total by simp
  show ?case
  proof (cases "checked_add tot (share_bps b)")
    case None
    then have "65536 \<le> unat tot + unat (share_bps b)" by (simp add: checked_add_None)
    then show ?thesis
      using None unfolding upt first_fault.simps fault by (auto simp: listed_iff word_neq_0_conv)
  next
    case (Some t)
    then have t: "unat t = unat tot + unat (share_bps b)" by (simp add: checked_add_Some)
    then have small: "\<not> 65536 \<le> unat tot + unat (share_bps b)"
      using unat_less [of t] by simp
    have "validate_loop (prev @ [b]) rest t =
     (case first_fault ?all [Suc (length prev)..<length ?all] of
        Some e \<Rightarrow> Inl (Dms e) | None \<Rightarrow> Inr (of_nat (shares_total ?all)))"
      using Cons.IH [of t "prev @ [b]", unfolded append_assoc append.simps] t Cons.prems
      by (simp del: upt_Suc add: shares_total_append [of prev "[b]"])
    then show ?thesis
      using Some small unfolding upt first_fault.simps fault
      by (simp del: upt_Suc add: listed_iff word_neq_0_conv)
  qed
qed

text \<open>
  C25: the validation of a heir table, on every input. An empty table and one of more than five
  slots are refused; otherwise the first faulty slot decides the error (zero address, zero
  share, an address seen before, a running total past 65535, in this order); and a table
  without faults passes exactly when its shares add up to 10000 basis points.
\<close>

theorem validate_slots_spec:
  "validate_slots bs =
     (if bs = [] then Inl (Dms NoBeneficiaries)
      else if 5 < length bs then Inl (Dms TooManyBeneficiaries)
      else case first_fault bs [0..<length bs] of
             Some e \<Rightarrow> Inl (Dms e)
           | None \<Rightarrow> if (of_nat (shares_total bs) :: u16) = 10000 then Inr () else Inl (Dms InvalidShares))"
  using validate_loop_faults [of 0 "[]" bs]
  by (simp add: validate_slots_def MAX_BENEFICIARIES_def TOTAL_SHARE_BPS_def require_def split: option.splits)

text \<open>
  A heir table passes validation exactly when it has one to five slots, all addresses are
  non-zero and distinct, all shares are positive, and the shares, added without overflow,
  make 10000 basis points.
\<close>

theorem validate_slots_iff:
  "validate_slots bs = Inr () \<longleftrightarrow>
     bs \<noteq> [] \<and> length bs \<le> 5 \<and> distinct (map address bs) \<and>
     list_all (\<lambda>b. address b \<noteq> 0 \<and> 0 < share_bps b) bs \<and>
     sum_list (map (\<lambda>b. unat (share_bps b)) bs) = 10000"
  by (simp add: validate_slots_Inr valid_table_def MAX_BENEFICIARIES_def shares_total_def)

section \<open>Shares\<close>

text \<open>
  C26: \<open>share_of\<close> computes \<open>pool * bps / 10000\<close> rounded down, for every pool and every share
  without an intermediate overflow; it fails only when that quotient itself does not fit in
  64 bits, which no share of at most 100% can cause.
\<close>

theorem share_of_exact:
  "share_of amount bps =
     (if unat amount * unat bps div 10000 < 2 ^ 64
      then Inr (of_nat (unat amount * unat bps div 10000)) else Inl (Dms MathOverflow)) \<and>
   (10000 < unat bps \<or> (\<exists>a. share_of amount bps = Inr a \<and> a \<le> amount \<and>
      10000 * unat a \<le> unat amount * unat bps \<and> unat amount * unat bps < 10000 * (unat a + 1)))"
proof (cases "10000 < unat bps")
  case True
  then show ?thesis by (simp add: share_of_eq)
next
  case False
  let ?q = "unat amount * unat bps div 10000"
  have "?q \<le> unat amount * 10000 div 10000"
    using False by (intro div_le_mono mult_le_mono) simp_all
  then have le: "?q \<le> unat amount" by simp
  then have q: "?q < 2 ^ 64" using unat_less [of amount] by simp
  then have u: "unat (of_nat ?q :: u64) = ?q" by (simp add: unat_of_nat)
  have "10000 * ?q \<le> unat amount * unat bps \<and> unat amount * unat bps < 10000 * (?q + 1)"
    by (metis Suc_eq_plus1 dividend_less_times_div mult_Suc_right times_div_less_eq_dividend add.commute
        zero_less_numeral)
  then have "\<exists>a :: u64. Inr (of_nat ?q) = (Inr a :: error + u64) \<and> a \<le> amount \<and>
      10000 * unat a \<le> unat amount * unat bps \<and> unat amount * unat bps < 10000 * (unat a + 1)"
    using le u by (simp add: word_le_nat_alt)
  then show ?thesis using q by (simp add: share_of_eq)
qed

section \<open>The rules of a claim\<close>

text \<open>
  C24: what \<open>authorize_claim\<close> decides on a well-formed vault, in this order: before the
  deadline it answers \<open>TimeoutNotReached\<close>, to a key that is not listed \<open>Unauthorized\<close>, to an
  heir who was paid \<open>AlreadyClaimed\<close>; otherwise it hands out a ticket with the heir's share,
  flagged last exactly when no other heir is unpaid, trips the switch and fixes the pool if
  that had not happened, and marks this heir, and nothing else, as paid.
\<close>

theorem authorize_claim_spec:
  assumes "vault_inv v"
  shows "authorize_claim v k now available =
    (if sint now < sint (last_checkin v) + sint (timeout_seconds v) then Inl (Dms TimeoutNotReached)
     else case position (\<lambda>b. address b = k) (heirs v) of
       None \<Rightarrow> Inl (Dms Unauthorized)
     | Some i \<Rightarrow>
         if claimed (heirs v ! i) then Inl (Dms AlreadyClaimed)
         else Inr (\<lparr>ticket_share_bps = share_bps (heirs v ! i), is_last = (unpaid v = [heirs v ! i])\<rparr>,
           (if is_claimed v then v else v\<lparr>is_claimed := True, claim_pool := available\<rparr>)
             \<lparr>beneficiaries := (beneficiaries v)[i := (heirs v ! i)\<lparr>claimed := True\<rparr>]\<rparr>))"
proof (cases "position (\<lambda>b. address b = k) (heirs v)")
  case None
  then have "k \<notin> address ` set (heirs v)" by (auto simp: position_None)
  then show ?thesis using None authorize_claim_Inl [OF assms, of k now available] by auto
next
  case (Some i)
  then have i: "i < length (heirs v)" "address (heirs v ! i) = k" by (simp_all add: position_Some)
  then have mem: "heirs v ! i \<in> set (heirs v)" by simp
  show ?thesis
  proof (cases "sint now < sint (last_checkin v) + sint (timeout_seconds v) \<or> claimed (heirs v ! i)")
    case True
    then show ?thesis
      using Some i mem authorize_claim_Inl [OF assms, of k now available] by auto
  next
    case False
    then have "authorize_claim v k now available =
        Inr (\<lparr>ticket_share_bps = share_bps (heirs v ! i), is_last = (unpaid v = [heirs v ! i])\<rparr>,
             mark_claimed i (tripped v available))"
      using i by (auto simp: authorize_claim_Inr [OF assms])
    then show ?thesis
      using Some False i by (auto simp: mark_claimed_def tripped_def beneficiaries_nth)
  qed
qed

theorem authorize_claim_spec_witness:
  "authorize_claim (sample_vault 7 None True False 1000000) 2 1800000060 400000 = Inl (Dms AlreadyClaimed)"
  using authorize_claim_spec [OF sample_inv [of True False 1000000 7 None], of 2 1800000060 400000] by simp

text \<open>
  C23: after the deadline, the part the two claim handlers share (authorise, compute the amount,
  check it) refines the abstract inheritance: on a well-formed vault it succeeds exactly when
  the abstract claim does, pays the abstract amount, and leaves a vault and a balance that
  abstract to the abstract successor.
\<close>

theorem book_claim_refines_estate:
  assumes "vault_inv v" "sint (last_checkin v) + sint (timeout_seconds v) \<le> sint now"
  shows "estate_claim k (estate_of v available) =
    (case book_claim v k now available of
       Inl e \<Rightarrow> None
     | Inr (amt, v') \<Rightarrow> Some (unat amt, estate_of v' (available - amt)))"
  by (rule book_claim_refines [OF assms])

theorem book_claim_refines_estate_witness:
  "estate_claim 3 (estate_of (sample_vault 7 None True False 1000000) 400000)
     = Some (400000, estate_of (sample_vault 7 None True True 1000000) 0)"
  using book_claim_refines_estate [OF sample_inv [of True False 1000000 7 None], of 1800000060 3 400000]
  by (simp add: sample_claim_3)

text \<open>
  Accounting of one claim. A claim never pays more than is available, and in a solvent,
  well-formed vault it leaves at least what is owed to the remaining heirs; the vault stays
  well formed, tripped, and otherwise as it was.
\<close>

theorem book_claim_keeps_accounts:
  assumes "vault_inv v" "is_claimed v \<longrightarrow> owed v \<le> unat available"
    and "book_claim v k now available = Inr (amt, v')"
  shows "0 < amt \<and> amt \<le> available \<and> owed v' + unat amt \<le> unat available \<and> vault_inv v' \<and>
    is_claimed v' \<and> owner v' = owner v \<and> mint v' = mint v \<and>
    last_checkin v' = last_checkin v \<and> timeout_seconds v' = timeout_seconds v \<and>
    map address (heirs v') = map address (heirs v) \<and> map share_bps (heirs v') = map share_bps (heirs v)"
  using book_claim_amount [OF assms(3)] book_claim_accounts [OF assms(1) _ assms(3)]
    book_claim_inv [OF assms(1,3)] book_claim_frame [OF assms(1,3)] assms(2)
  by (simp add: solvent_def)

theorem book_claim_keeps_accounts_witness:
  "owed (sample_vault 7 None True False 1000000) + unat (600000 :: u64) \<le> unat (1000000 :: u64)"
  using book_claim_keeps_accounts [OF sample_inv [of False False 0 7 None] _ sample_claim_2] by simp

section \<open>What each instruction does\<close>

text \<open>
  C27: opening a vault succeeds exactly when the owner signed, the mint (if one is named) is a
  mint, the address is the one derived from the owner and the id, the runtime creates the
  account, the timeout is between a minute and ten years, the heir table is valid and the
  deadline fits; the account then stores a vault with these data, armed, with all heirs
  unpaid and the clock started now.
\<close>

theorem initialize_vault_iff:
  "initialize_vault rt signers own key mnt ident tmo inputs s = Inr s' \<longleftrightarrow>
    (\<exists>bmp A. own \<in> set signers \<and> find_program_address rt (vault_seeds own ident) = (key, bmp) \<and>
       (case mnt of None \<Rightarrow> True | Some m \<Rightarrow> \<exists>d. load_mint rt (accounts s) m = Inr d) \<and>
       init_account rt own key (8 + vault_init_space) (accounts s) = Inr A \<and>
       60 \<le> sint tmo \<and> sint tmo \<le> 315360000 \<and>
       validate_slots (map slot_of_input inputs) = Inr () \<and>
       sint (unix_timestamp s) + sint tmo < 2 ^ 63 \<and>
       s' = s\<lparr>accounts := A(key := (A key)\<lparr>data := VaultData
         \<lparr>owner = own, vault_id = ident, mint = mnt, last_checkin = unix_timestamp s, timeout_seconds = tmo,
          beneficiaries = fill_slots (replicate 5 beneficiary_default) inputs,
          beneficiary_count = of_nat (length inputs), is_claimed = False, claim_pool = 0, bump = bmp\<rparr>\<rparr>)\<rparr>)"
  by (auto simp: initialize_vault_Inr accounts_initialize_vault_Inr handle_initialize_vault_Inr
      validate_slots_Inr table_of_def store_vault_def MAX_BENEFICIARIES_def split: option.splits)

text \<open>
  A vault that exists is never opened again: opening at the address of any existing vault
  fails, and opening elsewhere leaves the account of every existing vault untouched.
\<close>

theorem vaults_are_opened_once:
  assumes "init_account_law rt" "vault_at (accounts s) k = Some v"
    and "initialize_vault rt signers own key mnt ident tmo inputs s = Inr s'"
  shows "key \<noteq> k \<and> accounts s' k = accounts s k"
proof -
  have same: "accounts s' k = accounts s k" by (rule initialize_vault_kept [OF assms])
  have "key \<noteq> k"
  proof
    assume "key = k"
    with assms(3) obtain A where "init_account rt own k (8 + vault_init_space) (accounts s) = Inr A"
      by (auto simp: initialize_vault_Inr accounts_initialize_vault_Inr)
    then have "data (accounts s k) = NoData" by (rule init_account_tokens(2) [OF assms(1)])
    with assms(2) show False by simp
  qed
  with same show ?thesis by blast
qed

theorem vaults_are_opened_once_witness:
  "1568 \<noteq> (1564 :: pubkey) \<and> accounts sol_other 1564 = accounts sol_funded 1564"
  using vaults_are_opened_once [OF runtime_lawsD(2) [OF sample_laws] sol_vaults(2), of "[5]" 5 1568 None 7 60
      sample_inputs sol_other] sol_other_step by simp

text \<open>
  C28: checking in pushes every claim out by a full timeout. After a successful check-in the
  stored vault differs from before only in the time of the check-in, no other account
  changes, and until that time plus the timeout every claim on it, by anyone, is refused
  with \<open>TimeoutNotReached\<close>.
\<close>

theorem check_in_postpones_claims:
  assumes "vault_at (accounts s) key = Some v" "vault_inv v"
    and "check_in rt signers own key s = Inr s'"
  shows "own \<in> set signers \<and> owner v = own \<and> \<not> is_claimed v \<and>
    vault_at (accounts s') key = Some (v\<lparr>last_checkin := unix_timestamp s\<rparr>) \<and>
    (k = key \<or> accounts s' k = accounts s k) \<and>
    (sint (unix_timestamp s) + sint (timeout_seconds v) \<le> sint now \<or>
     book_claim (v\<lparr>last_checkin := unix_timestamp s\<rparr>) claimant now available = Inl (Dms TimeoutNotReached))"
proof -
  from assms(1,3) obtain v' where v': "own \<in> set signers" "owner v = own" "\<not> is_claimed v"
    "handle_check_in v (unix_timestamp s) = Inr v'" "s' = s\<lparr>accounts := store_vault key v' (accounts s)\<rparr>"
    by (auto simp: check_in_Inr accounts_check_in_Inr load_vault_Inr vault_at_Some)
  let ?v = "v\<lparr>last_checkin := unix_timestamp s\<rparr>"
  have eq: "v' = ?v" and inv: "vault_inv ?v"
    using v'(4) handle_check_in_inv [OF assms(2) v'(4)] by (simp_all add: handle_check_in_Inr [OF assms(2)])
  have "authorize_claim ?v claimant now available = Inl (Dms TimeoutNotReached)"
    if "sint now < sint (unix_timestamp s) + sint (timeout_seconds v)"
    using that by (simp add: authorize_claim_Inl [OF inv])
  then have "sint (unix_timestamp s) + sint (timeout_seconds v) \<le> sint now \<or>
      book_claim ?v claimant now available = Inl (Dms TimeoutNotReached)"
    by (cases "sint now < sint (unix_timestamp s) + sint (timeout_seconds v)") (simp_all add: book_claim_def)
  moreover have "vault_at (accounts s') key = Some ?v" by (simp add: v'(5) eq vault_at_store)
  moreover have "k = key \<or> accounts s' k = accounts s k" by (simp add: v'(5) store_vault_def)
  ultimately show ?thesis using v'(1-3) by blast
qed

theorem check_in_postpones_claims_witness:
  "book_claim ((sample_vault 7 None False False 0)\<lparr>last_checkin := 1800000060\<rparr>) 2 1800000100 1000000
     = Inl (Dms TimeoutNotReached)"
proof -
  have "load_vault sample_rt (accounts sol_late) 1564 = Inr (sample_vault 7 None False False 0)"
    by (rule sample_load) (simp add: sol_late_def sol_funded_def)
  then have "\<exists>s'. check_in sample_rt [1] 1 1564 sol_late = Inr s'"
    using sample_inv [of False False 0 7 None]
    by (simp add: check_in_def accounts_check_in_def handle_check_in_def Let_def deadline_def
        checked_add_i64_def sol_late_def load_signer_def)
  then obtain s' where "check_in sample_rt [1] 1 1564 sol_late = Inr s'" by blast
  from check_in_postpones_claims [OF sol_vaults(3) sample_inv this, of 0 1800000100 2 1000000]
  show ?thesis by (simp add: sol_late_def)
qed

text \<open>
  Amending the heirs is all or nothing. The instruction succeeds exactly when the owner
  signed, the switch has not tripped and the new table is valid; then the stored heirs are
  the given ones, all unpaid, and everything else in the vault and on the chain is as before.
\<close>

theorem set_beneficiaries_iff:
  assumes "load_vault rt (accounts s) key = Inr v"
  shows "set_beneficiaries rt signers own key inputs s = Inr s' \<longleftrightarrow>
    own \<in> set signers \<and> own = owner v \<and> \<not> is_claimed v \<and>
    validate_slots (map slot_of_input inputs) = Inr () \<and>
    (\<exists>v'. v' = v\<lparr>beneficiaries := fill_slots (replicate 5 beneficiary_default) inputs,
                 beneficiary_count := of_nat (length inputs)\<rparr> \<and>
       heirs v' = map slot_of_input inputs \<and> unpaid v' = map slot_of_input inputs \<and>
       s' = s\<lparr>accounts := (accounts s)(key := (accounts s key)\<lparr>data := VaultData v'\<rparr>)\<rparr>)"
proof -
  let ?v = "v\<lparr>beneficiaries := fill_slots (replicate 5 beneficiary_default) inputs,
              beneficiary_count := of_nat (length inputs)\<rparr>"
  have table: "heirs ?v = table_of inputs \<and> unpaid ?v = table_of inputs" if "valid_table (table_of inputs)"
  proof -
    have "length inputs \<le> MAX_BENEFICIARIES" using that by (simp add: valid_table_def table_of_def)
    from new_table(1,2) [OF this, of ?v] show ?thesis by (simp add: MAX_BENEFICIARIES_def)
  qed
  have "set_beneficiaries rt signers own key inputs s = Inr s' \<longleftrightarrow>
      own \<in> set signers \<and> own = owner v \<and> \<not> is_claimed v \<and> valid_table (table_of inputs) \<and>
      s' = s\<lparr>accounts := store_vault key ?v (accounts s)\<rparr>"
    using assms by (auto simp: set_beneficiaries_Inr accounts_set_beneficiaries_Inr
        handle_set_beneficiaries_Inr MAX_BENEFICIARIES_def)
  then show ?thesis
    unfolding validate_slots_Inr table_of_def [symmetric] store_vault_def using table by blast
qed

theorem set_beneficiaries_iff_witness:
  "set_beneficiaries sample_rt [2] 2 1564 sample_inputs sol_late \<noteq> Inr sol_late"
proof -
  have "load_vault sample_rt (accounts sol_late) 1564 = Inr (sample_vault 7 None False False 0)"
    by (rule sample_load) (simp add: sol_late_def sol_funded_def)
  from set_beneficiaries_iff [OF this, of "[2]" 2 sample_inputs sol_late] show ?thesis by simp
qed

text \<open>
  A lamport transfer between two different accounts takes exactly the amount from one and
  gives exactly the amount to the other; it fails with \<open>InsufficientFunds\<close> when the source
  has less, and otherwise with \<open>MathOverflow\<close> when the destination would overflow.
\<close>

theorem move_lamports_spec:
  "src = dst \<or>
   (case move_lamports src dst amount A of
      Inr A' \<Rightarrow> unat (lamports (A' src)) + unat amount = unat (lamports (A src)) \<and>
        unat (lamports (A' dst)) = unat (lamports (A dst)) + unat amount \<and>
        A' = A(src := (A src)\<lparr>lamports := lamports (A' src)\<rparr>, dst := (A dst)\<lparr>lamports := lamports (A' dst)\<rparr>)
    | Inl e \<Rightarrow>
        if lamports (A src) < amount then e = Dms InsufficientFunds
        else 2 ^ 64 \<le> unat (lamports (A dst)) + unat amount \<and> e = Dms MathOverflow)"
proof (cases "move_lamports src dst amount A")
  case (Inl e)
  then have "if lamports (A src) < amount then e = Dms InsufficientFunds
      else 2 ^ 64 \<le> unat (lamports (A dst)) + unat amount \<and> e = Dms MathOverflow"
    by (auto simp: move_lamports_def and_then_eq_Inl checked_simps Let_def word_less_nat_alt)
  then show ?thesis using Inl by (simp split: if_splits)
next
  case (Inr A')
  then have le: "unat amount \<le> unat (lamports (A src))"
    and over: "unat (lamports (A dst)) + unat amount < 2 ^ 64"
    and A': "A' = (A(src := (A src)\<lparr>lamports := lamports (A src) - amount\<rparr>))
            (dst := (if dst = src then A src else A dst)\<lparr>lamports := lamports (A dst) + amount\<rparr>)"
    by (simp_all add: move_lamports_Inr)
  have "unat (lamports (A dst) + amount) = unat (lamports (A dst)) + unat amount"
    using over by (simp add: unat_word_ariths)
  then show ?thesis
    using Inr le by (cases "src = dst") (simp_all add: A' unat_minus_le)
qed

text \<open>
  A withdrawal of lamports from a vault whose account keeps its reserve. It succeeds exactly
  when the owner signed, the vault holds SOL and has not tripped, the amount is positive and
  no more than what is above the reserve, and the owner's account does not overflow; then
  exactly the amount moves and the reserve stays.
\<close>

theorem withdraw_sol_iff:
  assumes "load_vault rt (accounts s) key = Inr v" "own \<noteq> key"
  shows "withdraw_sol rt signers own key amount s = Inr s' \<longleftrightarrow>
    own \<in> set signers \<and> owner v = own \<and> is_sol v \<and> \<not> is_claimed v \<and> 0 < amount \<and>
    unat amount + unat (minimum_balance rt (data_len (accounts s key))) \<le> unat (lamports (accounts s key)) \<and>
    unat (lamports (accounts s own)) + unat amount < 2 ^ 64 \<and>
    s' = s\<lparr>accounts := (accounts s)
      (key := (accounts s key)\<lparr>lamports := lamports (accounts s key) - amount\<rparr>,
       own := (accounts s own)\<lparr>lamports := lamports (accounts s own) + amount\<rparr>)\<rparr>"
proof -
  have pos: "unat amount \<le> unat (lamports (accounts s key)) - unat (minimum_balance rt (data_len (accounts s key))) \<longleftrightarrow>
      unat amount + unat (minimum_balance rt (data_len (accounts s key))) \<le> unat (lamports (accounts s key))"
    if "0 < amount"
    using that unat_gt_0 [of amount] by (auto simp: word_neq_0_conv)
  show ?thesis
    using assms pos
    by (auto simp: withdraw_sol_Inr accounts_withdraw_sol_Inr move_lamports_Inr word_le_nat_alt
        unat_withdrawable)
qed

theorem withdraw_sol_iff_witness:
  "withdraw_sol sample_rt [1] 1 1564 1000001 sol_late \<noteq> Inr sol_late"
proof -
  have "load_vault sample_rt (accounts sol_late) 1564 = Inr (sample_vault 7 None False False 0)"
    by (rule sample_load) (simp add: sol_late_def sol_funded_def)
  from withdraw_sol_iff [OF this, of 1 "[1]" 1000001 sol_late]
  show ?thesis by (simp add: sol_late_def sol_funded_def)
qed

text \<open>
  A deposit of lamports, given the System program's transfer. When it succeeds the owner
  signed, the vault is an armed SOL vault of that owner, the amount is positive, exactly the
  amount leaves the owner and arrives at the vault, and no stored vault changes.
\<close>

theorem deposit_sol_effect:
  assumes "system_transfer_law rt" "own \<noteq> key"
    and "deposit_sol rt signers own key amount s = Inr s'"
  shows "\<exists>v. vault_at (accounts s) key = Some v \<and> owner v = own \<and> own \<in> set signers \<and>
    is_sol v \<and> \<not> is_claimed v \<and> 0 < amount \<and>
    unat (lamports (accounts s' own)) + unat amount = unat (lamports (accounts s own)) \<and>
    unat (lamports (accounts s' key)) = unat (lamports (accounts s key)) + unat amount \<and>
    vault_at (accounts s') = vault_at (accounts s)"
proof -
  from assms(3) obtain v A where v: "vault_at (accounts s) key = Some v" "owner v = own" "own \<in> set signers"
    "is_sol v" "\<not> is_claimed v" "0 < amount"
    and tr: "system_transfer rt own key amount (accounts s) = Inr A" and s': "s' = s\<lparr>accounts := A\<rparr>"
    by (auto simp: deposit_sol_Inr accounts_deposit_sol_Inr load_vault_Inr vault_at_Some)
  have law: "unat amount \<le> unat (lamports (accounts s own))"
    "unat (lamports (accounts s key)) + unat amount < 2 ^ 64"
    "A = (accounts s)(own := (accounts s own)\<lparr>lamports := lamports (accounts s own) - amount\<rparr>,
                      key := (accounts s key)\<lparr>lamports := lamports (accounts s key) + amount\<rparr>)"
    using assms(1,2) tr unfolding system_transfer_law_def by metis+
  have "unat (lamports (accounts s key) + amount) = unat (lamports (accounts s key)) + unat amount"
    using law(2) by (simp add: unat_word_ariths)
  moreover have "vault_at A k = vault_at (accounts s) k" for k
    using vaults_keptD [OF system_transfer_kept [OF assms(1) tr], of k] by (simp add: kept_at_def)
  ultimately show ?thesis
    using v law(1,3) assms(2) by (auto simp: s' unat_minus_le)
qed

theorem deposit_sol_effect_witness:
  "unat (lamports (accounts sol_funded 1564)) = unat (lamports (accounts sol_open 1564)) + 1000000"
  using deposit_sol_effect [OF runtime_lawsD(1) [OF sample_laws], of 1 1564 "[1]" 1000000 sol_open sol_funded]
    sol_deposit_step by auto

section \<open>Closing\<close>

text \<open>
  C29: a SOL vault is closed exactly when its owner signs, nothing above the reserve is left in
  it and the owner's account does not overflow; all its lamports, the reserve, go to the
  owner and the address is empty afterwards. A vault with a remainder is refused with
  \<open>VaultNotEmpty\<close>.
\<close>

theorem close_sol_vault_iff:
  assumes "load_vault rt (accounts s) key = Inr v" "is_sol v" "own \<noteq> key"
  shows "(close_vault rt signers own key None None s = Inr s' \<longleftrightarrow>
    own \<in> set signers \<and> owner v = own \<and>
    lamports (accounts s key) \<le> minimum_balance rt (data_len (accounts s key)) \<and>
    unat (lamports (accounts s own)) + unat (lamports (accounts s key)) < 2 ^ 64 \<and>
    s' = s\<lparr>accounts := (accounts s)
      (own := (accounts s own)\<lparr>lamports := lamports (accounts s own) + lamports (accounts s key)\<rparr>,
       key := \<lparr>lamports = 0, owner_program = system_program rt, data_len = 0, data = NoData\<rparr>)\<rparr>) \<and>
   (if minimum_balance rt (data_len (accounts s key)) < lamports (accounts s key)
    then close_vault rt [owner v] (owner v) key None None s = Inl (Dms VaultNotEmpty) else True)"
proof -
  have empty: "withdrawable_lamports rt (accounts s key) = 0 \<longleftrightarrow>
      lamports (accounts s key) \<le> minimum_balance rt (data_len (accounts s key))"
    by (simp add: unat_eq_0 [symmetric] unat_withdrawable word_le_nat_alt)
  have r: "read_vault (accounts s) key = Inr v" "check_seeds rt key v = Inr ()"
    using assms(1) by (simp_all add: load_vault_read [symmetric])
  have "close_vault rt [owner v] (owner v) key None None s = Inl (Dms VaultNotEmpty)"
    if "minimum_balance rt (data_len (accounts s key)) < lamports (accounts s key)"
    using r assms(2) that empty
    by (simp add: close_vault_def accounts_close_vault_def handle_close_vault_def load_signer_def is_sol_def
        not_le [symmetric])
  moreover have "close_vault rt signers own key None None s = Inr s' \<longleftrightarrow>
     own \<in> set signers \<and> owner v = own \<and> withdrawable_lamports rt (accounts s key) = 0 \<and>
     (\<exists>A. close_to rt key own (accounts s) = Inr A \<and> s' = s\<lparr>accounts := A\<rparr>)"
    using assms by (auto simp: close_vault_Inr accounts_close_vault_Inr handle_close_vault_sol is_sol_def)
  ultimately show ?thesis by (auto simp: empty close_to_Inr)
qed

theorem close_sol_vault_iff_witness:
  "close_vault sample_rt [1] 1 1564 None None sol_tripped = Inl (Dms VaultNotEmpty)"
proof -
  have "load_vault sample_rt (accounts sol_tripped) 1564 = Inr (sample_vault 7 None True False 1000000)"
    by (rule sample_load) (simp add: sol_tripped_def)
  from close_sol_vault_iff [OF this, of 1 "[1]" sol_tripped] show ?thesis by (simp add: sol_tripped_def)
qed

end
