(* ===== verification/Borsh.thy ===== *)
theory Borsh
  imports Prelude
begin

text \<open>
  The byte format of accounts and instruction data (the \<open>BorshSerialize\<close> and
  \<open>BorshDeserialize\<close> derives): integers with the least significant byte first, a byte 0 or 1
  for a boolean, a tag byte before an optional value, the elements of an array one after
  the other, and a 32-bit count before those of a \<open>Vec\<close>. A decoder takes the bytes it needs
  off the front and returns the rest. The locale \<open>codec\<close> is the contract of an
  encoder and a decoder that belong together; every format of the program is shown to
  satisfy it.
\<close>

type_synonym u32 = "32 word"
type_synonym 'a decoder = "u8 list \<Rightarrow> ('a \<times> u8 list) option"

unbundle bit_operations_syntax

named_theorems decode_simps \<open>when a decoder succeeds\<close>

section \<open>The contract\<close>

text \<open>
  A decoder reads exactly the encodings of the valid values, and leaves what follows. One
  equivalence says both directions of the round trip.
\<close>

locale codec =
  fixes valid :: "'a \<Rightarrow> bool"
    and enc :: "'a \<Rightarrow> u8 list"
    and dec :: "'a decoder"
  assumes dec_iff: "dec bs = Some (x, rest) \<longleftrightarrow> valid x \<and> bs = enc x @ rest"
begin

lemma dec_enc: "valid x \<Longrightarrow> dec (enc x @ rest) = Some (x, rest)"
  by (simp add: dec_iff)

lemma dec_exact: "valid x \<Longrightarrow> dec (enc x) = Some (x, [])"
  using dec_enc [of x "[]"] by simp

text \<open>No encoding is a proper prefix of another, so encodings can be put next to each other.\<close>

lemma enc_prefix_free:
  assumes "valid x" "valid y"
  shows "enc x @ bs = enc y @ cs \<longleftrightarrow> x = y \<and> bs = cs"
proof
  assume "enc x @ bs = enc y @ cs"
  then have "Some (x, bs) = Some (y, cs)"
    using dec_enc [OF assms(1), of bs] dec_enc [OF assms(2), of cs] by metis
  then show "x = y \<and> bs = cs" by simp
qed simp

lemma enc_inject: "valid x \<Longrightarrow> valid y \<Longrightarrow> enc x = enc y \<longleftrightarrow> x = y"
  using enc_prefix_free [of x y "[]" "[]"] by simp

lemma dec_shrinks: "dec bs = Some (x, rest) \<Longrightarrow> length rest \<le> length bs"
  by (simp only: dec_iff) simp

end

section \<open>Integers\<close>

fun of_le_bytes :: "u8 list \<Rightarrow> 'a::len word" where
  "of_le_bytes [] = 0"
| "of_le_bytes (b # bs) = ucast b OR push_bit 8 (of_le_bytes bs)"

definition enc_word :: "'a::len word \<Rightarrow> u8 list" where
  "enc_word w = le_bytes (LENGTH('a) div 8) w"

definition dec_word :: "'a::len word decoder" where
  "dec_word bs =
     (let n = LENGTH('a) div 8
      in if length bs < n then None else Some (of_le_bytes (take n bs), drop n bs))"

lemma le_bytes_Suc: "le_bytes (Suc n) w = ucast w # le_bytes n (drop_bit 8 w)"
  by (simp add: le_bytes_def upt_conv_Cons map_Suc_upt [symmetric] algebra_simps del: upt_Suc)

lemma of_le_bytes_le_bytes: "of_le_bytes (le_bytes n w) = take_bit (8 * n) w"
proof (induction n arbitrary: w)
  case (Suc n)
  show ?case
    by (rule bit_eqI) (auto simp: le_bytes_Suc Suc bit_simps)
qed (simp add: le_bytes_def)

lemma of_le_bytes_bound: "take_bit (8 * length bs) (of_le_bytes bs :: 'a::len word) = of_le_bytes bs"
proof (induction bs)
  case (Cons b bs)
  show ?case
  proof (rule bit_eqI)
    fix k
    have "bit (of_le_bytes bs :: 'a word) (k - 8) \<longleftrightarrow>
        k - 8 < 8 * length bs \<and> bit (of_le_bytes bs :: 'a word) (k - 8)"
      by (subst (1) Cons [symmetric]) (simp add: bit_simps)
    then show "bit (take_bit (8 * length (b # bs)) (of_le_bytes (b # bs) :: 'a word)) k \<longleftrightarrow>
        bit (of_le_bytes (b # bs) :: 'a word) k"
      using bit_imp_le_length [of b k] by (auto simp: bit_simps)
  qed
qed simp

lemma le_bytes_of_le_bytes:
  "8 * length bs \<le> LENGTH('a) \<Longrightarrow> le_bytes (length bs) (of_le_bytes bs :: 'a::len word) = bs"
proof (induction bs)
  case (Cons b bs)
  let ?w = "of_le_bytes bs :: 'a word"
  have "ucast (of_le_bytes (b # bs) :: 'a word) = b"
    using Cons.prems by (intro bit_word_eqI) (auto simp: bit_simps)
  moreover have "drop_bit 8 (of_le_bytes (b # bs) :: 'a word) = ?w"
  proof (rule bit_word_eqI)
    fix k
    have "bit ?w k \<longleftrightarrow> k < 8 * length bs \<and> bit ?w k"
      by (subst (1) of_le_bytes_bound [symmetric]) (simp add: bit_simps)
    then show "bit (drop_bit 8 (of_le_bytes (b # bs) :: 'a word)) k \<longleftrightarrow> bit ?w k"
      using Cons.prems bit_imp_le_length [of b "8 + k"] by (auto simp: bit_simps)
  qed
  ultimately show ?case using Cons by (simp add: le_bytes_Suc)
qed (simp add: le_bytes_def)

lemma length_enc_word [simp]: "length (enc_word (w :: 'a::len word)) = LENGTH('a) div 8"
  by (simp add: enc_word_def)

lemma codec_word:
  assumes "8 dvd LENGTH('a)"
  shows "codec (\<lambda>_. True) (enc_word :: 'a::len word \<Rightarrow> u8 list) dec_word"
proof
  fix bs rest and w :: "'a word"
  let ?n = "LENGTH('a) div 8"
  have n: "8 * ?n = LENGTH('a)" using assms by simp
  have "le_bytes ?n (of_le_bytes (take ?n bs) :: 'a word) = take ?n bs" if "?n \<le> length bs"
    using le_bytes_of_le_bytes [where 'a = 'a, of "take ?n bs"] n that by (simp add: min_absorb2)
  moreover have "of_le_bytes (le_bytes ?n w) = w"
    using n by (simp add: of_le_bytes_le_bytes)
  ultimately have "of_le_bytes (take ?n bs) = w \<longleftrightarrow> take ?n bs = le_bytes ?n w" if "?n \<le> length bs"
    using that by metis
  then show "dec_word bs = Some (w, rest) \<longleftrightarrow> True \<and> bs = enc_word w @ rest"
    by (auto simp: dec_word_def enc_word_def Let_def) (metis append_take_drop_id)
qed

interpretation u8: codec "\<lambda>_. True" "enc_word :: u8 \<Rightarrow> u8 list" dec_word
  by (rule codec_word) simp

interpretation u16: codec "\<lambda>_. True" "enc_word :: u16 \<Rightarrow> u8 list" dec_word
  by (rule codec_word) simp

interpretation u32: codec "\<lambda>_. True" "enc_word :: u32 \<Rightarrow> u8 list" dec_word
  by (rule codec_word) simp

interpretation u64: codec "\<lambda>_. True" "enc_word :: u64 \<Rightarrow> u8 list" dec_word
  by (rule codec_word) simp

interpretation pubkey: codec "\<lambda>_. True" "enc_word :: pubkey \<Rightarrow> u8 list" dec_word
  by (rule codec_word) simp

section \<open>Booleans, options and sequences\<close>

definition enc_bool :: "bool \<Rightarrow> u8 list" where
  "enc_bool b = [if b then 1 else 0]"

fun dec_bool :: "bool decoder" where
  "dec_bool [] = None"
| "dec_bool (b # bs) = (if b = 0 then Some (False, bs) else if b = 1 then Some (True, bs) else None)"

definition then_dec :: "'a decoder \<Rightarrow> ('a \<Rightarrow> 'b decoder) \<Rightarrow> 'b decoder" where
  "then_dec d f bs = (case d bs of None \<Rightarrow> None | Some (x, rest) \<Rightarrow> f x rest)"

definition done_dec :: "'a \<Rightarrow> 'a decoder" where
  "done_dec x bs = Some (x, bs)"

definition enc_option :: "('a \<Rightarrow> u8 list) \<Rightarrow> 'a option \<Rightarrow> u8 list" where
  "enc_option e x = (case x of None \<Rightarrow> [0] | Some a \<Rightarrow> 1 # e a)"

definition dec_option :: "'a decoder \<Rightarrow> 'a option decoder" where
  "dec_option d = then_dec dec_bool (\<lambda>some.
     if some then then_dec d (\<lambda>x. done_dec (Some x)) else done_dec None)"

fun dec_array :: "'a decoder \<Rightarrow> nat \<Rightarrow> 'a list decoder" where
  "dec_array d 0 = done_dec []"
| "dec_array d (Suc n) = then_dec d (\<lambda>x. then_dec (dec_array d n) (\<lambda>xs. done_dec (x # xs)))"

definition enc_array :: "('a \<Rightarrow> u8 list) \<Rightarrow> 'a list \<Rightarrow> u8 list" where
  "enc_array e xs = concat (map e xs)"

definition enc_vec :: "('a \<Rightarrow> u8 list) \<Rightarrow> 'a list \<Rightarrow> u8 list" where
  "enc_vec e xs = enc_word (of_nat (length xs) :: u32) @ enc_array e xs"

definition dec_vec :: "'a decoder \<Rightarrow> 'a list decoder" where
  "dec_vec d = then_dec dec_word (\<lambda>n :: u32. dec_array d (unat n))"

lemma then_dec_Some [decode_simps]:
  "then_dec d f bs = Some r \<longleftrightarrow> (\<exists>x rest. d bs = Some (x, rest) \<and> f x rest = Some r)"
  by (auto simp: then_dec_def split: option.splits)

lemma done_dec_Some [decode_simps]: "done_dec x bs = Some (y, rest) \<longleftrightarrow> x = y \<and> bs = rest"
  by (simp add: done_dec_def)

interpretation bool: codec "\<lambda>_. True" enc_bool dec_bool
proof
  show "dec_bool bs = Some (b, rest) \<longleftrightarrow> True \<and> bs = enc_bool b @ rest" for bs b rest
    by (cases bs) (auto simp: enc_bool_def)
qed

lemmas flat_codecs [decode_simps] =
  u8.dec_iff u16.dec_iff u32.dec_iff u64.dec_iff pubkey.dec_iff bool.dec_iff

context codec begin

lemma option_dec_iff:
  "dec_option dec bs = Some (x, rest) \<longleftrightarrow> pred_option valid x \<and> bs = enc_option enc x @ rest"
  by (cases x) (auto simp: dec_option_def enc_option_def enc_bool_def decode_simps dec_iff)

lemma array_dec_iff:
  "dec_array dec n bs = Some (xs, rest) \<longleftrightarrow>
     length xs = n \<and> list_all valid xs \<and> bs = enc_array enc xs @ rest"
proof (induction n arbitrary: bs xs)
  case 0
  then show ?case by (auto simp: decode_simps enc_array_def)
next
  case (Suc n)
  show ?case
    by (cases xs) (auto simp: decode_simps Suc dec_iff enc_array_def)
qed

lemma vec_dec_iff:
  "dec_vec dec bs = Some (xs, rest) \<longleftrightarrow>
     length xs < 2 ^ 32 \<and> list_all valid xs \<and> bs = enc_vec enc xs @ rest"
  using unat_less [where 'a = 32]
  by (auto simp: dec_vec_def enc_vec_def decode_simps array_dec_iff unat_of_nat take_bit_nat_eq_self)

lemma option_codec: "codec (pred_option valid) (enc_option enc) (dec_option dec)"
  by unfold_locales (rule option_dec_iff)

lemma array_codec:
  "codec (\<lambda>xs. length xs = n \<and> list_all valid xs) (enc_array enc) (dec_array dec n)"
  by unfold_locales (simp add: array_dec_iff)

lemma vec_codec:
  "codec (\<lambda>xs. length xs < 2 ^ 32 \<and> list_all valid xs) (enc_vec enc) (dec_vec dec)"
  by unfold_locales (simp add: vec_dec_iff)

end

end
