(* ===== verification/Account_Layout.thy ===== *)
theory Account_Layout
  imports Borsh Vault_State
begin

text \<open>
  How a vault is laid out in the bytes of its account: the eight bytes of Anchor's account
  discriminator, the Borsh encoding of the fields of \<open>Vault\<close> in their order, and zeroes up
  to the size allocated at creation, \<open>8 + Vault::INIT_SPACE\<close>. \<open>save_vault\<close> writes a vault
  over the old bytes, as Anchor does after a handler returns; \<open>parse_vault\<close> reads it back.
\<close>

section \<open>Formats\<close>

definition enc_beneficiary :: "beneficiary \<Rightarrow> u8 list" where
  "enc_beneficiary b = enc_word (address b) @ enc_word (share_bps b) @ enc_bool (claimed b)"

definition dec_beneficiary :: "beneficiary decoder" where
  "dec_beneficiary =
     then_dec dec_word (\<lambda>a. then_dec dec_word (\<lambda>s. then_dec dec_bool (\<lambda>c.
       done_dec \<lparr>address = a, share_bps = s, claimed = c\<rparr>)))"

definition enc_vault :: "vault \<Rightarrow> u8 list" where
  "enc_vault v =
     enc_word (owner v) @ enc_word (vault_id v) @ enc_option enc_word (mint v) @
     enc_word (last_checkin v) @ enc_word (timeout_seconds v) @
     enc_array enc_beneficiary (beneficiaries v) @ enc_word (beneficiary_count v) @
     enc_bool (is_claimed v) @ enc_word (claim_pool v) @ enc_word (bump v)"

definition dec_vault :: "vault decoder" where
  "dec_vault =
     then_dec dec_word (\<lambda>own. then_dec dec_word (\<lambda>ident. then_dec (dec_option dec_word) (\<lambda>mnt.
     then_dec dec_word (\<lambda>last. then_dec dec_word (\<lambda>tmo.
     then_dec (dec_array dec_beneficiary MAX_BENEFICIARIES) (\<lambda>slots. then_dec dec_word (\<lambda>count.
     then_dec dec_bool (\<lambda>tripped. then_dec dec_word (\<lambda>pool. then_dec dec_word (\<lambda>bmp.
       done_dec \<lparr>owner = own, vault_id = ident, mint = mnt, last_checkin = last,
         timeout_seconds = tmo, beneficiaries = slots, beneficiary_count = count,
         is_claimed = tripped, claim_pool = pool, bump = bmp\<rparr>))))))))))"

lemma dec_beneficiary_iff [decode_simps]:
  "dec_beneficiary bs = Some (b, rest) \<longleftrightarrow> bs = enc_beneficiary b @ rest"
  by (cases b) (auto simp: dec_beneficiary_def enc_beneficiary_def decode_simps)

interpretation beneficiary: codec "\<lambda>_. True" enc_beneficiary dec_beneficiary
  by unfold_locales (simp add: dec_beneficiary_iff)

lemmas key_option_dec_iff [decode_simps] = pubkey.option_dec_iff
lemmas heirs_dec_iff [decode_simps] = beneficiary.array_dec_iff

lemma list_all_True [simp]: "list_all (\<lambda>_. True) xs"
  by (simp add: list_all_iff)

lemma pred_option_True [simp]: "pred_option (\<lambda>_. True) x"
  by (cases x) simp_all

lemma dec_vault_iff [decode_simps]:
  "dec_vault bs = Some (v, rest) \<longleftrightarrow>
     length (beneficiaries v) = MAX_BENEFICIARIES \<and> bs = enc_vault v @ rest"
  by (cases v) (auto simp: dec_vault_def enc_vault_def decode_simps)

interpretation vault: codec "\<lambda>v. length (beneficiaries v) = MAX_BENEFICIARIES" enc_vault dec_vault
  by unfold_locales (rule dec_vault_iff)

section \<open>The account\<close>

definition vault_discriminator :: "u8 list" where
  "vault_discriminator = [211, 8, 232, 43, 2, 152, 117, 119]"

definition account_size :: nat where
  "account_size = 8 + vault_init_space"

text \<open>The bytes a save writes, and what a fresh account holds after it.\<close>

definition vault_record :: "vault \<Rightarrow> u8 list" where
  "vault_record v = vault_discriminator @ enc_vault v"

text \<open>A save fails when the account is too small for the record.\<close>

definition save_vault :: "u8 list \<Rightarrow> vault \<Rightarrow> u8 list option" where
  "save_vault old v =
     (if length (vault_record v) \<le> length old
      then Some (vault_record v @ drop (length (vault_record v)) old) else None)"

definition vault_image :: "vault \<Rightarrow> u8 list" where
  "vault_image v = vault_record v @ replicate (account_size - length (vault_record v)) 0"

definition parse_vault :: "u8 list \<Rightarrow> vault option" where
  "parse_vault bs =
     (if take 8 bs = vault_discriminator then map_option fst (dec_vault (drop 8 bs)) else None)"

lemma length_enc_bool [simp]: "length (enc_bool b) = 1"
  by (simp add: enc_bool_def)

lemma length_enc_beneficiary [simp]: "length (enc_beneficiary b) = 35"
  by (simp add: enc_beneficiary_def)

lemma length_enc_array:
  "(\<And>x. x \<in> set xs \<Longrightarrow> length (e x) = n) \<Longrightarrow> length (enc_array e xs) = length xs * n"
  by (induction xs) (simp_all add: enc_array_def)

lemma length_vault_discriminator [simp]: "length vault_discriminator = 8"
  by (simp add: vault_discriminator_def)

lemma account_size_eq: "account_size = 283"
  by (simp add: account_size_def vault_init_space_def beneficiary_init_space_def MAX_BENEFICIARIES_def)

lemma length_vault_record:
  assumes "length (beneficiaries v) = MAX_BENEFICIARIES"
  shows "length (vault_record v) = (if is_sol v then 251 else 283)"
  using assms
  by (auto simp: vault_record_def enc_vault_def length_enc_array enc_option_def is_sol_def MAX_BENEFICIARIES_def
      split: option.splits)

lemma parse_vault_iff:
  "parse_vault bs = Some v \<longleftrightarrow>
     length (beneficiaries v) = MAX_BENEFICIARIES \<and> (\<exists>rest. bs = vault_record v @ rest)"
proof
  assume "parse_vault bs = Some v"
  then show "length (beneficiaries v) = MAX_BENEFICIARIES \<and> (\<exists>rest. bs = vault_record v @ rest)"
    by (auto simp: parse_vault_def vault_record_def dec_vault_iff split: if_splits)
       (metis append_take_drop_id)
next
  assume "length (beneficiaries v) = MAX_BENEFICIARIES \<and> (\<exists>rest. bs = vault_record v @ rest)"
  then show "parse_vault bs = Some v"
    by (auto simp: parse_vault_def vault_record_def vault.dec_enc)
qed

lemma parse_vault_image:
  "length (beneficiaries v) = MAX_BENEFICIARIES \<Longrightarrow> parse_vault (vault_image v) = Some v"
  by (auto simp: parse_vault_iff vault_image_def)

lemma length_vault_image:
  "length (beneficiaries v) = MAX_BENEFICIARIES \<Longrightarrow> length (vault_image v) = account_size"
  by (simp add: vault_image_def length_vault_record account_size_eq)

text \<open>
  As long as the kind of vault does not change, a save over an image gives the image of
  the new vault: nothing of the old one is left behind the record.
\<close>

lemma save_vault_image:
  assumes "length (beneficiaries v) = MAX_BENEFICIARIES" "length (beneficiaries v') = MAX_BENEFICIARIES"
    and "is_sol v' = is_sol v"
  shows "save_vault (vault_image v) v' = Some (vault_image v')"
  using assms by (simp add: save_vault_def vault_image_def length_vault_record account_size_eq)

lemma save_new_vault:
  assumes "length (beneficiaries v) = MAX_BENEFICIARIES"
  shows "save_vault (replicate account_size 0) v = Some (vault_image v)"
  using assms by (simp add: save_vault_def vault_image_def length_vault_record account_size_eq)

end
