(* ===== verification/Client.thy ===== *)
theory Client
  imports Account_Layout
begin

text \<open>
  What the client of \<open>trident-tests/fuzz_0/types.rs\<close> shares between its instructions: the
  account references of a transaction, the struct every instruction is built in, and the
  ids of the programs it names. All ten instruction structs have the same three fields, so
  \<open>client_ix\<close> is one record with the types of the first two as parameters.
\<close>

named_theorems client_defs \<open>the definitions of the client, for running it\<close>

section \<open>Account references\<close>

record account_meta =
  meta_key :: pubkey
  is_signer :: bool
  is_writable :: bool

definition meta_default :: account_meta where
  [client_defs]: "meta_default = \<lparr>meta_key = 0, is_signer = False, is_writable = False\<rparr>"

definition meta_new :: "pubkey \<Rightarrow> bool \<Rightarrow> account_meta" where
  [client_defs]: "meta_new key signer = \<lparr>meta_key = key, is_signer = signer, is_writable = True\<rparr>"

definition meta_new_readonly :: "pubkey \<Rightarrow> bool \<Rightarrow> account_meta" where
  [client_defs]: "meta_new_readonly key signer = \<lparr>meta_key = key, is_signer = signer, is_writable = False\<rparr>"

record tx_instruction =
  tx_program :: pubkey
  tx_metas :: "account_meta list"
  tx_bytes :: "u8 list"

definition new_with_bytes :: "pubkey \<Rightarrow> u8 list \<Rightarrow> account_meta list \<Rightarrow> tx_instruction" where
  [client_defs]: "new_with_bytes pid bs metas = \<lparr>tx_program = pid, tx_metas = metas, tx_bytes = bs\<rparr>"

record ('m, 'd) client_ix =
  ix_accounts :: 'm
  ix_data :: 'd
  ix_remaining :: "account_meta list"

definition remaining_accounts :: "('m, 'd) client_ix \<Rightarrow> account_meta list \<Rightarrow> ('m, 'd) client_ix" where
  [client_defs]: "remaining_accounts self metas = self\<lparr>ix_remaining := metas\<rparr>"

section \<open>Program ids\<close>

text \<open>Keys are given by their 32 bytes; the comment is the base-58 literal of the source.\<close>

definition client_program_id :: pubkey where
  "client_program_id = of_le_bytes
     [132, 25, 150, 88, 217, 70, 0, 32, 6, 10, 74, 126, 226, 177, 61, 161, 143, 189, 62,
      70, 212, 90, 47, 208, 63, 4, 210, 173, 50, 46, 217, 112]"  \<comment> \<open>\<open>9tfSr7zg9bGBfpSqqdwCACiSfAqsbdE4rNnwezFe5Ldm\<close>\<close>

definition associated_token_program_id :: pubkey where
  "associated_token_program_id = of_le_bytes
     [140, 151, 37, 143, 78, 36, 137, 241, 187, 61, 16, 41, 20, 142, 13, 131, 11, 90,
      19, 153, 218, 255, 16, 132, 4, 142, 123, 216, 219, 233, 248, 89]"  \<comment> \<open>\<open>ATokenGPvbdGVxr1b2hvZbsiqW5xWH25efTNsLJA8knL\<close>\<close>

definition system_program_id :: pubkey where
  "system_program_id = of_le_bytes
     [0, 0, 0, 0, 0, 0, 0, 0, 0, 0, 0, 0, 0, 0, 0, 0, 0, 0, 0, 0, 0, 0, 0, 0, 0, 0, 0,
      0, 0, 0, 0, 0]"  \<comment> \<open>\<open>11111111111111111111111111111111\<close>\<close>

section \<open>Constructors of the program's types\<close>

definition beneficiary_new :: "pubkey \<Rightarrow> u16 \<Rightarrow> bool \<Rightarrow> beneficiary" where
  "beneficiary_new a bps paid = \<lparr>address = a, share_bps = bps, claimed = paid\<rparr>"

definition beneficiary_input_new :: "pubkey \<Rightarrow> u16 \<Rightarrow> beneficiary_input" where
  "beneficiary_input_new a bps = \<lparr>input_address = a, input_share_bps = bps\<rparr>"

definition vault_new ::
  "pubkey \<Rightarrow> u64 \<Rightarrow> pubkey option \<Rightarrow> i64 \<Rightarrow> i64 \<Rightarrow> beneficiary list \<Rightarrow> u8 \<Rightarrow> bool \<Rightarrow> u64 \<Rightarrow> u8 \<Rightarrow> vault" where
  "vault_new own ident mnt checkin tmo slots count tripped pool bmp =
     \<lparr>owner = own, vault_id = ident, mint = mnt, last_checkin = checkin, timeout_seconds = tmo,
      beneficiaries = slots, beneficiary_count = count, is_claimed = tripped, claim_pool = pool,
      bump = bmp\<rparr>"

section \<open>Instruction arguments\<close>

definition enc_beneficiary_input :: "beneficiary_input \<Rightarrow> u8 list" where
  "enc_beneficiary_input b = enc_word (input_address b) @ enc_word (input_share_bps b)"

definition dec_beneficiary_input :: "beneficiary_input decoder" where
  "dec_beneficiary_input =
     then_dec dec_word (\<lambda>a. then_dec dec_word (\<lambda>s.
       done_dec \<lparr>input_address = a, input_share_bps = s\<rparr>))"

lemma dec_beneficiary_input_iff [decode_simps]:
  "dec_beneficiary_input bs = Some (b, rest) \<longleftrightarrow> bs = enc_beneficiary_input b @ rest"
  by (cases b) (auto simp: dec_beneficiary_input_def enc_beneficiary_input_def decode_simps)

interpretation beneficiary_input: codec "\<lambda>_. True" enc_beneficiary_input dec_beneficiary_input
  by unfold_locales (simp add: dec_beneficiary_input_iff)

lemmas inputs_dec_iff [decode_simps] = beneficiary_input.vec_dec_iff

end
