(* ===== verification/Client_Sol.thy ===== *)
theory Client_Sol
  imports Client
begin

text \<open>
  The client's instructions for opening, keeping and closing a vault and for SOL vaults, in
  the order of \<open>types.rs\<close>. Each has the structs of its accounts (\<open>_keys\<close> with the keys the
  caller gives, of type \<open>pubkey\<close> or, once resolved, \<open>account_meta\<close>; \<open>_metas\<close> adds the accounts
  with fixed addresses) and of its arguments (\<open>_args\<close>), and the methods \<open>new\<close>,
  \<open>discriminator\<close>, \<open>data\<close>, \<open>accounts\<close>, \<open>to_account_metas\<close> and \<open>instruction\<close>.
\<close>

section \<open>CheckIn\<close>

record 'k check_in_keys =
  ci_owner :: 'k
  ci_vault :: 'k

type_synonym check_in_ix = "(account_meta check_in_keys, unit) client_ix"

definition check_in_keys_new ::
  "pubkey \<Rightarrow> pubkey \<Rightarrow> pubkey check_in_keys" where
  [client_defs]: "check_in_keys_new own key =
     \<lparr>ci_owner = own, ci_vault = key\<rparr>"

definition check_in_args_new :: unit where
  [client_defs]: "check_in_args_new = ()"

definition check_in_discriminator :: "u8 list" where
  [client_defs]: "check_in_discriminator = [209, 253, 4, 217, 250, 241, 207, 50]"

definition check_in_data :: "unit \<Rightarrow> check_in_ix" where
  [client_defs]: "check_in_data args =
     \<lparr>ix_accounts = \<lparr>ci_owner = meta_default, ci_vault = meta_default\<rparr>,
      ix_data = args, ix_remaining = []\<rparr>"

definition check_in_accounts :: "check_in_ix \<Rightarrow> pubkey check_in_keys \<Rightarrow> check_in_ix" where
  [client_defs]: "check_in_accounts self keys = self\<lparr>ix_accounts := (ix_accounts self)
     \<lparr>ci_owner := meta_new_readonly (ci_owner keys) True,
      ci_vault := meta_new (ci_vault keys) False\<rparr>\<rparr>"

definition check_in_to_account_metas :: "check_in_ix \<Rightarrow> account_meta list" where
  [client_defs]: "check_in_to_account_metas self =
     (let a = ix_accounts self
      in [ci_owner a, ci_vault a] @ ix_remaining self)"

definition check_in_instruction :: "check_in_ix \<Rightarrow> tx_instruction" where
  [client_defs]: "check_in_instruction self =
     new_with_bytes client_program_id check_in_discriminator
       (check_in_to_account_metas self)"

section \<open>ClaimSol\<close>

record 'k claim_sol_keys =
  cs_beneficiary :: 'k
  cs_vault :: 'k

type_synonym claim_sol_ix = "(account_meta claim_sol_keys, unit) client_ix"

definition claim_sol_keys_new ::
  "pubkey \<Rightarrow> pubkey \<Rightarrow> pubkey claim_sol_keys" where
  [client_defs]: "claim_sol_keys_new heir key =
     \<lparr>cs_beneficiary = heir, cs_vault = key\<rparr>"

definition claim_sol_args_new :: unit where
  [client_defs]: "claim_sol_args_new = ()"

definition claim_sol_discriminator :: "u8 list" where
  [client_defs]: "claim_sol_discriminator = [139, 113, 179, 189, 190, 30, 132, 195]"

definition claim_sol_data :: "unit \<Rightarrow> claim_sol_ix" where
  [client_defs]: "claim_sol_data args =
     \<lparr>ix_accounts = \<lparr>cs_beneficiary = meta_default, cs_vault = meta_default\<rparr>,
      ix_data = args, ix_remaining = []\<rparr>"

definition claim_sol_accounts :: "claim_sol_ix \<Rightarrow> pubkey claim_sol_keys \<Rightarrow> claim_sol_ix" where
  [client_defs]: "claim_sol_accounts self keys = self\<lparr>ix_accounts := (ix_accounts self)
     \<lparr>cs_beneficiary := meta_new (cs_beneficiary keys) True,
      cs_vault := meta_new (cs_vault keys) False\<rparr>\<rparr>"

definition claim_sol_to_account_metas :: "claim_sol_ix \<Rightarrow> account_meta list" where
  [client_defs]: "claim_sol_to_account_metas self =
     (let a = ix_accounts self
      in [cs_beneficiary a, cs_vault a] @ ix_remaining self)"

definition claim_sol_instruction :: "claim_sol_ix \<Rightarrow> tx_instruction" where
  [client_defs]: "claim_sol_instruction self =
     new_with_bytes client_program_id claim_sol_discriminator
       (claim_sol_to_account_metas self)"

section \<open>CloseVault\<close>

record 'k close_vault_keys =
  cv_owner :: 'k
  cv_vault :: 'k
  cv_vault_token_account :: 'k
  cv_token_program :: 'k

type_synonym close_vault_ix = "(account_meta close_vault_keys, unit) client_ix"

definition close_vault_keys_new ::
  "pubkey \<Rightarrow> pubkey \<Rightarrow> pubkey \<Rightarrow> pubkey \<Rightarrow> pubkey close_vault_keys" where
  [client_defs]: "close_vault_keys_new own key vault_token prog =
     \<lparr>cv_owner = own, cv_vault = key, cv_vault_token_account = vault_token, cv_token_program = prog\<rparr>"

definition close_vault_args_new :: unit where
  [client_defs]: "close_vault_args_new = ()"

definition close_vault_discriminator :: "u8 list" where
  [client_defs]: "close_vault_discriminator = [141, 103, 17, 126, 72, 75, 29, 29]"

definition close_vault_data :: "unit \<Rightarrow> close_vault_ix" where
  [client_defs]: "close_vault_data args =
     \<lparr>ix_accounts = \<lparr>cv_owner = meta_default, cv_vault = meta_default, cv_vault_token_account = meta_default,
                    cv_token_program = meta_default\<rparr>,
      ix_data = args, ix_remaining = []\<rparr>"

definition close_vault_accounts :: "close_vault_ix \<Rightarrow> pubkey close_vault_keys \<Rightarrow> close_vault_ix" where
  [client_defs]: "close_vault_accounts self keys = self\<lparr>ix_accounts := (ix_accounts self)
     \<lparr>cv_owner := meta_new (cv_owner keys) True,
      cv_vault := meta_new (cv_vault keys) False,
      cv_vault_token_account := meta_new (cv_vault_token_account keys) False,
      cv_token_program := meta_new_readonly (cv_token_program keys) False\<rparr>\<rparr>"

definition close_vault_to_account_metas :: "close_vault_ix \<Rightarrow> account_meta list" where
  [client_defs]: "close_vault_to_account_metas self =
     (let a = ix_accounts self
      in [cv_owner a, cv_vault a, cv_vault_token_account a, cv_token_program a] @ ix_remaining self)"

definition close_vault_instruction :: "close_vault_ix \<Rightarrow> tx_instruction" where
  [client_defs]: "close_vault_instruction self =
     new_with_bytes client_program_id close_vault_discriminator
       (close_vault_to_account_metas self)"

section \<open>DepositSol\<close>

record 'k deposit_sol_keys =
  ds_owner :: 'k
  ds_vault :: 'k

record 'k deposit_sol_metas = "'k deposit_sol_keys" +
  ds_system_program :: 'k

record deposit_sol_args =
  ds_amount :: u64

type_synonym deposit_sol_ix = "(account_meta deposit_sol_metas, deposit_sol_args) client_ix"

definition deposit_sol_keys_new ::
  "pubkey \<Rightarrow> pubkey \<Rightarrow> pubkey deposit_sol_keys" where
  [client_defs]: "deposit_sol_keys_new own key =
     \<lparr>ds_owner = own, ds_vault = key\<rparr>"

definition deposit_sol_args_new :: "u64 \<Rightarrow> deposit_sol_args" where
  [client_defs]: "deposit_sol_args_new amount = \<lparr>ds_amount = amount\<rparr>"

definition enc_deposit_sol_args :: "deposit_sol_args \<Rightarrow> u8 list" where
  [client_defs]: "enc_deposit_sol_args args = enc_word (ds_amount args)"

definition deposit_sol_discriminator :: "u8 list" where
  [client_defs]: "deposit_sol_discriminator = [108, 81, 78, 117, 125, 155, 56, 200]"

definition deposit_sol_data :: "deposit_sol_args \<Rightarrow> deposit_sol_ix" where
  [client_defs]: "deposit_sol_data args =
     \<lparr>ix_accounts = \<lparr>ds_owner = meta_default, ds_vault = meta_default, ds_system_program = meta_default\<rparr>,
      ix_data = args, ix_remaining = []\<rparr>"

definition deposit_sol_accounts :: "deposit_sol_ix \<Rightarrow> pubkey deposit_sol_keys \<Rightarrow> deposit_sol_ix" where
  [client_defs]: "deposit_sol_accounts self keys = self\<lparr>ix_accounts := (ix_accounts self)
     \<lparr>ds_owner := meta_new (ds_owner keys) True,
      ds_vault := meta_new (ds_vault keys) False,
      ds_system_program := meta_new_readonly system_program_id False\<rparr>\<rparr>"

definition deposit_sol_to_account_metas :: "deposit_sol_ix \<Rightarrow> account_meta list" where
  [client_defs]: "deposit_sol_to_account_metas self =
     (let a = ix_accounts self
      in [ds_owner a, ds_vault a, ds_system_program a] @ ix_remaining self)"

definition deposit_sol_instruction :: "deposit_sol_ix \<Rightarrow> tx_instruction" where
  [client_defs]: "deposit_sol_instruction self =
     new_with_bytes client_program_id (deposit_sol_discriminator @ enc_deposit_sol_args (ix_data self))
       (deposit_sol_to_account_metas self)"

section \<open>InitializeVault\<close>

record 'k initialize_vault_keys =
  iv_owner :: 'k
  iv_vault :: 'k
  iv_mint :: 'k

record 'k initialize_vault_metas = "'k initialize_vault_keys" +
  iv_system_program :: 'k

record initialize_vault_args =
  iv_vault_id :: u64
  iv_timeout_seconds :: i64
  iv_beneficiaries :: "beneficiary_input list"

type_synonym initialize_vault_ix = "(account_meta initialize_vault_metas, initialize_vault_args) client_ix"

definition initialize_vault_keys_new ::
  "pubkey \<Rightarrow> pubkey \<Rightarrow> pubkey \<Rightarrow> pubkey initialize_vault_keys" where
  [client_defs]: "initialize_vault_keys_new own key mnt =
     \<lparr>iv_owner = own, iv_vault = key, iv_mint = mnt\<rparr>"

definition initialize_vault_args_new :: "u64 \<Rightarrow> i64 \<Rightarrow> beneficiary_input list \<Rightarrow> initialize_vault_args" where
  [client_defs]: "initialize_vault_args_new ident tmo inputs = \<lparr>iv_vault_id = ident, iv_timeout_seconds = tmo, iv_beneficiaries = inputs\<rparr>"

definition enc_initialize_vault_args :: "initialize_vault_args \<Rightarrow> u8 list" where
  [client_defs]: "enc_initialize_vault_args args = enc_word (iv_vault_id args) @
     enc_word (iv_timeout_seconds args) @
     enc_vec enc_beneficiary_input (iv_beneficiaries args)"

definition initialize_vault_discriminator :: "u8 list" where
  [client_defs]: "initialize_vault_discriminator = [48, 191, 163, 44, 71, 129, 63, 164]"

definition initialize_vault_data :: "initialize_vault_args \<Rightarrow> initialize_vault_ix" where
  [client_defs]: "initialize_vault_data args =
     \<lparr>ix_accounts = \<lparr>iv_owner = meta_default, iv_vault = meta_default, iv_mint = meta_default, iv_system_program =
                    meta_default\<rparr>,
      ix_data = args, ix_remaining = []\<rparr>"

definition initialize_vault_accounts :: "initialize_vault_ix \<Rightarrow> pubkey initialize_vault_keys \<Rightarrow> initialize_vault_ix" where
  [client_defs]: "initialize_vault_accounts self keys = self\<lparr>ix_accounts := (ix_accounts self)
     \<lparr>iv_owner := meta_new (iv_owner keys) True,
      iv_vault := meta_new (iv_vault keys) False,
      iv_mint := meta_new_readonly (iv_mint keys) False,
      iv_system_program := meta_new_readonly system_program_id False\<rparr>\<rparr>"

definition initialize_vault_to_account_metas :: "initialize_vault_ix \<Rightarrow> account_meta list" where
  [client_defs]: "initialize_vault_to_account_metas self =
     (let a = ix_accounts self
      in [iv_owner a, iv_vault a, iv_mint a, iv_system_program a] @ ix_remaining self)"

definition initialize_vault_instruction :: "initialize_vault_ix \<Rightarrow> tx_instruction" where
  [client_defs]: "initialize_vault_instruction self =
     new_with_bytes client_program_id (initialize_vault_discriminator @ enc_initialize_vault_args (ix_data self))
       (initialize_vault_to_account_metas self)"

section \<open>SetBeneficiaries\<close>

record 'k set_beneficiaries_keys =
  sb_owner :: 'k
  sb_vault :: 'k

record set_beneficiaries_args =
  sb_beneficiaries :: "beneficiary_input list"

type_synonym set_beneficiaries_ix = "(account_meta set_beneficiaries_keys, set_beneficiaries_args) client_ix"

definition set_beneficiaries_keys_new ::
  "pubkey \<Rightarrow> pubkey \<Rightarrow> pubkey set_beneficiaries_keys" where
  [client_defs]: "set_beneficiaries_keys_new own key =
     \<lparr>sb_owner = own, sb_vault = key\<rparr>"

definition set_beneficiaries_args_new :: "beneficiary_input list \<Rightarrow> set_beneficiaries_args" where
  [client_defs]: "set_beneficiaries_args_new inputs = \<lparr>sb_beneficiaries = inputs\<rparr>"

definition enc_set_beneficiaries_args :: "set_beneficiaries_args \<Rightarrow> u8 list" where
  [client_defs]: "enc_set_beneficiaries_args args = enc_vec enc_beneficiary_input (sb_beneficiaries args)"

definition set_beneficiaries_discriminator :: "u8 list" where
  [client_defs]: "set_beneficiaries_discriminator = [88, 248, 62, 255, 211, 46, 228, 130]"

definition set_beneficiaries_data :: "set_beneficiaries_args \<Rightarrow> set_beneficiaries_ix" where
  [client_defs]: "set_beneficiaries_data args =
     \<lparr>ix_accounts = \<lparr>sb_owner = meta_default, sb_vault = meta_default\<rparr>,
      ix_data = args, ix_remaining = []\<rparr>"

definition set_beneficiaries_accounts :: "set_beneficiaries_ix \<Rightarrow> pubkey set_beneficiaries_keys \<Rightarrow> set_beneficiaries_ix" where
  [client_defs]: "set_beneficiaries_accounts self keys = self\<lparr>ix_accounts := (ix_accounts self)
     \<lparr>sb_owner := meta_new_readonly (sb_owner keys) True,
      sb_vault := meta_new (sb_vault keys) False\<rparr>\<rparr>"

definition set_beneficiaries_to_account_metas :: "set_beneficiaries_ix \<Rightarrow> account_meta list" where
  [client_defs]: "set_beneficiaries_to_account_metas self =
     (let a = ix_accounts self
      in [sb_owner a, sb_vault a] @ ix_remaining self)"

definition set_beneficiaries_instruction :: "set_beneficiaries_ix \<Rightarrow> tx_instruction" where
  [client_defs]: "set_beneficiaries_instruction self =
     new_with_bytes client_program_id (set_beneficiaries_discriminator @ enc_set_beneficiaries_args (ix_data self))
       (set_beneficiaries_to_account_metas self)"

section \<open>WithdrawSol\<close>

record 'k withdraw_sol_keys =
  ws_owner :: 'k
  ws_vault :: 'k

record withdraw_sol_args =
  ws_amount :: u64

type_synonym withdraw_sol_ix = "(account_meta withdraw_sol_keys, withdraw_sol_args) client_ix"

definition withdraw_sol_keys_new ::
  "pubkey \<Rightarrow> pubkey \<Rightarrow> pubkey withdraw_sol_keys" where
  [client_defs]: "withdraw_sol_keys_new own key =
     \<lparr>ws_owner = own, ws_vault = key\<rparr>"

definition withdraw_sol_args_new :: "u64 \<Rightarrow> withdraw_sol_args" where
  [client_defs]: "withdraw_sol_args_new amount = \<lparr>ws_amount = amount\<rparr>"

definition enc_withdraw_sol_args :: "withdraw_sol_args \<Rightarrow> u8 list" where
  [client_defs]: "enc_withdraw_sol_args args = enc_word (ws_amount args)"

definition withdraw_sol_discriminator :: "u8 list" where
  [client_defs]: "withdraw_sol_discriminator = [145, 131, 74, 136, 65, 137, 42, 38]"

definition withdraw_sol_data :: "withdraw_sol_args \<Rightarrow> withdraw_sol_ix" where
  [client_defs]: "withdraw_sol_data args =
     \<lparr>ix_accounts = \<lparr>ws_owner = meta_default, ws_vault = meta_default\<rparr>,
      ix_data = args, ix_remaining = []\<rparr>"

definition withdraw_sol_accounts :: "withdraw_sol_ix \<Rightarrow> pubkey withdraw_sol_keys \<Rightarrow> withdraw_sol_ix" where
  [client_defs]: "withdraw_sol_accounts self keys = self\<lparr>ix_accounts := (ix_accounts self)
     \<lparr>ws_owner := meta_new (ws_owner keys) True,
      ws_vault := meta_new (ws_vault keys) False\<rparr>\<rparr>"

definition withdraw_sol_to_account_metas :: "withdraw_sol_ix \<Rightarrow> account_meta list" where
  [client_defs]: "withdraw_sol_to_account_metas self =
     (let a = ix_accounts self
      in [ws_owner a, ws_vault a] @ ix_remaining self)"

definition withdraw_sol_instruction :: "withdraw_sol_ix \<Rightarrow> tx_instruction" where
  [client_defs]: "withdraw_sol_instruction self =
     new_with_bytes client_program_id (withdraw_sol_discriminator @ enc_withdraw_sol_args (ix_data self))
       (withdraw_sol_to_account_metas self)"

end
