(* ===== verification/Client_Spl.thy ===== *)
theory Client_Spl
  imports Client
begin

text \<open>
  The client's instructions for SPL vaults, built like those of \<open>Client_Sol\<close>.
\<close>

section \<open>ClaimSpl\<close>

record 'k claim_spl_keys =
  ct_beneficiary :: 'k
  ct_vault :: 'k
  ct_mint :: 'k
  ct_vault_token_account :: 'k
  ct_beneficiary_token_account :: 'k
  ct_token_program :: 'k

record 'k claim_spl_metas = "'k claim_spl_keys" +
  ct_associated_token_program :: 'k
  ct_system_program :: 'k

type_synonym claim_spl_ix = "(account_meta claim_spl_metas, unit) client_ix"

definition claim_spl_keys_new ::
  "pubkey \<Rightarrow> pubkey \<Rightarrow> pubkey \<Rightarrow> pubkey \<Rightarrow> pubkey \<Rightarrow> pubkey \<Rightarrow> pubkey claim_spl_keys" where
  [client_defs]: "claim_spl_keys_new heir key mnt vault_token heir_token prog =
     \<lparr>ct_beneficiary = heir, ct_vault = key, ct_mint = mnt, ct_vault_token_account = vault_token,
      ct_beneficiary_token_account = heir_token, ct_token_program = prog\<rparr>"

definition claim_spl_args_new :: unit where
  [client_defs]: "claim_spl_args_new = ()"

definition claim_spl_discriminator :: "u8 list" where
  [client_defs]: "claim_spl_discriminator = [178, 141, 219, 41, 138, 211, 162, 60]"

definition claim_spl_data :: "unit \<Rightarrow> claim_spl_ix" where
  [client_defs]: "claim_spl_data args =
     \<lparr>ix_accounts = \<lparr>ct_beneficiary = meta_default, ct_vault = meta_default, ct_mint = meta_default,
                    ct_vault_token_account = meta_default, ct_beneficiary_token_account =
                    meta_default, ct_token_program = meta_default, ct_associated_token_program =
                    meta_default, ct_system_program = meta_default\<rparr>,
      ix_data = args, ix_remaining = []\<rparr>"

definition claim_spl_accounts :: "claim_spl_ix \<Rightarrow> pubkey claim_spl_keys \<Rightarrow> claim_spl_ix" where
  [client_defs]: "claim_spl_accounts self keys = self\<lparr>ix_accounts := (ix_accounts self)
     \<lparr>ct_beneficiary := meta_new (ct_beneficiary keys) True,
      ct_vault := meta_new (ct_vault keys) False,
      ct_mint := meta_new_readonly (ct_mint keys) False,
      ct_vault_token_account := meta_new (ct_vault_token_account keys) False,
      ct_beneficiary_token_account := meta_new (ct_beneficiary_token_account keys) False,
      ct_token_program := meta_new_readonly (ct_token_program keys) False,
      ct_associated_token_program := meta_new_readonly associated_token_program_id False,
      ct_system_program := meta_new_readonly system_program_id False\<rparr>\<rparr>"

definition claim_spl_to_account_metas :: "claim_spl_ix \<Rightarrow> account_meta list" where
  [client_defs]: "claim_spl_to_account_metas self =
     (let a = ix_accounts self
      in [ct_beneficiary a, ct_vault a, ct_mint a, ct_vault_token_account a, ct_beneficiary_token_account
          a, ct_token_program a, ct_associated_token_program a, ct_system_program a] @ ix_remaining self)"

definition claim_spl_instruction :: "claim_spl_ix \<Rightarrow> tx_instruction" where
  [client_defs]: "claim_spl_instruction self =
     new_with_bytes client_program_id claim_spl_discriminator
       (claim_spl_to_account_metas self)"

section \<open>DepositSpl\<close>

record 'k deposit_spl_keys =
  dt_owner :: 'k
  dt_vault :: 'k
  dt_mint :: 'k
  dt_owner_token_account :: 'k
  dt_vault_token_account :: 'k
  dt_token_program :: 'k

record 'k deposit_spl_metas = "'k deposit_spl_keys" +
  dt_associated_token_program :: 'k
  dt_system_program :: 'k

record deposit_spl_args =
  dt_amount :: u64

type_synonym deposit_spl_ix = "(account_meta deposit_spl_metas, deposit_spl_args) client_ix"

definition deposit_spl_keys_new ::
  "pubkey \<Rightarrow> pubkey \<Rightarrow> pubkey \<Rightarrow> pubkey \<Rightarrow> pubkey \<Rightarrow> pubkey \<Rightarrow> pubkey deposit_spl_keys" where
  [client_defs]: "deposit_spl_keys_new own key mnt owner_token vault_token prog =
     \<lparr>dt_owner = own, dt_vault = key, dt_mint = mnt, dt_owner_token_account = owner_token,
      dt_vault_token_account = vault_token, dt_token_program = prog\<rparr>"

definition deposit_spl_args_new :: "u64 \<Rightarrow> deposit_spl_args" where
  [client_defs]: "deposit_spl_args_new amount = \<lparr>dt_amount = amount\<rparr>"

definition enc_deposit_spl_args :: "deposit_spl_args \<Rightarrow> u8 list" where
  [client_defs]: "enc_deposit_spl_args args = enc_word (dt_amount args)"

definition deposit_spl_discriminator :: "u8 list" where
  [client_defs]: "deposit_spl_discriminator = [224, 0, 198, 175, 198, 47, 105, 204]"

definition deposit_spl_data :: "deposit_spl_args \<Rightarrow> deposit_spl_ix" where
  [client_defs]: "deposit_spl_data args =
     \<lparr>ix_accounts = \<lparr>dt_owner = meta_default, dt_vault = meta_default, dt_mint = meta_default, dt_owner_token_account
                    = meta_default, dt_vault_token_account = meta_default, dt_token_program =
                    meta_default, dt_associated_token_program = meta_default, dt_system_program
                    = meta_default\<rparr>,
      ix_data = args, ix_remaining = []\<rparr>"

definition deposit_spl_accounts :: "deposit_spl_ix \<Rightarrow> pubkey deposit_spl_keys \<Rightarrow> deposit_spl_ix" where
  [client_defs]: "deposit_spl_accounts self keys = self\<lparr>ix_accounts := (ix_accounts self)
     \<lparr>dt_owner := meta_new (dt_owner keys) True,
      dt_vault := meta_new (dt_vault keys) False,
      dt_mint := meta_new_readonly (dt_mint keys) False,
      dt_owner_token_account := meta_new (dt_owner_token_account keys) False,
      dt_vault_token_account := meta_new (dt_vault_token_account keys) False,
      dt_token_program := meta_new_readonly (dt_token_program keys) False,
      dt_associated_token_program := meta_new_readonly associated_token_program_id False,
      dt_system_program := meta_new_readonly system_program_id False\<rparr>\<rparr>"

definition deposit_spl_to_account_metas :: "deposit_spl_ix \<Rightarrow> account_meta list" where
  [client_defs]: "deposit_spl_to_account_metas self =
     (let a = ix_accounts self
      in [dt_owner a, dt_vault a, dt_mint a, dt_owner_token_account a, dt_vault_token_account a,
          dt_token_program a, dt_associated_token_program a, dt_system_program a] @ ix_remaining self)"

definition deposit_spl_instruction :: "deposit_spl_ix \<Rightarrow> tx_instruction" where
  [client_defs]: "deposit_spl_instruction self =
     new_with_bytes client_program_id (deposit_spl_discriminator @ enc_deposit_spl_args (ix_data self))
       (deposit_spl_to_account_metas self)"

section \<open>WithdrawSpl\<close>

record 'k withdraw_spl_keys =
  wt_owner :: 'k
  wt_vault :: 'k
  wt_mint :: 'k
  wt_vault_token_account :: 'k
  wt_owner_token_account :: 'k
  wt_token_program :: 'k

record 'k withdraw_spl_metas = "'k withdraw_spl_keys" +
  wt_associated_token_program :: 'k
  wt_system_program :: 'k

record withdraw_spl_args =
  wt_amount :: u64

type_synonym withdraw_spl_ix = "(account_meta withdraw_spl_metas, withdraw_spl_args) client_ix"

definition withdraw_spl_keys_new ::
  "pubkey \<Rightarrow> pubkey \<Rightarrow> pubkey \<Rightarrow> pubkey \<Rightarrow> pubkey \<Rightarrow> pubkey \<Rightarrow> pubkey withdraw_spl_keys" where
  [client_defs]: "withdraw_spl_keys_new own key mnt vault_token owner_token prog =
     \<lparr>wt_owner = own, wt_vault = key, wt_mint = mnt, wt_vault_token_account = vault_token,
      wt_owner_token_account = owner_token, wt_token_program = prog\<rparr>"

definition withdraw_spl_args_new :: "u64 \<Rightarrow> withdraw_spl_args" where
  [client_defs]: "withdraw_spl_args_new amount = \<lparr>wt_amount = amount\<rparr>"

definition enc_withdraw_spl_args :: "withdraw_spl_args \<Rightarrow> u8 list" where
  [client_defs]: "enc_withdraw_spl_args args = enc_word (wt_amount args)"

definition withdraw_spl_discriminator :: "u8 list" where
  [client_defs]: "withdraw_spl_discriminator = [181, 154, 94, 86, 62, 115, 6, 186]"

definition withdraw_spl_data :: "withdraw_spl_args \<Rightarrow> withdraw_spl_ix" where
  [client_defs]: "withdraw_spl_data args =
     \<lparr>ix_accounts = \<lparr>wt_owner = meta_default, wt_vault = meta_default, wt_mint = meta_default, wt_vault_token_account
                    = meta_default, wt_owner_token_account = meta_default, wt_token_program =
                    meta_default, wt_associated_token_program = meta_default, wt_system_program
                    = meta_default\<rparr>,
      ix_data = args, ix_remaining = []\<rparr>"

definition withdraw_spl_accounts :: "withdraw_spl_ix \<Rightarrow> pubkey withdraw_spl_keys \<Rightarrow> withdraw_spl_ix" where
  [client_defs]: "withdraw_spl_accounts self keys = self\<lparr>ix_accounts := (ix_accounts self)
     \<lparr>wt_owner := meta_new (wt_owner keys) True,
      wt_vault := meta_new (wt_vault keys) False,
      wt_mint := meta_new_readonly (wt_mint keys) False,
      wt_vault_token_account := meta_new (wt_vault_token_account keys) False,
      wt_owner_token_account := meta_new (wt_owner_token_account keys) False,
      wt_token_program := meta_new_readonly (wt_token_program keys) False,
      wt_associated_token_program := meta_new_readonly associated_token_program_id False,
      wt_system_program := meta_new_readonly system_program_id False\<rparr>\<rparr>"

definition withdraw_spl_to_account_metas :: "withdraw_spl_ix \<Rightarrow> account_meta list" where
  [client_defs]: "withdraw_spl_to_account_metas self =
     (let a = ix_accounts self
      in [wt_owner a, wt_vault a, wt_mint a, wt_vault_token_account a, wt_owner_token_account a,
          wt_token_program a, wt_associated_token_program a, wt_system_program a] @ ix_remaining self)"

definition withdraw_spl_instruction :: "withdraw_spl_ix \<Rightarrow> tx_instruction" where
  [client_defs]: "withdraw_spl_instruction self =
     new_with_bytes client_program_id (withdraw_spl_discriminator @ enc_withdraw_spl_args (ix_data self))
       (withdraw_spl_to_account_metas self)"

end
