(* ===== verification/Wire.thy ===== *)
theory Wire
  imports Client_Sol Client_Spl Program
begin

text \<open>
  From the bytes of a transaction to the program's entry points, and back. \<open>route\<close> is what
  the \<open>#[program]\<close> and \<open>#[derive(Accounts)]\<close> attributes ask Anchor to do before a handler
  runs: choose the entry point by the first eight bytes, parse the arguments, take the
  accounts in the order of the struct, insist on \<open>mut\<close> and on the fixed programs, and read
  the program's own id as an omitted optional account. \<open>client_instruction\<close> is how the
  fuzz harness builds each instruction with the client of \<open>types.rs\<close>.
\<close>

section \<open>The program's side\<close>

text \<open>What an accounts struct asks of the account reference at each position.\<close>

datatype slot =
    Any
  | Mutable
  | Fixed pubkey
  | OptionalMutable

definition check_in_slots :: "slot list" where
  "check_in_slots = [Any, Mutable]"

definition claim_sol_slots :: "slot list" where
  "claim_sol_slots = [Mutable, Mutable]"

definition claim_spl_slots :: "slot list" where
  "claim_spl_slots = [Mutable, Mutable, Any, Mutable, Mutable, Any,
     Fixed associated_token_program_id, Fixed system_program_id]"

definition close_vault_slots :: "slot list" where
  "close_vault_slots = [Mutable, Mutable, OptionalMutable, Any]"

definition deposit_sol_slots :: "slot list" where
  "deposit_sol_slots = [Mutable, Mutable, Fixed system_program_id]"

definition deposit_spl_slots :: "slot list" where
  "deposit_spl_slots = [Mutable, Mutable, Any, Mutable, Mutable, Any,
     Fixed associated_token_program_id, Fixed system_program_id]"

definition initialize_vault_slots :: "slot list" where
  "initialize_vault_slots = [Mutable, Mutable, Any, Fixed system_program_id]"

definition set_beneficiaries_slots :: "slot list" where
  "set_beneficiaries_slots = [Any, Mutable]"

definition withdraw_sol_slots :: "slot list" where
  "withdraw_sol_slots = [Mutable, Mutable]"

definition withdraw_spl_slots :: "slot list" where
  "withdraw_spl_slots = [Mutable, Mutable, Any, Mutable, Mutable, Any,
     Fixed associated_token_program_id, Fixed system_program_id]"

text \<open>
  The privileges of a key are those of any of its references in the instruction.
\<close>

definition signer_keys :: "tx_instruction \<Rightarrow> pubkey list" where
  "signer_keys tx = map meta_key (filter is_signer (tx_metas tx))"

definition writable_keys :: "tx_instruction \<Rightarrow> pubkey list" where
  "writable_keys tx = map meta_key (filter is_writable (tx_metas tx))"

fun slot_ok :: "pubkey \<Rightarrow> pubkey list \<Rightarrow> slot \<Rightarrow> pubkey \<Rightarrow> bool" where
  "slot_ok pid writable Any k = True"
| "slot_ok pid writable Mutable k = (k \<in> set writable)"
| "slot_ok pid writable (Fixed p) k = (k = p)"
| "slot_ok pid writable OptionalMutable k = (k = pid \<or> k \<in> set writable)"

fun take_accounts ::
  "pubkey \<Rightarrow> pubkey list \<Rightarrow> slot list \<Rightarrow> account_meta list \<Rightarrow> pubkey list option" where
  "take_accounts pid writable [] metas = Some []"
| "take_accounts pid writable (s # ss) [] = None"
| "take_accounts pid writable (s # ss) (m # ms) =
     (if slot_ok pid writable s (meta_key m)
      then map_option ((#) (meta_key m)) (take_accounts pid writable ss ms) else None)"

definition optional_key :: "pubkey \<Rightarrow> pubkey \<Rightarrow> pubkey option" where
  "optional_key pid k = (if k = pid then None else Some k)"

text \<open>The arguments of an entry point; bytes after them are not looked at.\<close>

definition dec_initialize_args :: "(u64 \<times> i64 \<times> beneficiary_input list) decoder" where
  "dec_initialize_args = then_dec dec_word (\<lambda>ident. then_dec dec_word (\<lambda>tmo.
     then_dec (dec_vec dec_beneficiary_input) (\<lambda>inputs. done_dec (ident, tmo, inputs))))"

definition with_args :: "'a decoder \<Rightarrow> u8 list \<Rightarrow> ('a \<Rightarrow> 'b option) \<Rightarrow> 'b option" where
  "with_args d bs f = Option.bind (d bs) (\<lambda>(a, rest). f a)"

definition route :: "runtime \<Rightarrow> tx_instruction \<Rightarrow> (pubkey list \<times> instruction) option" where
  "route rt tx =
     (let pid = program_id rt;
          tag = take 8 (tx_bytes tx);
          args = drop 8 (tx_bytes tx);
          accs = (\<lambda>slots f. map_option (\<lambda>ks. (signer_keys tx, f (\<lambda>i. ks ! i)))
                    (take_accounts pid (writable_keys tx) slots (tx_metas tx)))
      in if tx_program tx \<noteq> pid then None
         else if tag = initialize_vault_discriminator then
           with_args dec_initialize_args args (\<lambda>(ident, tmo, inputs).
             accs initialize_vault_slots (\<lambda>k.
               InitializeVault (k 0) (k 1) (optional_key pid (k 2)) ident tmo inputs))
         else if tag = deposit_sol_discriminator then
           with_args dec_word args (\<lambda>amount. accs deposit_sol_slots (\<lambda>k. DepositSol (k 0) (k 1) amount))
         else if tag = deposit_spl_discriminator then
           with_args dec_word args (\<lambda>amount.
             accs deposit_spl_slots (\<lambda>k. DepositSpl (k 0) (k 1) (k 2) (k 3) (k 4) (k 5) amount))
         else if tag = check_in_discriminator then
           accs check_in_slots (\<lambda>k. CheckIn (k 0) (k 1))
         else if tag = set_beneficiaries_discriminator then
           with_args (dec_vec dec_beneficiary_input) args (\<lambda>inputs.
             accs set_beneficiaries_slots (\<lambda>k. SetBeneficiaries (k 0) (k 1) inputs))
         else if tag = withdraw_sol_discriminator then
           with_args dec_word args (\<lambda>amount. accs withdraw_sol_slots (\<lambda>k. WithdrawSol (k 0) (k 1) amount))
         else if tag = withdraw_spl_discriminator then
           with_args dec_word args (\<lambda>amount.
             accs withdraw_spl_slots (\<lambda>k. WithdrawSpl (k 0) (k 1) (k 2) (k 3) (k 4) (k 5) amount))
         else if tag = claim_sol_discriminator then
           accs claim_sol_slots (\<lambda>k. ClaimSol (k 0) (k 1))
         else if tag = claim_spl_discriminator then
           accs claim_spl_slots (\<lambda>k. ClaimSpl (k 0) (k 1) (k 2) (k 3) (k 4) (k 5))
         else if tag = close_vault_discriminator then
           accs close_vault_slots (\<lambda>k.
             CloseVault (k 0) (k 1) (optional_key pid (k 2)) (optional_key pid (k 3)))
         else None)"

section \<open>The client's side\<close>

text \<open>An optional account that is left out is passed as the program's own id.\<close>

definition account_or_program :: "pubkey option \<Rightarrow> pubkey" where
  "account_or_program k = (case k of None \<Rightarrow> client_program_id | Some a \<Rightarrow> a)"

fun client_instruction :: "instruction \<Rightarrow> tx_instruction" where
  "client_instruction (InitializeVault own key mnt ident tmo inputs) =
     initialize_vault_instruction
       (initialize_vault_accounts (initialize_vault_data (initialize_vault_args_new ident tmo inputs))
          (initialize_vault_keys_new own key (account_or_program mnt)))"
| "client_instruction (DepositSol own key amount) =
     deposit_sol_instruction
       (deposit_sol_accounts (deposit_sol_data (deposit_sol_args_new amount))
          (deposit_sol_keys_new own key))"
| "client_instruction (DepositSpl own key mnt own_token vault_token prog amount) =
     deposit_spl_instruction
       (deposit_spl_accounts (deposit_spl_data (deposit_spl_args_new amount))
          (deposit_spl_keys_new own key mnt own_token vault_token prog))"
| "client_instruction (CheckIn own key) =
     check_in_instruction
       (check_in_accounts (check_in_data check_in_args_new) (check_in_keys_new own key))"
| "client_instruction (SetBeneficiaries own key inputs) =
     set_beneficiaries_instruction
       (set_beneficiaries_accounts (set_beneficiaries_data (set_beneficiaries_args_new inputs))
          (set_beneficiaries_keys_new own key))"
| "client_instruction (WithdrawSol own key amount) =
     withdraw_sol_instruction
       (withdraw_sol_accounts (withdraw_sol_data (withdraw_sol_args_new amount))
          (withdraw_sol_keys_new own key))"
| "client_instruction (WithdrawSpl own key mnt vault_token own_token prog amount) =
     withdraw_spl_instruction
       (withdraw_spl_accounts (withdraw_spl_data (withdraw_spl_args_new amount))
          (withdraw_spl_keys_new own key mnt vault_token own_token prog))"
| "client_instruction (ClaimSol claimant key) =
     claim_sol_instruction
       (claim_sol_accounts (claim_sol_data claim_sol_args_new) (claim_sol_keys_new claimant key))"
| "client_instruction (ClaimSpl claimant key mnt vault_token claimant_token prog) =
     claim_spl_instruction
       (claim_spl_accounts (claim_spl_data claim_spl_args_new)
          (claim_spl_keys_new claimant key mnt vault_token claimant_token prog))"
| "client_instruction (CloseVault own key vault_token prog) =
     close_vault_instruction
       (close_vault_accounts (close_vault_data close_vault_args_new)
          (close_vault_keys_new own key (account_or_program vault_token) (account_or_program prog)))"

section \<open>Which accounts an instruction writes\<close>

definition writes_only :: "pubkey list \<Rightarrow> ledger \<Rightarrow> ledger \<Rightarrow> bool" where
  "writes_only ks A A' \<longleftrightarrow> (\<forall>k. k \<notin> set ks \<longrightarrow> A' k = A k)"

lemma writes_only_trans:
  "writes_only ks A B \<Longrightarrow> writes_only ks B C \<Longrightarrow> writes_only ks A C"
  by (simp add: writes_only_def)

lemma writes_store: "key \<in> set ks \<Longrightarrow> writes_only ks A (store_vault key v A)"
  by (simp add: writes_only_def store_vault_def)

lemma writes_refl: "writes_only ks A A"
  by (simp add: writes_only_def)

lemma writes_move:
  "move_lamports src dst amount A = Inr A' \<Longrightarrow> src \<in> set ks \<Longrightarrow> dst \<in> set ks \<Longrightarrow> writes_only ks A A'"
  by (auto simp: move_lamports_Inr writes_only_def)

lemma writes_system_transfer:
  "system_transfer_law rt \<Longrightarrow> system_transfer rt src dst amount A = Inr A' \<Longrightarrow>
     src \<in> set ks \<Longrightarrow> dst \<in> set ks \<Longrightarrow> writes_only ks A A'"
  unfolding system_transfer_law_def writes_only_def by (metis fun_upd_apply)

lemma writes_init:
  "init_account_law rt \<Longrightarrow> init_account rt payer key space A = Inr A' \<Longrightarrow>
     payer \<in> set ks \<Longrightarrow> key \<in> set ks \<Longrightarrow> writes_only ks A A'"
  unfolding init_account_law_def writes_only_def by metis

lemma writes_create:
  assumes "create_associated_law rt" "create_associated rt payer key wallet mnt prog A = Inr A'"
    and "payer \<in> set ks" "key \<in> set ks"
  shows "writes_only ks A A'"
  unfolding writes_only_def
proof (intro allI impI)
  fix k assume "k \<notin> set ks"
  with assms obtain l where "A' k = (A k)\<lparr>lamports := l\<rparr>" "l = lamports (A k)"
    unfolding create_associated_law_def by metis
  then show "A' k = A k" by simp
qed

lemma writes_init_if_needed:
  "create_associated_law rt \<Longrightarrow> init_if_needed_associated rt A key payer wallet mnt prog = Inr A' \<Longrightarrow>
     payer \<in> set ks \<Longrightarrow> key \<in> set ks \<Longrightarrow> writes_only ks A A'"
  by (auto simp: init_if_needed_associated_Inr writes_refl intro: writes_create split: if_splits)

lemma writes_transfer_checked:
  "transfer_checked_law rt \<Longrightarrow> transfer_checked rt prog src mnt dst auth amount dec A = Inr A' \<Longrightarrow>
     src \<in> set ks \<Longrightarrow> dst \<in> set ks \<Longrightarrow> writes_only ks A A'"
  unfolding transfer_checked_law_def writes_only_def by (elim allE impE exE conjE) (assumption, auto)

lemma writes_close_token:
  "close_token_account_law rt \<Longrightarrow> close_token_account rt prog key dst auth A = Inr A' \<Longrightarrow>
     key \<in> set ks \<Longrightarrow> dst \<in> set ks \<Longrightarrow> writes_only ks A A'"
  unfolding close_token_account_law_def writes_only_def by metis

lemma writes_close_to:
  "close_to rt key dst A = Inr A' \<Longrightarrow> key \<in> set ks \<Longrightarrow> dst \<in> set ks \<Longrightarrow> writes_only ks A A'"
  by (auto simp: close_to_Inr writes_only_def)

text \<open>The keys an instruction may write, as its accounts struct declares them with \<open>mut\<close>.\<close>

fun mutable_keys :: "instruction \<Rightarrow> pubkey list" where
  "mutable_keys (InitializeVault own key mnt ident tmo inputs) = [own, key]"
| "mutable_keys (DepositSol own key amount) = [own, key]"
| "mutable_keys (DepositSpl own key mnt own_token vault_token prog amount) =
     [own, key, own_token, vault_token]"
| "mutable_keys (CheckIn own key) = [key]"
| "mutable_keys (SetBeneficiaries own key inputs) = [key]"
| "mutable_keys (WithdrawSol own key amount) = [own, key]"
| "mutable_keys (WithdrawSpl own key mnt vault_token own_token prog amount) =
     [own, key, vault_token, own_token]"
| "mutable_keys (ClaimSol claimant key) = [claimant, key]"
| "mutable_keys (ClaimSpl claimant key mnt vault_token claimant_token prog) =
     [claimant, key, vault_token, claimant_token]"
| "mutable_keys (CloseVault own key vault_token prog) =
     own # key # (case vault_token of None \<Rightarrow> [] | Some k \<Rightarrow> [k])"

lemma handle_close_vault_writes:
  assumes "close_token_account_law rt"
    and "accounts_close_vault rt signers own key vault_token prog A = Inr (v, tok)"
    and "handle_close_vault rt own key v tok prog A = Inr A'"
  shows "writes_only (mutable_keys (CloseVault own key vault_token prog)) A A'"
proof (cases "mint v")
  case None
  then show ?thesis using assms(3) by (simp add: handle_close_vault_sol writes_refl)
next
  case (Some m)
  with assms(2,3) obtain k t p where "vault_token = Some k"
    "close_token_account rt p k own key A = Inr A'"
    by (auto simp: accounts_close_vault_Inr handle_close_vault_def and_then_eq_Inr split: option.splits if_splits)
  with assms(1) show ?thesis by (auto intro!: writes_close_token [OF assms(1)])
qed

theorem dispatch_writes:
  assumes "runtime_laws rt" "dispatch rt signers ix s = Inr s'"
  shows "writes_only (mutable_keys ix) (accounts s) (accounts s')"
proof -
  note laws = runtime_lawsD [OF assms(1)]
  show ?thesis
  proof (cases ix)
    case (InitializeVault own key mnt ident tmo inputs)
    then show ?thesis using assms(2) laws
      by (auto simp: initialize_vault_Inr accounts_initialize_vault_Inr
          intro!: writes_only_trans [OF writes_init [OF laws(2)] writes_store])
  next
    case (DepositSol own key amount)
    then show ?thesis using assms(2) laws by (auto simp: deposit_sol_Inr intro!: writes_system_transfer [OF laws(1)])
  next
    case (DepositSpl own key mnt own_token vault_token prog amount)
    then show ?thesis using assms(2) laws
      by (auto simp: deposit_spl_Inr accounts_deposit_spl_Inr
          intro!: writes_only_trans [OF writes_init_if_needed [OF laws(3)] writes_transfer_checked [OF laws(4)]])
  next
    case (CheckIn own key)
    then show ?thesis using assms(2) by (auto simp: check_in_Inr intro!: writes_store)
  next
    case (SetBeneficiaries own key inputs)
    then show ?thesis using assms(2) by (auto simp: set_beneficiaries_Inr intro!: writes_store)
  next
    case (WithdrawSol own key amount)
    then show ?thesis using assms(2) by (auto simp: withdraw_sol_Inr intro!: writes_move)
  next
    case (WithdrawSpl own key mnt vault_token own_token prog amount)
    then show ?thesis using assms(2) laws
      by (auto simp: withdraw_spl_Inr accounts_withdraw_spl_Inr
          intro!: writes_only_trans [OF writes_init_if_needed [OF laws(3)] writes_transfer_checked [OF laws(4)]])
  next
    case (ClaimSol claimant key)
    then show ?thesis using assms(2)
      by (auto simp: claim_sol_Inr intro!: writes_only_trans [OF writes_move writes_store])
  next
    case (ClaimSpl claimant key mnt vault_token claimant_token prog)
    then show ?thesis using assms(2) laws
      by (auto simp: claim_spl_Inr accounts_claim_spl_Inr
          intro!: writes_only_trans [OF writes_only_trans writes_store,
            OF writes_init_if_needed [OF laws(3)] writes_transfer_checked [OF laws(4)]])
  next
    case (CloseVault own key vault_token prog)
    with assms(2) obtain v tok A where
      acc: "accounts_close_vault rt signers own key vault_token prog (accounts s) = Inr (v, tok)"
        "handle_close_vault rt own key v tok prog (accounts s) = Inr A"
      and cl: "close_to rt key own A = Inr (accounts s')"
      by (auto simp: close_vault_Inr)
    have "writes_only (mutable_keys ix) A (accounts s')"
      using cl by (auto simp: CloseVault intro!: writes_close_to)
    then show ?thesis
      using handle_close_vault_writes [OF laws(5) acc] CloseVault by (blast intro: writes_only_trans)
  qed
qed

section \<open>What routing guarantees\<close>

text \<open>The key whose signature an instruction needs.\<close>

fun authority :: "instruction \<Rightarrow> pubkey" where
  "authority (InitializeVault own key mnt ident tmo inputs) = own"
| "authority (DepositSol own key amount) = own"
| "authority (DepositSpl own key mnt own_token vault_token prog amount) = own"
| "authority (CheckIn own key) = own"
| "authority (SetBeneficiaries own key inputs) = own"
| "authority (WithdrawSol own key amount) = own"
| "authority (WithdrawSpl own key mnt vault_token own_token prog amount) = own"
| "authority (ClaimSol claimant key) = claimant"
| "authority (ClaimSpl claimant key mnt vault_token claimant_token prog) = claimant"
| "authority (CloseVault own key vault_token prog) = own"

lemma dispatch_authority: "dispatch rt signers ix s = Inr s' \<Longrightarrow> authority ix \<in> set signers"
  by (cases ix)
     (auto simp: initialize_vault_Inr accounts_initialize_vault_Inr deposit_sol_Inr accounts_deposit_sol_Inr
       deposit_spl_Inr accounts_deposit_spl_Inr check_in_Inr accounts_check_in_Inr set_beneficiaries_Inr
       accounts_set_beneficiaries_Inr withdraw_sol_Inr accounts_withdraw_sol_Inr withdraw_spl_Inr
       accounts_withdraw_spl_Inr claim_sol_Inr accounts_claim_sol_Inr claim_spl_Inr accounts_claim_spl_Inr
       close_vault_Inr accounts_close_vault_Inr)

lemma take_accounts_Cons:
  "take_accounts pid writable (s # ss) metas = Some ks \<longleftrightarrow>
     (\<exists>m ms ks'. metas = m # ms \<and> slot_ok pid writable s (meta_key m) \<and>
        take_accounts pid writable ss ms = Some ks' \<and> ks = meta_key m # ks')"
  by (cases metas) auto

lemmas slots_defs = check_in_slots_def claim_sol_slots_def claim_spl_slots_def close_vault_slots_def
  deposit_sol_slots_def deposit_spl_slots_def initialize_vault_slots_def set_beneficiaries_slots_def
  withdraw_sol_slots_def withdraw_spl_slots_def

lemma with_args_Some: "with_args d bs f = Some y \<longleftrightarrow> (\<exists>a rest. d bs = Some (a, rest) \<and> f a = Some y)"
  by (auto simp: with_args_def bind_eq_Some_conv)

lemma route_privileges:
  assumes "route rt tx = Some (signers, ix)"
  shows "signers = signer_keys tx \<and> set (mutable_keys ix) \<subseteq> set (writable_keys tx)"
  using assms
  by (auto simp: route_def Let_def with_args_Some slots_defs take_accounts_Cons optional_key_def split: if_splits)

section \<open>The client's instructions arrive\<close>

text \<open>
  What the format can carry: fewer than \<open>2 ^ 32\<close> heirs, and no account whose address is the id
  of the program, since that stands for an account left out.
\<close>

definition client_can_name :: "instruction \<Rightarrow> bool" where
  "client_can_name ix = (case ix of
     InitializeVault own key mnt ident tmo inputs \<Rightarrow>
       mnt \<noteq> Some client_program_id \<and> length inputs < 2 ^ 32
   | SetBeneficiaries own key inputs \<Rightarrow> length inputs < 2 ^ 32
   | CloseVault own key vault_token prog \<Rightarrow>
       vault_token \<noteq> Some client_program_id \<and> prog \<noteq> Some client_program_id
   | _ \<Rightarrow> True)"

lemma with_args_u64 [simp]: "with_args dec_word (enc_word (w :: u64)) f = f w"
  by (simp add: with_args_def u64.dec_exact)

lemma with_args_inputs [simp]:
  assumes "length inputs < 2 ^ 32"
  shows "with_args (dec_vec dec_beneficiary_input) (enc_vec enc_beneficiary_input inputs) g = g inputs"
proof -
  have "dec_vec dec_beneficiary_input (enc_vec enc_beneficiary_input inputs) = Some (inputs, [])"
    using assms by (simp add: inputs_dec_iff)
  then show ?thesis by (simp add: with_args_def)
qed

lemma with_args_initialize [simp]:
  assumes "length inputs < 2 ^ 32"
  shows "with_args dec_initialize_args
      (enc_word ident @ enc_word tmo @ enc_vec enc_beneficiary_input inputs) h = h (ident, tmo, inputs)"
proof -
  have "dec_initialize_args (enc_word ident @ enc_word tmo @ enc_vec enc_beneficiary_input inputs) =
      Some ((ident, tmo, inputs), [])"
    using assms by (auto simp: dec_initialize_args_def decode_simps)
  then show ?thesis by (simp add: with_args_def)
qed

lemma optional_key_account [simp]:
  "k \<noteq> Some client_program_id \<Longrightarrow> optional_key client_program_id (account_or_program k) = k"
  by (cases k) (auto simp: optional_key_def account_or_program_def)

lemma route_client_instruction:
  assumes "program_id rt = client_program_id" "client_can_name ix"
  shows "route rt (client_instruction ix) = Some ([authority ix], ix)"
  using assms
  by (cases ix)
     (simp_all add: route_def Let_def signer_keys_def writable_keys_def slots_defs client_can_name_def client_defs)

end
