(* ===== verification/Keeper.thy ===== *)
theory Keeper
  imports Wire "HOL-Library.Signed_Division"
begin

text \<open>
  What the Go keeper knows of the program: the decoder of vault accounts and the status of a
  vault (\<open>keeper/internal/dms/vault.go\<close>, \<open>status.go\<close>) and the instructions it builds
  (\<open>keeper/internal/client/instructions.go\<close>). The decoder is written by hand on the Go side,
  with a cursor that remembers the first error; it is modelled as it is and related to
  the layout of \<open>Account_Layout\<close>.

  A \<open>time.Duration\<close> is a 64-bit count of nanoseconds and wraps around; a \<open>time.Time\<close> is a
  point on the integers, in nanoseconds since 1970.
\<close>

section \<open>The cursor\<close>

record reader =
  buf :: "u8 list"
  off :: nat
  failed :: bool

definition reader_take :: "nat \<Rightarrow> reader \<Rightarrow> u8 list \<times> reader" where
  "reader_take n r =
     (if failed r then (replicate n 0, r)
      else if length (buf r) < off r + n then (replicate n 0, r\<lparr>failed := True\<rparr>)
      else (take n (drop (off r) (buf r)), r\<lparr>off := off r + n\<rparr>))"

definition reader_word :: "nat \<Rightarrow> reader \<Rightarrow> 'a::len word \<times> reader" where
  "reader_word n r = (let (bs, r') = reader_take n r in (of_le_bytes bs, r'))"

definition reader_u8 :: "reader \<Rightarrow> u8 \<times> reader" where
  "reader_u8 = reader_word 1"

definition reader_u16 :: "reader \<Rightarrow> u16 \<times> reader" where
  "reader_u16 = reader_word 2"

definition reader_u64 :: "reader \<Rightarrow> u64 \<times> reader" where
  "reader_u64 = reader_word 8"

definition reader_bool :: "reader \<Rightarrow> bool \<times> reader" where
  "reader_bool r = (let (b, r') = reader_u8 r in (b \<noteq> 0, r'))"

definition reader_pubkey :: "reader \<Rightarrow> pubkey \<times> reader" where
  "reader_pubkey = reader_word 32"

definition reader_option_pubkey :: "reader \<Rightarrow> pubkey option \<times> reader" where
  "reader_option_pubkey r =
     (let (some, r') = reader_bool r
      in if \<not> some then (None, r') else let (k, r'') = reader_pubkey r' in (Some k, r''))"

section \<open>The vault as the keeper sees it\<close>

text \<open>
  The balance \<open>Lamports\<close> is no part of the account's data: the decoder leaves it zero and the
  code that fetches the account fills it in.
\<close>

record go_beneficiary =
  gb_address :: pubkey
  gb_share_bps :: u16
  gb_claimed :: bool

record go_vault =
  gv_address :: pubkey
  gv_owner :: pubkey
  gv_vault_id :: u64
  gv_mint :: "pubkey option"
  gv_last_check_in :: int
  gv_timeout :: i64
  gv_beneficiaries :: "go_beneficiary list"
  gv_is_claimed :: bool
  gv_claim_pool :: u64
  gv_bump :: u8
  gv_lamports :: u64

definition time_unix :: "i64 \<Rightarrow> int" where
  "time_unix seconds = sint seconds * 1000000000"

definition seconds_duration :: "i64 \<Rightarrow> i64" where
  "seconds_duration seconds = seconds * 1000000000"

definition reader_slot :: "reader \<Rightarrow> go_beneficiary \<times> reader" where
  "reader_slot r =
     (let (a, r1) = reader_pubkey r; (s, r2) = reader_u16 r1; (c, r3) = reader_bool r2
      in (\<lparr>gb_address = a, gb_share_bps = s, gb_claimed = c\<rparr>, r3))"

fun reader_slots :: "nat \<Rightarrow> reader \<Rightarrow> go_beneficiary list \<times> reader" where
  "reader_slots 0 r = ([], r)"
| "reader_slots (Suc n) r =
     (let (b, r1) = reader_slot r; (bs, r2) = reader_slots n r1 in (b # bs, r2))"

datatype decode_error =
    TooShort
  | WrongDiscriminator
  | Truncated
  | TooManyHeirs

definition keeper_discriminator :: "u8 list" where
  "keeper_discriminator = [211, 8, 232, 43, 2, 152, 117, 119]"

definition decode_vault :: "pubkey \<Rightarrow> u8 list \<Rightarrow> decode_error + go_vault" where
  "decode_vault addr bytes =
     (if length bytes < 8 then Inl TooShort
      else if take 8 bytes \<noteq> keeper_discriminator then Inl WrongDiscriminator
      else
        let r = \<lparr>buf = bytes, off = 8, failed = False\<rparr>;
            (own, r) = reader_pubkey r;
            (ident, r) = reader_u64 r;
            (mnt, r) = reader_option_pubkey r;
            (last, r) = reader_u64 r;
            (tmo, r) = reader_u64 r;
            (slots, r) = reader_slots 5 r;
            (count, r) = reader_u8 r;
            (tripped, r) = reader_bool r;
            (pool, r) = reader_u64 r;
            (bmp, r) = reader_u8 r
        in if failed r then Inl Truncated
           else if 5 < unat count then Inl TooManyHeirs
           else Inr \<lparr>gv_address = addr, gv_owner = own, gv_vault_id = ident, gv_mint = mnt,
             gv_last_check_in = time_unix last, gv_timeout = seconds_duration tmo,
             gv_beneficiaries = take (unat count) slots, gv_is_claimed = tripped,
             gv_claim_pool = pool, gv_bump = bmp, gv_lamports = 0\<rparr>)"

definition go_is_sol :: "go_vault \<Rightarrow> bool" where
  "go_is_sol g \<longleftrightarrow> gv_mint g = None"

definition go_deadline :: "go_vault \<Rightarrow> int" where
  "go_deadline g = gv_last_check_in g + sint (gv_timeout g)"

lemma go_deadline_lamports [simp]: "go_deadline (g\<lparr>gv_lamports := l\<rparr>) = go_deadline g"
  by (simp add: go_deadline_def)

text \<open>\<open>Time.Sub\<close> saturates at the range of a \<open>Duration\<close>.\<close>

definition go_time_left :: "go_vault \<Rightarrow> int \<Rightarrow> int" where
  "go_time_left g now = max (- (2 ^ 63)) (min (2 ^ 63 - 1) (go_deadline g - now))"

datatype go_status = StatusActive | StatusDueSoon | StatusExpired | StatusTriggered

definition go_status_of :: "go_vault \<Rightarrow> int \<Rightarrow> i64 \<Rightarrow> go_status" where
  "go_status_of g now due_soon =
     (if gv_is_claimed g then StatusTriggered
      else if \<not> now < go_deadline g then StatusExpired
      else if go_time_left g now \<le> sint due_soon then StatusDueSoon
      else StatusActive)"

definition needs_attention :: "go_status \<Rightarrow> bool" where
  "needs_attention s \<longleftrightarrow> s = StatusDueSoon \<or> s = StatusExpired"

fun index_from :: "int \<Rightarrow> go_beneficiary list \<Rightarrow> pubkey \<Rightarrow> int" where
  "index_from i [] a = -1"
| "index_from i (heir # rest) a = (if gb_address heir = a then i else index_from (i + 1) rest a)"

definition go_index :: "go_vault \<Rightarrow> pubkey \<Rightarrow> int" where
  "go_index g a = index_from 0 (gv_beneficiaries g) a"

definition go_claimed :: "go_vault \<Rightarrow> nat" where
  "go_claimed g = fold (\<lambda>heir n. if gb_claimed heir then n + 1 else n) (gv_beneficiaries g) 0"

definition find_vault_address :: "runtime \<Rightarrow> pubkey \<Rightarrow> u64 \<Rightarrow> pubkey \<times> u8" where
  "find_vault_address rt own ident = find_program_address rt [VAULT_SEED, le_bytes 32 own, le_bytes 8 ident]"

section \<open>The decoder reads what the program writes\<close>

text \<open>\<open>bs\<close> is what the cursor has in front of it.\<close>

definition ahead :: "reader \<Rightarrow> u8 list \<Rightarrow> bool" where
  "ahead r bs \<longleftrightarrow> \<not> failed r \<and> drop (off r) (buf r) = bs \<and> off r \<le> length (buf r)"

text \<open>The contract between a method of the cursor and a Borsh encoding.\<close>

locale field_reader =
  fixes enc :: "'a \<Rightarrow> u8 list"
    and read :: "reader \<Rightarrow> 'b \<times> reader"
    and view :: "'a \<Rightarrow> 'b"
  assumes read_enc: "ahead r (enc x @ bs) \<Longrightarrow> fst (read r) = view x \<and> ahead (snd (read r)) bs"
begin

lemma read_field:
  assumes "ahead r (enc x @ bs)"
  obtains r' where "read r = (view x, r')" "ahead r' bs"
  using read_enc [OF assms] by (cases "read r") auto

end

lemma reader_take_ahead:
  assumes "ahead r (bs @ rest)"
  shows "reader_take (length bs) r = (bs, r\<lparr>off := off r + length bs\<rparr>) \<and>
    ahead (r\<lparr>off := off r + length bs\<rparr>) rest"
proof -
  have r: "\<not> failed r" "drop (off r) (buf r) = bs @ rest" "off r \<le> length (buf r)"
    using assms by (simp_all add: ahead_def)
  have len: "off r + length bs \<le> length (buf r)"
    using arg_cong [OF r(2), of length] r(3) by simp
  have "drop (off r + length bs) (buf r) = drop (length bs) (drop (off r) (buf r))"
    by (simp add: add.commute)
  then have "drop (off r + length bs) (buf r) = rest" by (simp only: r(2)) simp
  then show ?thesis using r len by (simp add: reader_take_def ahead_def)
qed

lemma reader_word_ahead:
  fixes w :: "'a::len word"
  assumes "ahead r (enc_word w @ bs)" "n = LENGTH('a) div 8" "8 dvd LENGTH('a)"
  shows "fst (reader_word n r) = w \<and> ahead (snd (reader_word n r)) bs"
proof -
  have "of_le_bytes (enc_word w) = w"
    using assms(3) by (simp add: enc_word_def of_le_bytes_le_bytes)
  then show ?thesis
    using reader_take_ahead [OF assms(1)] assms(2) by (simp add: reader_word_def)
qed

interpretation go_u8: field_reader "enc_word :: u8 \<Rightarrow> u8 list" reader_u8 "\<lambda>x. x"
  by unfold_locales (simp add: reader_u8_def reader_word_ahead)

interpretation go_u16: field_reader "enc_word :: u16 \<Rightarrow> u8 list" reader_u16 "\<lambda>x. x"
  by unfold_locales (simp add: reader_u16_def reader_word_ahead)

interpretation go_u64: field_reader "enc_word :: u64 \<Rightarrow> u8 list" reader_u64 "\<lambda>x. x"
  by unfold_locales (simp add: reader_u64_def reader_word_ahead)

interpretation go_pubkey: field_reader "enc_word :: pubkey \<Rightarrow> u8 list" reader_pubkey "\<lambda>x. x"
  by unfold_locales (simp add: reader_pubkey_def reader_word_ahead)

interpretation go_bool: field_reader enc_bool reader_bool "\<lambda>x. x"
proof
  fix r b bs
  assume "ahead r (enc_bool b @ bs)"
  moreover have "enc_bool b = enc_word (if b then 1 else 0 :: u8)"
    by (simp add: enc_bool_def enc_word_def le_bytes_def)
  ultimately obtain r' where "reader_u8 r = (if b then 1 else 0, r')" "ahead r' bs"
    by (metis go_u8.read_field)
  then show "fst (reader_bool r) = b \<and> ahead (snd (reader_bool r)) bs"
    by (simp add: reader_bool_def)
qed

definition view_heir :: "beneficiary \<Rightarrow> go_beneficiary" where
  "view_heir b = \<lparr>gb_address = address b, gb_share_bps = share_bps b, gb_claimed = claimed b\<rparr>"

interpretation go_option: field_reader "enc_option (enc_word :: pubkey \<Rightarrow> u8 list)" reader_option_pubkey "\<lambda>x. x"
proof
  fix r x bs
  assume a: "ahead r (enc_option (enc_word :: pubkey \<Rightarrow> u8 list) x @ bs)"
  have "enc_option enc_word x @ bs =
      enc_bool (x \<noteq> None) @ (case x of None \<Rightarrow> [] | Some k \<Rightarrow> enc_word k) @ bs"
    by (simp add: enc_option_def enc_bool_def split: option.split)
  with a obtain r' where "reader_bool r = (x \<noteq> None, r')"
    "ahead r' ((case x of None \<Rightarrow> [] | Some k \<Rightarrow> enc_word k) @ bs)"
    by (metis go_bool.read_field)
  then show "fst (reader_option_pubkey r) = x \<and> ahead (snd (reader_option_pubkey r)) bs"
    using go_pubkey.read_enc [of r' "the x" bs]
    by (cases x) (auto simp: reader_option_pubkey_def split: prod.split)
qed

interpretation go_slot: field_reader enc_beneficiary reader_slot view_heir
proof
  fix r b bs
  assume "ahead r (enc_beneficiary b @ bs)"
  then obtain r1 where r1: "reader_pubkey r = (address b, r1)"
    "ahead r1 (enc_word (share_bps b) @ enc_bool (claimed b) @ bs)"
    by (auto simp: enc_beneficiary_def elim: go_pubkey.read_field)
  from r1(2) obtain r2 where r2: "reader_u16 r1 = (share_bps b, r2)" "ahead r2 (enc_bool (claimed b) @ bs)"
    by (rule go_u16.read_field)
  from r2(2) obtain r3 where "reader_bool r2 = (claimed b, r3)" "ahead r3 bs"
    by (rule go_bool.read_field)
  with r1(1) r2(1) show "fst (reader_slot r) = view_heir b \<and> ahead (snd (reader_slot r)) bs"
    by (simp add: reader_slot_def view_heir_def)
qed

lemma reader_slots_ahead:
  "ahead r (enc_array enc_beneficiary xs @ bs) \<Longrightarrow>
     \<exists>r'. reader_slots (length xs) r = (map view_heir xs, r') \<and> ahead r' bs"
proof (induction xs arbitrary: r)
  case (Cons x xs)
  then obtain r1 where "reader_slot r = (view_heir x, r1)" "ahead r1 (enc_array enc_beneficiary xs @ bs)"
    by (auto simp: enc_array_def elim: go_slot.read_field)
  with Cons.IH [of r1] show ?case by auto
qed (simp add: enc_array_def)

text \<open>What the decoder should make of a stored vault.\<close>

definition view_vault :: "pubkey \<Rightarrow> vault \<Rightarrow> go_vault" where
  "view_vault addr v =
     \<lparr>gv_address = addr, gv_owner = owner v, gv_vault_id = vault_id v, gv_mint = mint v,
      gv_last_check_in = time_unix (last_checkin v), gv_timeout = seconds_duration (timeout_seconds v),
      gv_beneficiaries = map view_heir (heirs v), gv_is_claimed = is_claimed v,
      gv_claim_pool = claim_pool v, gv_bump = bump v, gv_lamports = 0\<rparr>"

lemma decode_vault_record:
  assumes "length (beneficiaries v) = 5" "unat (beneficiary_count v) \<le> 5"
  shows "decode_vault addr (vault_record v @ rest) = Inr (view_vault addr v)"
proof -
  let ?r = "\<lparr>buf = vault_record v @ rest, off = 8, failed = False\<rparr>"
  have "ahead ?r (enc_vault v @ rest)"
    by (simp add: ahead_def vault_record_def)
  then obtain r1 where r1: "reader_pubkey ?r = (owner v, r1)" "ahead r1 (enc_word (vault_id v) @
      enc_option enc_word (mint v) @ enc_word (last_checkin v) @ enc_word (timeout_seconds v) @
      enc_array enc_beneficiary (beneficiaries v) @ enc_word (beneficiary_count v) @
      enc_bool (is_claimed v) @ enc_word (claim_pool v) @ enc_word (bump v) @ rest)"
    by (auto simp: enc_vault_def elim: go_pubkey.read_field)
  from r1(2) obtain r2 where r2: "reader_u64 r1 = (vault_id v, r2)" "ahead r2 (
      enc_option enc_word (mint v) @ enc_word (last_checkin v) @ enc_word (timeout_seconds v) @
      enc_array enc_beneficiary (beneficiaries v) @ enc_word (beneficiary_count v) @
      enc_bool (is_claimed v) @ enc_word (claim_pool v) @ enc_word (bump v) @ rest)"
    by (rule go_u64.read_field)
  from r2(2) obtain r3 where r3: "reader_option_pubkey r2 = (mint v, r3)" "ahead r3 (
      enc_word (last_checkin v) @ enc_word (timeout_seconds v) @
      enc_array enc_beneficiary (beneficiaries v) @ enc_word (beneficiary_count v) @
      enc_bool (is_claimed v) @ enc_word (claim_pool v) @ enc_word (bump v) @ rest)"
    by (rule go_option.read_field)
  from r3(2) obtain r4 where r4: "reader_u64 r3 = (last_checkin v, r4)" "ahead r4 (
      enc_word (timeout_seconds v) @
      enc_array enc_beneficiary (beneficiaries v) @ enc_word (beneficiary_count v) @
      enc_bool (is_claimed v) @ enc_word (claim_pool v) @ enc_word (bump v) @ rest)"
    by (rule go_u64.read_field)
  from r4(2) obtain r5 where r5: "reader_u64 r4 = (timeout_seconds v, r5)" "ahead r5 (
      enc_array enc_beneficiary (beneficiaries v) @ enc_word (beneficiary_count v) @
      enc_bool (is_claimed v) @ enc_word (claim_pool v) @ enc_word (bump v) @ rest)"
    by (rule go_u64.read_field)
  from reader_slots_ahead [OF r5(2)] assms(1) obtain r6 where
    r6: "reader_slots 5 r5 = (map view_heir (beneficiaries v), r6)" "ahead r6 (
      enc_word (beneficiary_count v) @
      enc_bool (is_claimed v) @ enc_word (claim_pool v) @ enc_word (bump v) @ rest)" by auto
  from r6(2) obtain r7 where r7: "reader_u8 r6 = (beneficiary_count v, r7)" "ahead r7 (
      enc_bool (is_claimed v) @ enc_word (claim_pool v) @ enc_word (bump v) @ rest)"
    by (rule go_u8.read_field)
  from r7(2) obtain r8 where r8: "reader_bool r7 = (is_claimed v, r8)" "ahead r8 (
      enc_word (claim_pool v) @ enc_word (bump v) @ rest)"
    by (rule go_bool.read_field)
  from r8(2) obtain r9 where r9: "reader_u64 r8 = (claim_pool v, r9)" "ahead r9 (enc_word (bump v) @ rest)"
    by (rule go_u64.read_field)
  from r9(2) obtain r10 where r10: "reader_u8 r9 = (bump v, r10)" "ahead r10 rest"
    by (rule go_u8.read_field)
  have "\<not> failed r10" using r10(2) by (simp add: ahead_def)
  moreover have "take 8 (vault_record v @ rest) = keeper_discriminator" "\<not> length (vault_record v @ rest) < 8"
    by (simp_all add: vault_record_def vault_discriminator_def keeper_discriminator_def)
  ultimately show ?thesis
    using assms(2)
    by (simp add: decode_vault_def Let_def r1(1) r2(1) r3(1) r4(1) r5(1) r6(1) r7(1) r8(1) r9(1) r10(1)
        view_vault_def heirs_def take_map not_less del: length_append take_append reader_slots.simps)
qed

section \<open>Durations\<close>

text \<open>\<open>uint64(timeout/time.Second)\<close>: signed division towards zero, then the bits as they are.\<close>

definition whole_seconds :: "i64 \<Rightarrow> u64" where
  "whole_seconds d = word_of_int (sint d sdiv 1000000000)"

lemma whole_seconds_duration:
  assumes "0 \<le> sint tmo" "sint tmo \<le> 9223372036"
  shows "whole_seconds (seconds_duration tmo) = tmo \<and> sint (seconds_duration tmo) = sint tmo * 1000000000"
proof -
  have "sint (seconds_duration tmo) = sint tmo * 1000000000"
    using assms by (simp add: seconds_duration_def sint_word_ariths signed_take_bit_int_eq_self)
  moreover have "(sint tmo * 1000000000) sdiv 1000000000 = sint tmo"
    using assms(1) by (simp add: signed_divide_int_def sgn_if)
  ultimately show ?thesis by (simp add: whole_seconds_def)
qed

lemma decode_vault_image:
  assumes "vault_inv v"
  shows "decode_vault key (vault_image v) = Inr (view_vault key v)"
  using assms unfolding vault_image_def
  by (intro decode_vault_record) (simp_all add: vault_inv_def MAX_BENEFICIARIES_def)

lemma keeper_deadline:
  assumes "vault_inv v"
  shows "\<exists>d. deadline v = Inr d \<and> go_deadline (view_vault key v) = sint d * 1000000000"
proof -
  have "sint (seconds_duration (timeout_seconds v)) = sint (timeout_seconds v) * 1000000000"
    using assms whole_seconds_duration by (simp add: vault_inv_def)
  then show ?thesis
    using vault_inv_deadline [OF assms]
    by (simp add: go_deadline_def view_vault_def time_unix_def algebra_simps)
qed

section \<open>The instructions the keeper builds\<close>

definition go_meta :: "pubkey \<Rightarrow> bool \<Rightarrow> bool \<Rightarrow> account_meta" where
  "go_meta k signer writable = \<lparr>meta_key = k, is_signer = signer, is_writable = writable\<rparr>"

definition append_uint64 :: "u8 list \<Rightarrow> u64 \<Rightarrow> u8 list" where
  "append_uint64 bs w = bs @ le_bytes 8 w"

definition append_uint32 :: "u8 list \<Rightarrow> u32 \<Rightarrow> u8 list" where
  "append_uint32 bs w = bs @ le_bytes 4 w"

definition append_uint16 :: "u8 list \<Rightarrow> u16 \<Rightarrow> u8 list" where
  "append_uint16 bs w = bs @ le_bytes 2 w"

fun append_heirs :: "u8 list \<Rightarrow> beneficiary_input list \<Rightarrow> u8 list" where
  "append_heirs bs [] = bs"
| "append_heirs bs (heir # table) =
     append_heirs (append_uint16 (bs @ le_bytes 32 (input_address heir)) (input_share_bps heir)) table"

definition go_initialize_vault ::
  "pubkey \<Rightarrow> pubkey \<Rightarrow> pubkey \<Rightarrow> u64 \<Rightarrow> i64 \<Rightarrow> beneficiary_input list \<Rightarrow> tx_instruction" where
  "go_initialize_vault pid own key ident timeout table =
     (let bs = [48, 191, 163, 44, 71, 129, 63, 164];
          bs = append_uint64 bs ident;
          bs = append_uint64 bs (whole_seconds timeout);
          bs = append_uint32 bs (of_nat (length table));
          bs = append_heirs bs table
      in \<lparr>tx_program = pid,
          tx_metas = [go_meta own True True, go_meta key False True, go_meta pid False False,
                      go_meta system_program_id False False],
          tx_bytes = bs\<rparr>)"

definition go_deposit_sol :: "pubkey \<Rightarrow> pubkey \<Rightarrow> pubkey \<Rightarrow> u64 \<Rightarrow> tx_instruction" where
  "go_deposit_sol pid own key amount =
     \<lparr>tx_program = pid,
      tx_metas = [go_meta own True True, go_meta key False True, go_meta system_program_id False False],
      tx_bytes = append_uint64 [108, 81, 78, 117, 125, 155, 56, 200] amount\<rparr>"

definition go_withdraw_sol :: "pubkey \<Rightarrow> pubkey \<Rightarrow> pubkey \<Rightarrow> u64 \<Rightarrow> tx_instruction" where
  "go_withdraw_sol pid own key amount =
     \<lparr>tx_program = pid,
      tx_metas = [go_meta own True True, go_meta key False True],
      tx_bytes = append_uint64 [145, 131, 74, 136, 65, 137, 42, 38] amount\<rparr>"

definition go_check_in :: "pubkey \<Rightarrow> pubkey \<Rightarrow> pubkey \<Rightarrow> tx_instruction" where
  "go_check_in pid own key =
     \<lparr>tx_program = pid,
      tx_metas = [go_meta own True False, go_meta key False True],
      tx_bytes = [209, 253, 4, 217, 250, 241, 207, 50]\<rparr>"

definition go_claim_sol :: "pubkey \<Rightarrow> pubkey \<Rightarrow> pubkey \<Rightarrow> tx_instruction" where
  "go_claim_sol pid heir key =
     \<lparr>tx_program = pid,
      tx_metas = [go_meta heir True True, go_meta key False True],
      tx_bytes = [139, 113, 179, 189, 190, 30, 132, 195]\<rparr>"

definition go_close_vault :: "pubkey \<Rightarrow> pubkey \<Rightarrow> pubkey \<Rightarrow> tx_instruction" where
  "go_close_vault pid own key =
     \<lparr>tx_program = pid,
      tx_metas = [go_meta own True True, go_meta key False True, go_meta pid False False,
                  go_meta pid False False],
      tx_bytes = [141, 103, 17, 126, 72, 75, 29, 29]\<rparr>"

lemma append_heirs_enc: "append_heirs bs table = bs @ enc_array enc_beneficiary_input table"
  by (induction bs table rule: append_heirs.induct)
     (simp_all add: append_uint16_def enc_array_def enc_beneficiary_input_def enc_word_def)

lemmas go_instruction_defs =
  go_initialize_vault_def go_deposit_sol_def go_withdraw_sol_def go_check_in_def go_claim_sol_def
  go_close_vault_def go_meta_def append_uint64_def append_uint32_def

end
