(* ===== verification/Client_Errors.thy ===== *)
theory Client_Errors
  imports Borsh Dms_Error
begin

text \<open>
  The error numbers and messages: those of \<open>error.rs\<close>, which Anchor counts from 6000 in the order
  of the declaration, and the copy in the client, \<open>DeadmanswitchError\<close> of
  \<open>trident-tests/fuzz_0/types.rs\<close>, with its conversions to and from numbers.
\<close>

section \<open>The program's errors\<close>

text \<open>The discriminant of a variant of \<open>DmsError\<close>: its position in the declaration.\<close>

fun error_index :: "dms_error \<Rightarrow> nat" where
  "error_index Unauthorized = 0"
| "error_index TimeoutNotReached = 1"
| "error_index AlreadyClaimed = 2"
| "error_index InvalidShares = 3"
| "error_index TooManyBeneficiaries = 4"
| "error_index MathOverflow = 5"
| "error_index InvalidTimeout = 6"
| "error_index NoBeneficiaries = 7"
| "error_index DuplicateBeneficiary = 8"
| "error_index InvalidBeneficiary = 9"
| "error_index InvalidAmount = 10"
| "error_index MintMismatch = 11"
| "error_index NotSolVault = 12"
| "error_index NotSplVault = 13"
| "error_index VaultTriggered = 14"
| "error_index InsufficientFunds = 15"
| "error_index VaultNotEmpty = 16"
| "error_index MissingTokenAccount = 17"

definition error_number :: "dms_error \<Rightarrow> u32" where
  "error_number e = 6000 + of_nat (error_index e)"

fun error_message :: "dms_error \<Rightarrow> string" where
  "error_message Unauthorized = ''Signer is neither the vault owner nor a listed beneficiary''"
| "error_message TimeoutNotReached = ''The inactivity timeout has not elapsed yet''"
| "error_message AlreadyClaimed = ''This beneficiary has already claimed their share''"
| "error_message InvalidShares = ''Beneficiary shares must add up to exactly 10000 basis points''"
| "error_message TooManyBeneficiaries = ''A vault can hold at most 5 beneficiaries''"
| "error_message MathOverflow = ''Arithmetic overflow''"
| "error_message InvalidTimeout = ''Timeout must be between 60 seconds and 10 years''"
| "error_message NoBeneficiaries = ''A vault needs at least one beneficiary''"
| "error_message DuplicateBeneficiary = ''The same wallet is listed as a beneficiary twice''"
| "error_message InvalidBeneficiary = ''Beneficiary address must not be the default pubkey''"
| "error_message InvalidAmount = ''Amount must be greater than zero''"
| "error_message MintMismatch = ''Mint does not match the one this vault was created for''"
| "error_message NotSolVault = ''This instruction is only valid for a native SOL vault''"
| "error_message NotSplVault = ''This instruction is only valid for an SPL token vault''"
| "error_message VaultTriggered = ''The switch has already tripped; the owner can no longer change the vault''"
| "error_message InsufficientFunds = ''Vault balance is too low for this operation''"
| "error_message VaultNotEmpty = ''A vault must be empty before it can be closed''"
| "error_message MissingTokenAccount = ''An SPL vault needs its token account and token program passed in''"

section \<open>The client's errors\<close>

datatype deadmanswitch_error =
    ClientUnauthorized
  | ClientTimeoutNotReached
  | ClientAlreadyClaimed
  | ClientInvalidShares
  | ClientTooManyBeneficiaries
  | ClientMathOverflow
  | ClientInvalidTimeout
  | ClientNoBeneficiaries
  | ClientDuplicateBeneficiary
  | ClientInvalidBeneficiary
  | ClientInvalidAmount
  | ClientMintMismatch
  | ClientNotSolVault
  | ClientNotSplVault
  | ClientVaultTriggered
  | ClientInsufficientFunds
  | ClientVaultNotEmpty
  | ClientMissingTokenAccount

fun client_code :: "deadmanswitch_error \<Rightarrow> u32" where
  "client_code ClientUnauthorized = 6000"
| "client_code ClientTimeoutNotReached = 6001"
| "client_code ClientAlreadyClaimed = 6002"
| "client_code ClientInvalidShares = 6003"
| "client_code ClientTooManyBeneficiaries = 6004"
| "client_code ClientMathOverflow = 6005"
| "client_code ClientInvalidTimeout = 6006"
| "client_code ClientNoBeneficiaries = 6007"
| "client_code ClientDuplicateBeneficiary = 6008"
| "client_code ClientInvalidBeneficiary = 6009"
| "client_code ClientInvalidAmount = 6010"
| "client_code ClientMintMismatch = 6011"
| "client_code ClientNotSolVault = 6012"
| "client_code ClientNotSplVault = 6013"
| "client_code ClientVaultTriggered = 6014"
| "client_code ClientInsufficientFunds = 6015"
| "client_code ClientVaultNotEmpty = 6016"
| "client_code ClientMissingTokenAccount = 6017"

fun client_msg :: "deadmanswitch_error \<Rightarrow> string" where
  "client_msg ClientUnauthorized = ''Signer is neither the vault owner nor a listed beneficiary''"
| "client_msg ClientTimeoutNotReached = ''The inactivity timeout has not elapsed yet''"
| "client_msg ClientAlreadyClaimed = ''This beneficiary has already claimed their share''"
| "client_msg ClientInvalidShares = ''Beneficiary shares must add up to exactly 10000 basis points''"
| "client_msg ClientTooManyBeneficiaries = ''A vault can hold at most 5 beneficiaries''"
| "client_msg ClientMathOverflow = ''Arithmetic overflow''"
| "client_msg ClientInvalidTimeout = ''Timeout must be between 60 seconds and 10 years''"
| "client_msg ClientNoBeneficiaries = ''A vault needs at least one beneficiary''"
| "client_msg ClientDuplicateBeneficiary = ''The same wallet is listed as a beneficiary twice''"
| "client_msg ClientInvalidBeneficiary = ''Beneficiary address must not be the default pubkey''"
| "client_msg ClientInvalidAmount = ''Amount must be greater than zero''"
| "client_msg ClientMintMismatch = ''Mint does not match the one this vault was created for''"
| "client_msg ClientNotSolVault = ''This instruction is only valid for a native SOL vault''"
| "client_msg ClientNotSplVault = ''This instruction is only valid for an SPL token vault''"
| "client_msg ClientVaultTriggered = ''The switch has already tripped; the owner can no longer change the vault''"
| "client_msg ClientInsufficientFunds = ''Vault balance is too low for this operation''"
| "client_msg ClientVaultNotEmpty = ''A vault must be empty before it can be closed''"
| "client_msg ClientMissingTokenAccount = ''An SPL vault needs its token account and token program passed in''"

definition client_from_code :: "u32 \<Rightarrow> deadmanswitch_error option" where
  "client_from_code c =
     (if c = 6000 then Some ClientUnauthorized
      else if c = 6001 then Some ClientTimeoutNotReached
      else if c = 6002 then Some ClientAlreadyClaimed
      else if c = 6003 then Some ClientInvalidShares
      else if c = 6004 then Some ClientTooManyBeneficiaries
      else if c = 6005 then Some ClientMathOverflow
      else if c = 6006 then Some ClientInvalidTimeout
      else if c = 6007 then Some ClientNoBeneficiaries
      else if c = 6008 then Some ClientDuplicateBeneficiary
      else if c = 6009 then Some ClientInvalidBeneficiary
      else if c = 6010 then Some ClientInvalidAmount
      else if c = 6011 then Some ClientMintMismatch
      else if c = 6012 then Some ClientNotSolVault
      else if c = 6013 then Some ClientNotSplVault
      else if c = 6014 then Some ClientVaultTriggered
      else if c = 6015 then Some ClientInsufficientFunds
      else if c = 6016 then Some ClientVaultNotEmpty
      else if c = 6017 then Some ClientMissingTokenAccount
      else None)"

section \<open>Round trips\<close>

lemma client_from_code_code: "client_from_code (client_code e) = Some e"
  by (cases e) (simp_all add: client_from_code_def)

lemma client_from_code_Some_iff: "client_from_code c = Some e \<longleftrightarrow> c = client_code e"
proof
  assume "client_from_code c = Some e"
  then have "c \<in> {6000, 6001, 6002, 6003, 6004, 6005, 6006, 6007, 6008, 6009, 6010, 6011, 6012, 6013,
      6014, 6015, 6016, 6017}"
    by (auto simp: client_from_code_def split: if_split_asm)
  with \<open>client_from_code c = Some e\<close> show "c = client_code e"
    by (auto simp: client_from_code_def)
qed (simp add: client_from_code_code)

lemma error_index_inject: "error_index e = error_index e' \<longleftrightarrow> e = e'"
  by (cases e; cases e') simp_all

lemma error_index_less: "error_index e < 18"
  by (cases e) simp_all

text \<open>Errors are ordered as they are declared, and so are their numbers.\<close>

instantiation dms_error :: linorder
begin

definition less_eq_dms_error :: "dms_error \<Rightarrow> dms_error \<Rightarrow> bool" where
  "less_eq_dms_error e e' \<longleftrightarrow> error_index e \<le> error_index e'"

definition less_dms_error :: "dms_error \<Rightarrow> dms_error \<Rightarrow> bool" where
  "less_dms_error e e' \<longleftrightarrow> error_index e < error_index e'"

instance
  by standard (auto simp: less_eq_dms_error_def less_dms_error_def error_index_inject)

end

lemma unat_error_number: "unat (error_number e) = 6000 + error_index e"
  using error_index_less [of e]
  by (simp add: error_number_def unat_word_ariths unat_of_nat take_bit_nat_eq_self)

lemma error_number_less: "error_number e < error_number e' \<longleftrightarrow> e < e'"
  by (simp add: word_less_nat_alt unat_error_number less_dms_error_def)

lemma error_number_inject: "error_number e = error_number e' \<longleftrightarrow> e = e'"
  by (metis error_number_less linorder_neq_iff)

section \<open>How the client prints an error\<close>

definition client_display :: "deadmanswitch_error \<Rightarrow> string" where
  "client_display e = decimal (unat (client_code e)) @ '': '' @ client_msg e"

text \<open>The number can be read off the line, so two errors never print alike.\<close>

lemma client_display_inject: "client_display e = client_display e' \<longleftrightarrow> e = e'"
proof
  have "takeWhile (\<lambda>c. c \<noteq> CHR '':'') (client_display e) = decimal (unat (client_code e))" for e
    using decimal_no_colon by (simp add: client_display_def takeWhile_append)
  moreover assume "client_display e = client_display e'"
  ultimately have "decimal (unat (client_code e)) = decimal (unat (client_code e'))" by metis
  then have "unat (client_code e) = unat (client_code e')" by (metis read_decimal)
  then have "client_code e = client_code e'" by (rule unat_eqI)
  then show "e = e'" by (metis client_from_code_code option.inject)
qed simp

end
