(* ===== verification/Fuzz_Oracle.thy ===== *)
theory Fuzz_Oracle
  imports Invariants
begin

text \<open>
  The oracle of the fuzz harness, \<open>check_invariants\<close> of \<open>trident-tests/fuzz_0/test_fuzz.rs\<close>: what it
  asserts of the stored vault after every transaction. It computes in \<open>u64\<close> with overflow
  checks on, so it can also stop on its own arithmetic (\<open>Overflow\<close>).
\<close>

datatype fuzz_failure =
    CountPastEnd
  | WrongTotal
  | DefaultHeir
  | HeirTwice
  | ZeroShare
  | PoolZero
  | PoolEarly
  | PaidEarly
  | Overflow
  | Underfunded

fun fuzz_total :: "u64 \<Rightarrow> beneficiary list \<Rightarrow> fuzz_failure + u64" where
  "fuzz_total acc [] = Inr acc"
| "fuzz_total acc (b # bs) =
     and_then (ok_or (checked_add acc (ucast (share_bps b))) Overflow) (\<lambda>acc'. fuzz_total acc' bs)"

fun fuzz_heirs :: "beneficiary list \<Rightarrow> beneficiary list \<Rightarrow> fuzz_failure + unit" where
  "fuzz_heirs prev [] = Inr ()"
| "fuzz_heirs prev (heir # rest) =
     and_then (require (address heir \<noteq> 0) DefaultHeir) (\<lambda>_.
     and_then (require (\<not> list_ex (\<lambda>p. address p = address heir) prev) HeirTwice) (\<lambda>_.
     and_then (require (0 < share_bps heir) ZeroShare) (\<lambda>_.
       fuzz_heirs (prev @ [heir]) rest)))"

fun fuzz_owed :: "u64 \<Rightarrow> u64 \<Rightarrow> beneficiary list \<Rightarrow> fuzz_failure + u64" where
  "fuzz_owed claimable acc [] = Inr acc"
| "fuzz_owed claimable acc (b # bs) =
     and_then (ok_or (checked_mul claimable (ucast (share_bps b))) Overflow) (\<lambda>m.
     and_then (ok_or (checked_add acc (m div 10000)) Overflow) (\<lambda>acc'.
       fuzz_owed claimable acc' bs))"

definition check_invariants :: "vault \<Rightarrow> u64 \<Rightarrow> fuzz_failure + unit" where
  "check_invariants v balance =
     (let count = unat (beneficiary_count v);
          heirs = take count (beneficiaries v)
      in and_then (require (count \<le> length (beneficiaries v)) CountPastEnd) (\<lambda>_.
         and_then (fuzz_total 0 heirs) (\<lambda>acc.
         and_then (require (acc = 10000) WrongTotal) (\<lambda>_.
         and_then (fuzz_heirs [] heirs) (\<lambda>_.
           let paid = length (filter claimed heirs)
           in and_then (if is_claimed v then require (0 < claim_pool v) PoolZero
                        else and_then (require (claim_pool v = 0) PoolEarly) (\<lambda>_.
                               require (paid = 0) PaidEarly)) (\<lambda>_.
              if is_claimed v
              then and_then (fuzz_owed (claim_pool v) 0 (filter (\<lambda>b. \<not> claimed b) heirs)) (\<lambda>owed.
                     require (owed \<le> balance) Underfunded)
              else Inr ()))))))"

section \<open>The oracle on a sound vault\<close>

lemma fuzz_total_Inr:
  "unat acc + shares_total bs < 2 ^ 64 \<Longrightarrow> fuzz_total acc bs = Inr (acc + of_nat (shares_total bs))"
proof (induction bs arbitrary: acc)
  case (Cons b bs)
  have "checked_add acc (ucast (share_bps b)) = Some (acc + ucast (share_bps b))"
    "unat (acc + ucast (share_bps b) :: u64) = unat acc + unat (share_bps b)"
    using Cons.prems by (simp_all add: checked_add_def unat_ucast_up unat_word_ariths)
  moreover from this have "fuzz_total (acc + ucast (share_bps b)) bs =
      Inr (acc + ucast (share_bps b) + of_nat (shares_total bs))"
    using Cons.prems by (intro Cons.IH) simp
  ultimately show ?case
    by (simp add: add.assoc)
qed simp

lemma fuzz_heirs_Inr:
  "list_all (\<lambda>b. address b \<noteq> 0 \<and> 0 < share_bps b) bs \<Longrightarrow> distinct (map address (prev @ bs)) \<Longrightarrow>
     fuzz_heirs prev bs = Inr ()"
proof (induction bs arbitrary: prev)
  case (Cons b bs)
  have "fuzz_heirs (prev @ [b]) bs = Inr ()"
  proof (rule Cons.IH)
    show "list_all (\<lambda>b. address b \<noteq> 0 \<and> 0 < share_bps b) bs" using Cons.prems(1) by simp
    show "distinct (map address ((prev @ [b]) @ bs))" using Cons.prems(2) by simp
  qed
  moreover have "address b \<notin> address ` set prev"
    using Cons.prems(2) by simp
  then have "\<not> list_ex (\<lambda>p. address p = address b) prev"
    unfolding list_ex_iff by (metis imageI)
  moreover have "address b \<noteq> 0 \<and> 0 < share_bps b"
    using Cons.prems(1) by simp
  ultimately show ?case by simp
qed simp

lemma fuzz_owed_Inr:
  assumes "unat p * 10000 < 2 ^ 64" "list_all (\<lambda>b. unat (share_bps b) \<le> 10000) bs"
    and "unat acc + sum_list (map (entitlement (unat p)) bs) < 2 ^ 64"
  shows "\<exists>r. fuzz_owed p acc bs = Inr r \<and> unat r = unat acc + sum_list (map (entitlement (unat p)) bs)"
  using assms(2,3)
proof (induction bs arbitrary: acc)
  case (Cons b bs)
  let ?m = "p * ucast (share_bps b) :: u64"
  have "unat p * unat (share_bps b) < 2 ^ 64"
    by (rule le_less_trans [OF mult_le_mono2 assms(1)]) (use Cons.prems(1) in simp)
  then have m: "checked_mul p (ucast (share_bps b)) = Some ?m" "unat ?m = unat p * unat (share_bps b)"
    by (simp_all add: checked_mul_def unat_ucast_up unat_word_ariths)
  then have d: "unat (?m div 10000) = entitlement (unat p) b"
    by (simp add: unat_div entitlement_def)
  then have a: "checked_add acc (?m div 10000) = Some (acc + ?m div 10000)"
    "unat (acc + ?m div 10000) = unat acc + entitlement (unat p) b"
    using Cons.prems(2) by (simp_all add: checked_add_def unat_word_ariths)
  then obtain r where "fuzz_owed p (acc + ?m div 10000) bs = Inr r"
    "unat r = unat (acc + ?m div 10000) + sum_list (map (entitlement (unat p)) bs)"
    using Cons.IH [of "acc + ?m div 10000"] Cons.prems by auto
  then show ?case using m(1) a by simp
qed simp

lemma check_invariants_sound:
  assumes "vault_inv v" "is_claimed v \<longrightarrow> owed v \<le> unat balance" "unat (claim_pool v) * 10000 < 2 ^ 64"
  shows "check_invariants v balance = Inr ()"
proof -
  have t: "unat (beneficiary_count v) \<le> length (beneficiaries v)"
    "distinct (map address (heirs v))" "list_all (\<lambda>b. address b \<noteq> 0 \<and> 0 < share_bps b) (heirs v)"
    "shares_total (heirs v) = 10000"
    using assms(1) by (simp_all add: vault_inv_def valid_table_def)
  have total: "fuzz_total 0 (heirs v) = Inr 10000"
    using fuzz_total_Inr [of 0 "heirs v"] t(4) by simp
  have heirs: "fuzz_heirs [] (heirs v) = Inr ()"
    using fuzz_heirs_Inr [of "heirs v" "[]"] t(2,3) by simp
  show ?thesis
  proof (cases "is_claimed v")
    case False
    then have "claim_pool v = 0" "filter claimed (heirs v) = []"
      using assms(1) by (auto simp: vault_inv_def unpaid_def filter_empty_conv filter_id_conv)
    then show ?thesis
      using False t total heirs by (simp add: check_invariants_def heirs_def Let_def)
  next
    case True
    then have "0 < claim_pool v" using assms(1) by (simp add: vault_inv_def)
    moreover have "list_all (\<lambda>b. unat (share_bps b) \<le> 10000) (unpaid v)"
      using t(4) share_le_total [of _ "heirs v"] by (auto simp: list_all_iff unpaid_def)
    then obtain r where "fuzz_owed (claim_pool v) 0 (unpaid v) = Inr r" "unat r = owed v"
      using fuzz_owed_Inr [OF assms(3), of "unpaid v" 0] assms(2) True unat_less [of balance]
      by (auto simp: owed_def)
    ultimately show ?thesis
      using True t total heirs assms(2)
      by (simp add: check_invariants_def heirs_def [symmetric] unpaid_def [symmetric] Let_def word_le_nat_alt)
  qed
qed

end
