(* ===== verification/Client_Properties.thy ===== *)
theory Client_Properties
  imports Keeper Client_Errors Fuzz_Oracle Scenarios
begin

text \<open>
  The properties of the program's edge: transactions and account bytes, the two clients that
  produce and read them (the Rust client of the fuzz harness and the Go keeper), and the
  oracle of the fuzz harness.
\<close>

section \<open>Transactions\<close>

text \<open>
  C30: every instruction the Rust client can express reaches the program as it was meant.
  Serialised by the client and parsed again by the program it is the same entry point with
  the same accounts and arguments, signed by its authority and by nobody else.
\<close>

theorem client_round_trip:
  assumes "program_id rt = client_program_id" "client_can_name ix"
  shows "route rt (client_instruction ix) = Some ([authority ix], ix)"
  by (rule route_client_instruction [OF assms])

theorem client_round_trip_witness:
  "route (sample_rt\<lparr>program_id := client_program_id\<rparr>)
     (client_instruction (InitializeVault 1 1564 None 7 60 sample_inputs)) =
   Some ([1], InitializeVault 1 1564 None 7 60 sample_inputs)"
  using client_round_trip [of "sample_rt\<lparr>program_id := client_program_id\<rparr>"
      "InitializeVault 1 1564 None 7 60 sample_inputs"]
  by (simp add: client_can_name_def sample_inputs_def)

text \<open>
  C31: no transaction, whatever its bytes, gets more out of the program than its privileges: if
  it is routed to an entry point and that succeeds, its authority signed the transaction,
  and every account that changes is marked writable in it, so the runtime never has to
  undo a write of the program.
\<close>

theorem routed_writes_are_declared:
  assumes "runtime_laws rt" "route rt tx = Some (signers, ix)" "dispatch rt signers ix s = Inr s'"
  shows "authority ix \<in> set (signer_keys tx) \<and>
    (k \<in> set (writable_keys tx) \<or> accounts s' k = accounts s k)"
  using route_privileges [OF assms(2)] dispatch_authority [OF assms(3)] dispatch_writes [OF assms(1,3)]
  by (auto simp: writes_only_def)

theorem routed_writes_are_declared_witness:
  "2 \<in> set (signer_keys \<lparr>tx_program = 9, tx_metas = [meta_new 2 True, meta_new 1564 False],
     tx_bytes = claim_sol_discriminator @ [1, 2, 3]\<rparr>) \<and> accounts sol_tripped 3 = accounts sol_late 3"
proof -
  let ?tx = "\<lparr>tx_program = 9, tx_metas = [meta_new 2 True, meta_new 1564 False],
    tx_bytes = claim_sol_discriminator @ [1, 2, 3]\<rparr>"
  have "route sample_rt ?tx = Some ([2], ClaimSol 2 1564)"
    by (simp add: route_def Let_def client_defs slots_defs signer_keys_def writable_keys_def)
  from routed_writes_are_declared [OF sample_laws this, of sol_late sol_tripped 3] sol_claim_2_step
  show ?thesis by (simp add: writable_keys_def meta_new_def)
qed

text \<open>
  C40: the Go keeper and the Rust client send the same bytes and the same account references for
  every instruction the keeper knows (opening a SOL vault included, with a timeout in whole
  seconds that a Go duration can hold). Closing a SOL vault is the one exception, and
  a harmless one: the Rust client marks the stand-in for the omitted token account as
  writable, the keeper does not, and the program takes both for the same instruction.
\<close>

theorem keeper_and_client_agree:
  assumes "0 \<le> sint tmo" "sint tmo \<le> 9223372036" "program_id rt = client_program_id"
  shows "go_initialize_vault client_program_id own key ident (seconds_duration tmo) table =
      client_instruction (InitializeVault own key None ident tmo table) \<and>
    go_deposit_sol client_program_id own key amount = client_instruction (DepositSol own key amount) \<and>
    go_withdraw_sol client_program_id own key amount = client_instruction (WithdrawSol own key amount) \<and>
    go_check_in client_program_id own key = client_instruction (CheckIn own key) \<and>
    go_claim_sol client_program_id own key = client_instruction (ClaimSol own key) \<and>
    go_close_vault client_program_id own key \<noteq> client_instruction (CloseVault own key None None) \<and>
    route rt (go_close_vault client_program_id own key) =
      route rt (client_instruction (CloseVault own key None None))"
proof -
  have "go_initialize_vault client_program_id own key ident (seconds_duration tmo) table =
      client_instruction (InitializeVault own key None ident tmo table)"
    using whole_seconds_duration [OF assms(1,2)]
    by (simp add: go_instruction_defs client_defs append_heirs_enc enc_word_def enc_vec_def account_or_program_def)
  moreover have "go_deposit_sol client_program_id own key amount = client_instruction (DepositSol own key amount)"
    "go_withdraw_sol client_program_id own key amount = client_instruction (WithdrawSol own key amount)"
    "go_check_in client_program_id own key = client_instruction (CheckIn own key)"
    "go_claim_sol client_program_id own key = client_instruction (ClaimSol own key)"
    "go_close_vault client_program_id own key \<noteq> client_instruction (CloseVault own key None None)"
    by (simp_all add: go_instruction_defs client_defs enc_word_def account_or_program_def)
  moreover have "route rt (go_close_vault client_program_id own key) = Some ([own], CloseVault own key None None)"
    using assms(3)
    by (simp add: route_def Let_def go_instruction_defs client_defs slots_defs signer_keys_def writable_keys_def
        optional_key_def)
  moreover have "route rt (client_instruction (CloseVault own key None None)) = Some ([own], CloseVault own key None None)"
    using route_client_instruction [OF assms(3), of "CloseVault own key None None"]
    by (simp add: client_can_name_def)
  ultimately show ?thesis by simp
qed

theorem keeper_and_client_agree_witness:
  "go_initialize_vault client_program_id 1 1564 7 (seconds_duration 60) sample_inputs =
   client_instruction (InitializeVault 1 1564 None 7 60 sample_inputs)"
  using keeper_and_client_agree [of 60 "sample_rt\<lparr>program_id := client_program_id\<rparr>"] by simp

text \<open>
  The client knows every error of the program, by number and by text: the number the program
  reports for an error is mapped to exactly one client error, no other error of the
  program has that number, and the two messages are the same.
\<close>

theorem client_names_program_errors:
  "\<exists>c. client_from_code (error_number e) = Some c \<and> client_code c = error_number e \<and>
     client_msg c = error_message e \<and> (client_from_code (error_number e') = Some c \<longleftrightarrow> e' = e)"
proof -
  have "\<exists>c. client_code c = error_number e \<and> client_msg c = error_message e"
    by (cases e) (auto simp: error_number_def intro: client_code.simps client_msg.simps)
  then obtain c where "client_code c = error_number e" "client_msg c = error_message e" by blast
  then show ?thesis using client_from_code_Some_iff error_number_inject by metis
qed

section \<open>Account bytes\<close>

text \<open>
  C32: every vault of a reachable chain fits the account it is stored in and can be read back: the
  record written for it is no longer than the account's data, a save over the bytes of any
  other vault of the same kind leaves exactly the bytes of this one, and the program reads
  them as this vault again.
\<close>

theorem stored_vault_round_trips:
  assumes "runtime_laws rt" "find_program_address_law rt" "reachable rt s"
    and "vault_at (accounts s) key = Some v"
    and "length (beneficiaries old) = 5" "is_sol old = is_sol v"
  shows "length (vault_record v) \<le> data_len (accounts s key) \<and>
    length (vault_image v) = data_len (accounts s key) \<and>
    save_vault (vault_image old) v = Some (vault_image v) \<and> parse_vault (vault_image v) = Some v"
proof -
  have ok: "vault_ok rt key (accounts s key) v"
    using reachable_ok [OF assms(1-3)] assms(4) by (auto simp: vault_at_Some dest: ledger_okD)
  then have len: "length (beneficiaries v) = MAX_BENEFICIARIES"
    by (simp add: vault_ok_def vault_inv_def)
  moreover have "data_len (accounts s key) = account_size"
    using ok by (simp add: vault_ok_def account_size_def)
  ultimately show ?thesis
    using assms(5,6) save_vault_image [of old v] parse_vault_image [OF len] length_vault_image [OF len]
    by (simp add: length_vault_record account_size_eq MAX_BENEFICIARIES_def)
qed

theorem stored_vault_round_trips_witness:
  "save_vault (vault_image (sample_vault 7 None False False 0)) (sample_vault 7 None True False 1000000) =
     Some (vault_image (sample_vault 7 None True False 1000000))"
  using stored_vault_round_trips [OF sample_laws sample_find_law sol_reachable(4) sol_vaults(4),
      of "sample_vault 7 None False False 0"]
  by (simp add: sample_vault_def is_sol_def)

text \<open>The two vaults of \<open>tests/test_golden_layout.rs\<close>.\<close>

definition golden_key :: "u8 \<Rightarrow> pubkey" where
  "golden_key b = of_le_bytes (replicate 32 b)"

definition golden_heir :: "u8 \<Rightarrow> u16 \<Rightarrow> bool \<Rightarrow> beneficiary" where
  "golden_heir b bps paid = \<lparr>address = golden_key b, share_bps = bps, claimed = paid\<rparr>"

definition golden_sol :: vault where
  "golden_sol = \<lparr>owner = golden_key 0x11, vault_id = 7, mint = None, last_checkin = 1800000000,
     timeout_seconds = 30 * 24 * 60 * 60,
     beneficiaries = [golden_heir 0xA1 7000 False, golden_heir 0xB2 3000 False, beneficiary_default,
       beneficiary_default, beneficiary_default],
     beneficiary_count = 2, is_claimed = False, claim_pool = 0, bump = 254\<rparr>"

definition golden_spl :: vault where
  "golden_spl = \<lparr>owner = golden_key 0x22, vault_id = 0xFFFFFFFFFFFFFFFF, mint = Some (golden_key 0x33),
     last_checkin = 1700000000, timeout_seconds = 7 * 24 * 60 * 60,
     beneficiaries = [golden_heir 0xC3 5000 True, golden_heir 0xD4 3000 False, golden_heir 0xE5 2000 False,
       beneficiary_default, beneficiary_default],
     beneficiary_count = 3, is_claimed = True, claim_pool = 123456789012, bump = 250\<rparr>"

lemma enc_golden_key [simp]: "enc_word (golden_key b) = replicate 32 b"
  using le_bytes_of_le_bytes [where 'a = 256, of "replicate 32 b"]
  by (simp add: enc_word_def golden_key_def)

lemma enc_zero [simp]: "enc_word (0 :: 'a::len word) = replicate (LENGTH('a) div 8) 0"
  by (simp add: enc_word_def le_bytes_def map_replicate_const)

text \<open>
  The layout of the model is that of the golden files the repository keeps for its Go and Rust
  tests (\<open>keeper/testdata/vault_sol.bin\<close>, \<open>vault_spl.bin\<close>), byte for byte.
\<close>

theorem golden_files_match:
  "vault_image golden_sol =
     [211, 8, 232, 43, 2, 152, 117, 119] @ replicate 32 17 @ [7, 0, 0, 0, 0, 0, 0, 0, 0] @
     [0, 210, 73, 107, 0, 0, 0, 0, 0, 141, 39, 0, 0, 0, 0, 0] @
     replicate 32 161 @ [88, 27, 0] @ replicate 32 178 @ [184, 11, 0] @ replicate 105 0 @
     [2, 0, 0, 0, 0, 0, 0, 0, 0, 0, 254] @ replicate 32 0 \<and>
   vault_image golden_spl =
     [211, 8, 232, 43, 2, 152, 117, 119] @ replicate 32 34 @ replicate 8 255 @ [1] @ replicate 32 51 @
     [0, 241, 83, 101, 0, 0, 0, 0, 128, 58, 9, 0, 0, 0, 0, 0] @
     replicate 32 195 @ [136, 19, 1] @ replicate 32 212 @ [184, 11, 0] @ replicate 32 229 @ [208, 7, 0] @
     replicate 70 0 @ [3, 1, 20, 26, 153, 190, 28, 0, 0, 0, 250]"
proof -
  note encode = enc_vault_def golden_heir_def enc_beneficiary_def enc_array_def enc_bool_def enc_option_def
    beneficiary_default_def enc_word_def [where 'a = 8] enc_word_def [where 'a = 16]
    enc_word_def [where 'a = 64] le_bytes_def upt_rec
  have runs: "replicate 105 (0 :: u8) =
      replicate 32 0 @ [0, 0, 0] @ replicate 32 0 @ [0, 0, 0] @ replicate 32 0 @ [0, 0, 0]"
    "replicate 70 (0 :: u8) = replicate 32 0 @ [0, 0, 0] @ replicate 32 0 @ [0, 0, 0]"
    "replicate 8 (255 :: u8) = [255, 255, 255, 255, 255, 255, 255, 255]"
    by (simp_all add: numeral_eq_Suc)
  have "enc_vault golden_sol =
     replicate 32 17 @ [7, 0, 0, 0, 0, 0, 0, 0, 0] @ [0, 210, 73, 107, 0, 0, 0, 0, 0, 141, 39, 0, 0, 0, 0, 0] @
     replicate 32 161 @ [88, 27, 0] @ replicate 32 178 @ [184, 11, 0] @ replicate 105 0 @
     [2, 0, 0, 0, 0, 0, 0, 0, 0, 0, 254]"
    by (simp add: golden_sol_def encode runs)
  moreover have "enc_vault golden_spl =
     replicate 32 34 @ replicate 8 255 @ [1] @ replicate 32 51 @
     [0, 241, 83, 101, 0, 0, 0, 0, 128, 58, 9, 0, 0, 0, 0, 0] @
     replicate 32 195 @ [136, 19, 1] @ replicate 32 212 @ [184, 11, 0] @ replicate 32 229 @ [208, 7, 0] @
     replicate 70 0 @ [3, 1, 20, 26, 153, 190, 28, 0, 0, 0, 250]"
    by (simp add: golden_spl_def encode runs)
  ultimately show ?thesis
    by (simp add: vault_image_def vault_record_def vault_discriminator_def account_size_eq)
qed

section \<open>The keeper's view\<close>



text \<open>
  C34: the keeper's status means what the program does. Of a vault in a reachable chain, read at
  the second of the chain's clock, the keeper says "triggered" exactly when the switch has
  tripped, and "expired" exactly when it has not and a claim would get past the deadline;
  while it says "active" or "due soon", every claim is refused with \<open>TimeoutNotReached\<close>.
\<close>

theorem keeper_status_means_it:
  assumes "runtime_laws rt" "find_program_address_law rt" "reachable rt s"
    and "vault_at (accounts s) key = Some v" "decode_vault key (vault_image v) = Inr g"
  shows "case go_status_of g (time_unix now) due_soon of
      StatusTriggered \<Rightarrow> is_claimed v
    | StatusExpired \<Rightarrow> \<not> is_claimed v \<and> is_expired v now = Inr True
    | _ \<Rightarrow> \<not> is_claimed v \<and> authorize_claim v claimant now available = Inl (Dms TimeoutNotReached)"
proof -
  have inv: "vault_inv v"
    using reachable_ok [OF assms(1-3)] assms(4) by (auto simp: vault_at_Some vault_ok_def dest: ledger_okD)
  have view: "g = view_vault key v" using decode_vault_image [OF inv, of key] assms(5) by simp
  from keeper_deadline [OF inv, of key] obtain d where
    g: "deadline v = Inr d" "go_deadline g = sint d * 1000000000" unfolding view by blast
  have "gv_is_claimed g = is_claimed v" by (simp add: view view_vault_def)
  moreover  have "is_expired v now = Inr (sint d \<le> sint now)"
    using g(1) by (simp add: is_expired_def)
  ultimately show ?thesis
    using g by (auto simp: go_status_of_def time_unix_def authorize_claim_def)
qed

theorem keeper_status_means_it_witness:
  "authorize_claim (sample_vault 7 None False False 0) 2 1800000059 1000000 = Inl (Dms TimeoutNotReached)"
proof -
  let ?v = "sample_vault 7 None False False 0"
  have inv: "vault_inv ?v" by (simp add: sample_inv)
  have "go_status_of (view_vault 1564 ?v) (time_unix 1800000059) 0 = StatusActive"
    by (simp add: go_status_of_def go_deadline_def go_time_left_def view_vault_def sample_vault_def
        time_unix_def seconds_duration_def)
  then show ?thesis
    using keeper_status_means_it [OF sample_laws sample_find_law sol_reachable(2) sol_vaults(2)
        decode_vault_image [OF inv], where now = 1800000059 and due_soon = 0 and claimant = 2 and
        available = 1000000] by simp
qed

section \<open>The fuzz harness\<close>

text \<open>
  The oracle of the fuzz harness never fires. On every SOL vault of a reachable chain, with the
  lamports of its account, all the harness's assertions hold, as long as the pool is small
  enough for the harness's own 64-bit products (\<open>claim_pool * 10000 < 2 ^ 64\<close>).
\<close>

theorem fuzz_oracle_never_fires:
  assumes "runtime_laws rt" "find_program_address_law rt" "reachable rt s"
    and "vault_at (accounts s) key = Some v" "is_sol v" "unat (claim_pool v) * 10000 < 2 ^ 64"
  shows "check_invariants v (lamports (accounts s key)) = Inr ()"
proof -
  have ok: "vault_ok rt key (accounts s key) v"
    using reachable_ok [OF assms(1-3)] assms(4) by (auto simp: vault_at_Some dest: ledger_okD)
  have "unat (withdrawable_lamports rt (accounts s key)) \<le> unat (lamports (accounts s key))"
    by (simp add: unat_withdrawable)
  then show ?thesis
    using ok assms(5,6) by (intro check_invariants_sound) (auto simp: vault_ok_def solvent_def)
qed

theorem fuzz_oracle_never_fires_witness:
  "check_invariants (sample_vault 7 None True False 1000000) 3260560 = Inr ()"
  using fuzz_oracle_never_fires [OF sample_laws sample_find_law sol_reachable(4) sol_vaults(4)]
  by (simp add: sample_vault_def is_sol_def sol_tripped_def)

end
