(* ===== verification/Fuzz_Flows.thy ===== *)
theory Fuzz_Flows
  imports Fuzz_Oracle Wire
begin

text \<open>
  The fuzz harness itself, \<open>trident-tests/fuzz_0/test_fuzz.rs\<close> and \<open>fuzz_accounts.rs\<close>: the
  addresses it remembers, the flow that opens a vault, the six flows the fuzzer interleaves,
  and the assertions they make. A flow builds its transaction with the client of \<open>types.rs\<close>,
  which reaches the program through \<open>route\<close> and \<open>dispatch\<close>. What Trident decides or does is
  an argument: the addresses and numbers it draws, and the record \<open>trident\<close>.
\<close>

section \<open>The addresses of the harness\<close>

text \<open>An \<open>AddressStorage\<close> of Trident holds the addresses inserted into it, the oldest first.\<close>

type_synonym address_storage = "pubkey list"

record account_addresses =
  owner_store :: address_storage
  vault_store :: address_storage
  beneficiary_store :: address_storage
  mint_store :: address_storage
  vault_token_account_store :: address_storage
  beneficiary_token_account_store :: address_storage
  token_program_store :: address_storage
  associated_token_program_store :: address_storage
  system_program_store :: address_storage
  owner_token_account_store :: address_storage
  stranger_store :: address_storage

definition addresses_default :: account_addresses where
  "addresses_default = \<lparr>owner_store = [], vault_store = [], beneficiary_store = [], mint_store = [],
     vault_token_account_store = [], beneficiary_token_account_store = [], token_program_store = [],
     associated_token_program_store = [], system_program_store = [], owner_token_account_store = [],
     stranger_store = []\<rparr>"

section \<open>Trident\<close>

text \<open>
  What a flow asks of Trident: the answer of the \<open>n\<close>-th \<open>get\<close> of the flow, an airdrop, what
  the ledger loses to the fee of a transaction, and the clock after a jump.
\<close>

record trident =
  pick :: "nat \<Rightarrow> address_storage \<Rightarrow> pubkey option"
  airdrop :: "pubkey \<Rightarrow> u64 \<Rightarrow> ledger \<Rightarrow> ledger"
  charge_fee :: "ledger \<Rightarrow> ledger"
  forward_in_time :: "i64 \<Rightarrow> i64 \<Rightarrow> i64"

record fuzz_test =
  fuzz_accounts :: account_addresses
  fuzz_chain :: chain

definition fuzz_test_new :: "chain \<Rightarrow> fuzz_test" where
  "fuzz_test_new s = \<lparr>fuzz_accounts = addresses_default, fuzz_chain = s\<rparr>"

definition lamports_per_sol :: u64 where
  "lamports_per_sol = 1000000000"

definition fund :: "trident \<Rightarrow> pubkey \<Rightarrow> u64 \<Rightarrow> fuzz_test \<Rightarrow> fuzz_test" where
  "fund tr k n f = f\<lparr>fuzz_chain := (fuzz_chain f)\<lparr>accounts := airdrop tr k n (accounts (fuzz_chain f))\<rparr>\<rparr>"

text \<open>A transaction of one instruction: whether it succeeded, and the chain after it.\<close>

definition process_transaction :: "trident \<Rightarrow> runtime \<Rightarrow> instruction \<Rightarrow> chain \<Rightarrow> bool \<times> chain" where
  "process_transaction tr rt ix s =
     (let s0 = s\<lparr>accounts := charge_fee tr (accounts s)\<rparr>
      in case route rt (client_instruction ix) of
           None \<Rightarrow> (False, s0)
         | Some (signers, ix') \<Rightarrow>
             (case dispatch rt signers ix' s0 of Inl e \<Rightarrow> (False, s0) | Inr s' \<Rightarrow> (True, s')))"

section \<open>Helpers of the flows\<close>

datatype flow_failure =
    Invariant fuzz_failure
  | DeadlineMovedBack
  | CheckInAfterClaim
  | ClaimedFromNothing
  | DeadlineOverflow
  | ClaimedEarly
  | ClaimantNotListed
  | PaidTwice
  | StrangerSucceeded instruction

definition fuzz_read_vault :: "chain \<Rightarrow> pubkey \<Rightarrow> vault option" where
  "fuzz_read_vault s key = vault_at (accounts s) key"

definition owner_and_vault :: "trident \<Rightarrow> fuzz_test \<Rightarrow> (pubkey \<times> pubkey) option" where
  "owner_and_vault tr f =
     Option.bind (pick tr 0 (owner_store (fuzz_accounts f))) (\<lambda>own.
     Option.bind (pick tr 1 (vault_store (fuzz_accounts f))) (\<lambda>key.
       Some (own, key)))"

text \<open>\<open>check_invariants\<close> from the harness: nothing to check while there is no vault.\<close>

definition fuzz_check :: "trident \<Rightarrow> nat \<Rightarrow> fuzz_test \<Rightarrow> flow_failure + fuzz_test" where
  "fuzz_check tr n f =
     (case pick tr n (vault_store (fuzz_accounts f)) of
        None \<Rightarrow> Inr f
      | Some key \<Rightarrow>
          (case fuzz_read_vault (fuzz_chain f) key of
             None \<Rightarrow> Inr f
           | Some v \<Rightarrow>
               (case check_invariants v (lamports (accounts (fuzz_chain f) key)) of
                  Inl e \<Rightarrow> Inl (Invariant e)
                | Inr _ \<Rightarrow> Inr f)))"

section \<open>Opening the vault\<close>

definition FUZZ_VAULT_ID :: u64 where
  "FUZZ_VAULT_ID = 1"

definition SHARES :: "u16 list" where
  "SHARES = [5000, 3333, 1667]"

record fuzz_draws =
  drawn_owner :: pubkey
  drawn_heirs :: "pubkey list"
  drawn_timeout :: i64
  drawn_amount :: u64

fun insert_heirs :: "trident \<Rightarrow> pubkey list \<Rightarrow> fuzz_test \<Rightarrow> fuzz_test" where
  "insert_heirs tr [] f = f"
| "insert_heirs tr (h # hs) f =
     insert_heirs tr hs (fund tr h (10 * lamports_per_sol)
       (f\<lparr>fuzz_accounts := (fuzz_accounts f)
            \<lparr>beneficiary_store := beneficiary_store (fuzz_accounts f) @ [h]\<rparr>\<rparr>))"

definition fuzz_table :: "pubkey list \<Rightarrow> beneficiary_input list" where
  "fuzz_table hs = map (\<lambda>(a, bps). \<lparr>input_address = a, input_share_bps = bps\<rparr>) (zip hs SHARES)"

definition fuzz_start ::
  "trident \<Rightarrow> runtime \<Rightarrow> fuzz_draws \<Rightarrow> fuzz_test \<Rightarrow> flow_failure + fuzz_test" where
  "fuzz_start tr rt d f =
     (let own = drawn_owner d;
          f1 = fund tr own (1000 * lamports_per_sol)
                 (f\<lparr>fuzz_accounts := (fuzz_accounts f)\<lparr>owner_store := owner_store (fuzz_accounts f) @ [own]\<rparr>\<rparr>);
          f2 = insert_heirs tr (drawn_heirs d) f1;
          key = fst (find_program_address rt (vault_seeds own FUZZ_VAULT_ID));
          f3 = f2\<lparr>fuzz_accounts := (fuzz_accounts f2)\<lparr>vault_store := vault_store (fuzz_accounts f2) @ [key]\<rparr>\<rparr>
      in case process_transaction tr rt
                (InitializeVault own key None FUZZ_VAULT_ID (drawn_timeout d) (fuzz_table (drawn_heirs d)))
                (fuzz_chain f3) of
           (False, s) \<Rightarrow> Inr (f3\<lparr>fuzz_chain := s\<rparr>)
         | (True, s) \<Rightarrow>
             (case process_transaction tr rt (DepositSol own key (drawn_amount d)) s of
                (_, s') \<Rightarrow> fuzz_check tr 0 (f3\<lparr>fuzz_chain := s'\<rparr>)))"

section \<open>The flows\<close>

definition owner_deposits ::
  "trident \<Rightarrow> runtime \<Rightarrow> u64 \<Rightarrow> fuzz_test \<Rightarrow> flow_failure + fuzz_test" where
  "owner_deposits tr rt amount f =
     (case owner_and_vault tr f of
        None \<Rightarrow> Inr f
      | Some (own, key) \<Rightarrow>
          (case process_transaction tr rt (DepositSol own key amount) (fuzz_chain f) of
             (_, s) \<Rightarrow> fuzz_check tr 2 (f\<lparr>fuzz_chain := s\<rparr>)))"

definition owner_withdraws ::
  "trident \<Rightarrow> runtime \<Rightarrow> u64 \<Rightarrow> fuzz_test \<Rightarrow> flow_failure + fuzz_test" where
  "owner_withdraws tr rt amount f =
     (case owner_and_vault tr f of
        None \<Rightarrow> Inr f
      | Some (own, key) \<Rightarrow>
          (case process_transaction tr rt (WithdrawSol own key amount) (fuzz_chain f) of
             (_, s) \<Rightarrow> fuzz_check tr 2 (f\<lparr>fuzz_chain := s\<rparr>)))"

definition owner_checks_in :: "trident \<Rightarrow> runtime \<Rightarrow> fuzz_test \<Rightarrow> flow_failure + fuzz_test" where
  "owner_checks_in tr rt f =
     (case owner_and_vault tr f of
        None \<Rightarrow> Inr f
      | Some (own, key) \<Rightarrow>
          (case process_transaction tr rt (CheckIn own key) (fuzz_chain f) of
             (success, s) \<Rightarrow>
               and_then
                 (case (success, fuzz_read_vault (fuzz_chain f) key, fuzz_read_vault s key) of
                    (True, Some before, Some after) \<Rightarrow>
                      and_then (require (sint (last_checkin before) \<le> sint (last_checkin after))
                                  DeadlineMovedBack) (\<lambda>_.
                        require (\<not> is_claimed before) CheckInAfterClaim)
                  | _ \<Rightarrow> Inr ()) (\<lambda>_.
               fuzz_check tr 2 (f\<lparr>fuzz_chain := s\<rparr>))))"

definition time_passes :: "trident \<Rightarrow> i64 \<Rightarrow> fuzz_test \<Rightarrow> flow_failure + fuzz_test" where
  "time_passes tr seconds f =
     (let s = fuzz_chain f
      in fuzz_check tr 0
           (f\<lparr>fuzz_chain := s\<lparr>unix_timestamp := forward_in_time tr (unix_timestamp s) seconds\<rparr>\<rparr>))"

text \<open>The timestamp of a transaction is the clock of the chain it runs on.\<close>

definition heir_claims :: "trident \<Rightarrow> runtime \<Rightarrow> fuzz_test \<Rightarrow> flow_failure + fuzz_test" where
  "heir_claims tr rt f =
     (case pick tr 0 (vault_store (fuzz_accounts f)) of
        None \<Rightarrow> Inr f
      | Some key \<Rightarrow>
     (case pick tr 1 (beneficiary_store (fuzz_accounts f)) of
        None \<Rightarrow> Inr f
      | Some heir \<Rightarrow>
          (case process_transaction tr rt (ClaimSol heir key) (fuzz_chain f) of
             (success, s) \<Rightarrow>
               and_then
                 (if success then
                    and_then (ok_or (fuzz_read_vault (fuzz_chain f) key) ClaimedFromNothing) (\<lambda>before.
                    and_then (ok_or (checked_add_i64 (last_checkin before) (timeout_seconds before))
                                DeadlineOverflow) (\<lambda>due.
                    and_then (require (sint due \<le> sint (unix_timestamp (fuzz_chain f))) ClaimedEarly) (\<lambda>_.
                    and_then (ok_or (find (\<lambda>b. address b = heir)
                                      (take (unat (beneficiary_count before)) (beneficiaries before)))
                                ClaimantNotListed) (\<lambda>entry.
                      require (\<not> claimed entry) PaidTwice))))
                  else Inr ()) (\<lambda>_.
               fuzz_check tr 2 (f\<lparr>fuzz_chain := s\<rparr>)))))"

fun stranger_attempts ::
  "trident \<Rightarrow> runtime \<Rightarrow> instruction list \<Rightarrow> chain \<Rightarrow> flow_failure + chain" where
  "stranger_attempts tr rt [] s = Inr s"
| "stranger_attempts tr rt (ix # ixs) s =
     (case process_transaction tr rt ix s of
        (success, s') \<Rightarrow>
          and_then (require (\<not> success) (StrangerSucceeded ix)) (\<lambda>_. stranger_attempts tr rt ixs s'))"

definition stranger_attacks ::
  "trident \<Rightarrow> runtime \<Rightarrow> pubkey \<Rightarrow> u64 \<Rightarrow> fuzz_test \<Rightarrow> flow_failure + fuzz_test" where
  "stranger_attacks tr rt stranger amount f =
     (case pick tr 0 (vault_store (fuzz_accounts f)) of
        None \<Rightarrow> Inr f
      | Some key \<Rightarrow>
          let f1 = fund tr stranger (10 * lamports_per_sol)
                     (f\<lparr>fuzz_accounts := (fuzz_accounts f)
                          \<lparr>stranger_store := stranger_store (fuzz_accounts f) @ [stranger]\<rparr>\<rparr>)
          in and_then (stranger_attempts tr rt
                 [CheckIn stranger key, WithdrawSol stranger key amount, ClaimSol stranger key]
                 (fuzz_chain f1)) (\<lambda>s.
               fuzz_check tr 1 (f1\<lparr>fuzz_chain := s\<rparr>)))"

definition fuzz_end :: "trident \<Rightarrow> fuzz_test \<Rightarrow> flow_failure + fuzz_test" where
  "fuzz_end tr f = fuzz_check tr 0 f"

section \<open>An iteration of the fuzzer\<close>

datatype fuzz_flow =
    OwnerDeposits u64
  | OwnerWithdraws u64
  | OwnerChecksIn
  | TimePasses i64
  | HeirClaims
  | StrangerAttacks pubkey u64

fun exec_flow :: "trident \<Rightarrow> runtime \<Rightarrow> fuzz_flow \<Rightarrow> fuzz_test \<Rightarrow> flow_failure + fuzz_test" where
  "exec_flow tr rt (OwnerDeposits amount) f = owner_deposits tr rt amount f"
| "exec_flow tr rt (OwnerWithdraws amount) f = owner_withdraws tr rt amount f"
| "exec_flow tr rt OwnerChecksIn f = owner_checks_in tr rt f"
| "exec_flow tr rt (TimePasses seconds) f = time_passes tr seconds f"
| "exec_flow tr rt HeirClaims f = heir_claims tr rt f"
| "exec_flow tr rt (StrangerAttacks stranger amount) f = stranger_attacks tr rt stranger amount f"

fun exec_flows ::
  "runtime \<Rightarrow> (trident \<times> fuzz_flow) list \<Rightarrow> fuzz_test \<Rightarrow> flow_failure + fuzz_test" where
  "exec_flows rt [] f = Inr f"
| "exec_flows rt ((tr, fl) # fls) f = and_then (exec_flow tr rt fl f) (exec_flows rt fls)"

text \<open>\<open>#[init]\<close>, the chosen flows, \<open>#[end]\<close>. Trident answers anew in each of them.\<close>

definition fuzz_iteration ::
  "runtime \<Rightarrow> trident \<Rightarrow> fuzz_draws \<Rightarrow> (trident \<times> fuzz_flow) list \<Rightarrow> trident \<Rightarrow> chain
     \<Rightarrow> flow_failure + fuzz_test" where
  "fuzz_iteration rt tr d fls tr' s =
     and_then (fuzz_start tr rt d (fuzz_test_new s)) (\<lambda>f.
     and_then (exec_flows rt fls f) (fuzz_end tr'))"

end
