(* ===== verification/Fuzz_Campaign.thy ===== *)
theory Fuzz_Campaign
  imports Fuzz_Flows Lifecycle
begin

text \<open>
  No assertion of the fuzz harness can fire. \<open>chain_inv\<close> is what every flow keeps of the
  chain: the vault of the harness is sound, belongs to its owner, names only its heirs, was
  checked in in the past, and neither it nor its pool holds more than a bound that grows with
  every deposit. The bound is what keeps the oracle's own \<open>u64\<close> product from overflowing.
\<close>

section \<open>What is known of Trident\<close>

text \<open>
  A storage answers with an address it holds; an airdrop credits one account, a fee debits
  accounts and leaves vaults alone; no jump leads backwards.
\<close>

definition trident_laws :: "trident \<Rightarrow> bool" where
  "trident_laws tr \<longleftrightarrow>
     (\<forall>n st k. pick tr n st = Some k \<longrightarrow> k \<in> set st) \<and>
     (\<forall>k n A j. data (airdrop tr k n A j) = data (A j) \<and> data_len (airdrop tr k n A j) = data_len (A j) \<and>
        unat (lamports (A j)) \<le> unat (lamports (airdrop tr k n A j)) \<and> (j \<noteq> k \<longrightarrow> airdrop tr k n A j = A j)) \<and>
     (\<forall>A j. data (charge_fee tr A j) = data (A j) \<and>
        unat (lamports (charge_fee tr A j)) \<le> unat (lamports (A j)) \<and>
        (vault_at A j \<noteq> None \<longrightarrow> charge_fee tr A j = A j)) \<and>
     (\<forall>t n. 0 \<le> sint n \<longrightarrow> sint t \<le> sint (forward_in_time tr t n))"

text \<open>Anchor's \<open>init\<close> tops an account up to its reserve, and no further.\<close>

definition init_exact_law :: "runtime \<Rightarrow> bool" where
  "init_exact_law rt \<longleftrightarrow> (\<forall>payer key space A A'. init_account rt payer key space A = Inr A' \<longrightarrow>
     unat (lamports (A' key)) \<le> max (unat (minimum_balance rt space)) (unat (lamports (A key))))"

lemma pick_mem: "trident_laws tr \<Longrightarrow> pick tr n st = Some k \<Longrightarrow> k \<in> set st"
  unfolding trident_laws_def by blast

lemma pick_single: "trident_laws tr \<Longrightarrow> pick tr n [k] = None \<or> pick tr n [k] = Some k"
  by (cases "pick tr n [k]") (auto dest: pick_mem)

section \<open>What every flow keeps\<close>

definition harness_vault_ok :: "pubkey \<Rightarrow> pubkey list \<Rightarrow> nat \<Rightarrow> i64 \<Rightarrow> vault \<Rightarrow> bool" where
  "harness_vault_ok own hs B now v \<longleftrightarrow>
     owner v = own \<and> is_sol v \<and> sint (last_checkin v) \<le> sint now \<and> unat (claim_pool v) \<le> B \<and>
     address ` set (heirs v) \<subseteq> set hs"

definition chain_inv :: "runtime \<Rightarrow> pubkey \<Rightarrow> pubkey \<Rightarrow> pubkey list \<Rightarrow> nat \<Rightarrow> chain \<Rightarrow> bool" where
  "chain_inv rt own key hs B s \<longleftrightarrow>
     ledger_ok rt (accounts s) \<and> unat (lamports (accounts s key)) \<le> B \<and>
     (\<forall>v. vault_at (accounts s) key = Some v \<longrightarrow> harness_vault_ok own hs B (unix_timestamp s) v)"

lemma chain_inv_mono: "chain_inv rt own key hs B s \<Longrightarrow> B \<le> B' \<Longrightarrow> chain_inv rt own key hs B' s"
  by (fastforce simp: chain_inv_def harness_vault_ok_def)

lemma chain_inv_vault:
  assumes "chain_inv rt own key hs B s" "vault_at (accounts s) key = Some v"
  shows "vault_ok rt key (accounts s key) v" "vault_inv v" "harness_vault_ok own hs B (unix_timestamp s) v"
  using assms by (auto simp: chain_inv_def vault_at_Some vault_ok_def dest: ledger_okD)

text \<open>A change that spares the vault and adds no lamports to it.\<close>

lemma chain_inv_frame:
  assumes "chain_inv rt own key hs B s" "vaults_kept (accounts s) (accounts s')"
    and "unat (lamports (accounts s' key)) \<le> B" "sint (unix_timestamp s) \<le> sint (unix_timestamp s')"
  shows "chain_inv rt own key hs B s'"
proof -
  have "vault_at (accounts s') key = vault_at (accounts s) key"
    using vaults_keptD [OF assms(2)] by (simp add: kept_at_def)
  then show ?thesis
    using assms ledger_ok_kept [OF assms(2)] by (fastforce simp: chain_inv_def harness_vault_ok_def)
qed

lemma chain_inv_fee:
  assumes "trident_laws tr" "chain_inv rt own key hs B s"
  shows "chain_inv rt own key hs B (s\<lparr>accounts := charge_fee tr (accounts s)\<rparr>)"
proof (rule chain_inv_frame [OF assms(2)])
  have fee: "data (charge_fee tr A j) = data (A j)"
      "unat (lamports (charge_fee tr A j)) \<le> unat (lamports (A j))"
      "vault_at A j \<noteq> None \<Longrightarrow> charge_fee tr A j = A j" for A j
    using assms(1) by (simp_all add: trident_laws_def)
  then show "vaults_kept (accounts s) (accounts (s\<lparr>accounts := charge_fee tr (accounts s)\<rparr>))"
    by (auto simp: vaults_kept_def kept_at_def vault_at_def)
  show "unat (lamports (accounts (s\<lparr>accounts := charge_fee tr (accounts s)\<rparr>) key)) \<le> B"
    using fee(2) [of "accounts s" key] assms(2) by (simp add: chain_inv_def)
qed simp

lemma chain_inv_fund:
  assumes "trident_laws tr" "chain_inv rt own key hs B (fuzz_chain f)" "k \<noteq> key"
  shows "chain_inv rt own key hs B (fuzz_chain (fund tr k n f))"
proof (rule chain_inv_frame [OF assms(2)])
  let ?A = "accounts (fuzz_chain f)"
  have a: "data (airdrop tr k n ?A j) = data (?A j)" "data_len (airdrop tr k n ?A j) = data_len (?A j)"
      "unat (lamports (?A j)) \<le> unat (lamports (airdrop tr k n ?A j))"
      "j \<noteq> k \<Longrightarrow> airdrop tr k n ?A j = ?A j" for j
    using assms(1) by (simp_all add: trident_laws_def)
  then show "vaults_kept ?A (accounts (fuzz_chain (fund tr k n f)))"
    by (simp add: vaults_kept_def kept_at_def vault_at_def fund_def)
  show "unat (lamports (accounts (fuzz_chain (fund tr k n f)) key)) \<le> B"
    using a(4) [of key] assms(2,3) by (simp add: chain_inv_def fund_def)
qed (simp add: fund_def)

lemma chain_inv_time:
  assumes "trident_laws tr" "chain_inv rt own key hs B s" "0 \<le> sint n"
  shows "chain_inv rt own key hs B (s\<lparr>unix_timestamp := forward_in_time tr (unix_timestamp s) n\<rparr>)"
  using assms by (intro chain_inv_frame [OF assms(2)]) (auto simp: chain_inv_def trident_laws_def)

section \<open>What the instructions of the flows do to it\<close>

lemma deposit_keeps:
  assumes law: "runtime_laws rt" and inv: "chain_inv rt own key hs B s"
    and run: "deposit_sol rt signers own key amount s = Inr s'"
  shows "chain_inv rt own key hs (B + unat amount) s'"
proof -
  note tr_law = runtime_lawsD(1) [OF law]
  from run obtain A where tr: "system_transfer rt own key amount (accounts s) = Inr A"
    and s': "s' = s\<lparr>accounts := A\<rparr>"
    by (auto simp: deposit_sol_Inr)
  have over: "own \<noteq> key \<Longrightarrow> unat (lamports (accounts s key)) + unat amount < 2 ^ 64"
    and A: "A key = (if own = key then accounts s key
                     else (accounts s key)\<lparr>lamports := lamports (accounts s key) + amount\<rparr>)"
    using tr_law tr unfolding system_transfer_law_def by (blast, fastforce)
  have "unat (lamports (A key)) \<le> B + unat amount"
    using inv over by (auto simp: A chain_inv_def unat_word_ariths)
  then show ?thesis
    using chain_inv_frame [OF chain_inv_mono [OF inv le_add1], of s'] system_transfer_kept [OF tr_law tr]
    by (simp add: s')
qed

lemma withdraw_keeps:
  assumes inv: "chain_inv rt own key hs B s" and ne: "own \<noteq> key"
    and run: "withdraw_sol rt signers own key amount s = Inr s'"
  shows "chain_inv rt own key hs B s'"
proof -
  from run obtain A where mv: "move_lamports key own amount (accounts s) = Inr A"
    and s': "s' = s\<lparr>accounts := A\<rparr>"
    by (auto simp: withdraw_sol_Inr)
  have "unat (lamports (A key)) \<le> unat (lamports (accounts s key))"
    using mv ne by (auto simp: move_lamports_Inr unat_minus_le)
  then show ?thesis
    using inv withdraw_sol_ok [OF _ run] move_lamports_vaults [OF mv] by (auto simp: chain_inv_def s')
qed

lemma store_keeps:
  assumes "ledger_ok rt (store_vault key v' A)" "harness_vault_ok own hs B t v'"
    and "unat (lamports (A key)) \<le> B"
  shows "chain_inv rt own key hs B \<lparr>accounts = store_vault key v' A, unix_timestamp = t\<rparr>"
  using assms by (auto simp: chain_inv_def vault_at_store) (simp add: store_vault_def)

lemma check_in_keeps:
  assumes inv: "chain_inv rt own key hs B s" and run: "check_in rt signers own key s = Inr s'"
  shows "chain_inv rt own key hs B s'"
    and "\<exists>v. vault_at (accounts s) key = Some v \<and> \<not> is_claimed v \<and>
           vault_at (accounts s') key = Some (v\<lparr>last_checkin := unix_timestamp s\<rparr>)"
proof -
  from run obtain v v' where v: "vault_at (accounts s) key = Some v" "\<not> is_claimed v"
    and h: "handle_check_in v (unix_timestamp s) = Inr v'"
    and s': "s' = s\<lparr>accounts := store_vault key v' (accounts s)\<rparr>"
    by (auto simp: check_in_Inr accounts_check_in_Inr load_vault_Inr vault_at_Some)
  note ok = chain_inv_vault [OF inv v(1)]
  have v': "v' = v\<lparr>last_checkin := unix_timestamp s\<rparr>" using h by (simp add: handle_check_in_Inr [OF ok(2)])
  have "ledger_ok rt (accounts s')" using inv check_in_ok [OF _ run] by (simp add: chain_inv_def)
  moreover have "harness_vault_ok own hs B (unix_timestamp s) v'"
    using ok(3) by (simp add: harness_vault_ok_def v' is_sol_def)
  ultimately show "chain_inv rt own key hs B s'"
    using store_keeps [of rt key v' "accounts s" own hs B "unix_timestamp s"] inv
    by (cases s) (simp add: s' chain_inv_def)
  show "\<exists>v. vault_at (accounts s) key = Some v \<and> \<not> is_claimed v \<and>
      vault_at (accounts s') key = Some (v\<lparr>last_checkin := unix_timestamp s\<rparr>)"
    using v by (simp add: s' v' vault_at_store)
qed

lemma claim_keeps:
  assumes inv: "chain_inv rt own key hs B s" and ne: "k \<noteq> key"
    and run: "claim_sol rt signers k key s = Inr s'"
  shows "chain_inv rt own key hs B s'"
    and "\<exists>v amt v'. vault_at (accounts s) key = Some v \<and>
      book_claim v k (unix_timestamp s) (withdrawable_lamports rt (accounts s key)) = Inr (amt, v')"
proof -
  let ?avail = "withdrawable_lamports rt (accounts s key)"
  from run obtain v amt v' A where v: "vault_at (accounts s) key = Some v"
    and book: "book_claim v k (unix_timestamp s) ?avail = Inr (amt, v')"
    and mv: "move_lamports key k amt (accounts s) = Inr A"
    and s': "s' = s\<lparr>accounts := store_vault key v' A\<rparr>"
    by (auto simp: claim_sol_Inr accounts_claim_sol_Inr load_vault_Inr vault_at_Some)
  note ok = chain_inv_vault [OF inv v]
  note frame = book_claim_frame [OF ok(2) book]
  have le: "unat (lamports (A key)) \<le> B" "unat ?avail \<le> B"
    using mv ne inv by (auto simp: move_lamports_Inr unat_minus_le unat_withdrawable chain_inv_def)
  have "claim_pool v' = (if is_claimed v then claim_pool v else ?avail)"
    using book by (auto simp: book_claim_Inr [OF ok(2)])
  moreover have "address ` set (heirs v') = address ` set (heirs v)"
    using frame(8) by (metis list.set_map)
  ultimately have "harness_vault_ok own hs B (unix_timestamp s) v'"
    using ok(3) le(2) frame by (simp add: harness_vault_ok_def is_sol_def)
  moreover have "ledger_ok rt (accounts s')" using inv claim_sol_ok [OF _ run] by (simp add: chain_inv_def)
  ultimately show "chain_inv rt own key hs B s'"
    using store_keeps [of rt key v' A own hs B "unix_timestamp s"] le(1)
    by (cases s) (simp add: s')
  show "\<exists>v amt v'. vault_at (accounts s) key = Some v \<and>
      book_claim v k (unix_timestamp s) ?avail = Inr (amt, v')"
    using v book by blast
qed

section \<open>Transactions of the harness\<close>

text \<open>A thousand SOL, more than the rent of a vault.\<close>

definition base_balance :: nat where
  "base_balance = 10 ^ 12"

definition fuzz_world :: "runtime \<Rightarrow> bool" where
  "fuzz_world rt \<longleftrightarrow> runtime_laws rt \<and> find_program_address_law rt \<and> init_exact_law rt \<and>
     program_id rt = client_program_id \<and> unat (minimum_balance rt (8 + vault_init_space)) \<le> base_balance"

lemma process_transactionE:
  assumes "program_id rt = client_program_id" "client_can_name ix"
  obtains (refused) "process_transaction tr rt ix s = (False, s\<lparr>accounts := charge_fee tr (accounts s)\<rparr>)"
  | (accepted) s' where "process_transaction tr rt ix s = (True, s')"
      "dispatch rt [authority ix] ix (s\<lparr>accounts := charge_fee tr (accounts s)\<rparr>) = Inr s'"
  using route_client_instruction [OF assms]
  by (cases "dispatch rt [authority ix] ix (s\<lparr>accounts := charge_fee tr (accounts s)\<rparr>)")
     (auto simp: process_transaction_def)

lemma fee_vault: "trident_laws tr \<Longrightarrow> vault_at (charge_fee tr A) j = vault_at A j"
  by (simp add: trident_laws_def vault_at_def)

definition fuzz_inv :: "runtime \<Rightarrow> pubkey \<Rightarrow> pubkey \<Rightarrow> pubkey list \<Rightarrow> nat \<Rightarrow> fuzz_test \<Rightarrow> bool" where
  "fuzz_inv rt own key hs B f \<longleftrightarrow>
     owner_store (fuzz_accounts f) = [own] \<and> vault_store (fuzz_accounts f) = [key] \<and>
     beneficiary_store (fuzz_accounts f) = hs \<and> key \<notin> set (own # hs) \<and>
     chain_inv rt own key hs B (fuzz_chain f)"

lemma fuzz_inv_chain [simp]:
  "fuzz_inv rt own key hs B f \<Longrightarrow>
     fuzz_inv rt own key hs B' (f\<lparr>fuzz_chain := s\<rparr>) \<longleftrightarrow> chain_inv rt own key hs B' s"
  by (simp add: fuzz_inv_def)

lemma fuzz_check_passes:
  assumes "trident_laws tr" "fuzz_inv rt own key hs B f" "B * 10000 < 2 ^ 64"
  shows "fuzz_check tr n f = Inr f"
proof (cases "vault_at (accounts (fuzz_chain f)) key")
  case None
  then show ?thesis
    using assms(2) pick_single [OF assms(1), of n key] by (auto simp: fuzz_inv_def fuzz_check_def fuzz_read_vault_def)
next
  case (Some v)
  let ?a = "accounts (fuzz_chain f) key"
  have inv: "chain_inv rt own key hs B (fuzz_chain f)" using assms(2) by (simp add: fuzz_inv_def)
  note ok = chain_inv_vault [OF inv Some]
  have "unat (claim_pool v) * 10000 \<le> B * 10000"
    using ok(3) by (intro mult_le_mono1) (simp add: harness_vault_ok_def)
  then have pool: "unat (claim_pool v) * 10000 < 2 ^ 64" using assms(3) by linarith
  have "solvent v (unat (withdrawable_lamports rt ?a))"
    using ok(1,3) by (simp add: vault_ok_def harness_vault_ok_def)
  then have "solvent v (unat (lamports ?a))"
    by (rule solvent_mono) (simp add: unat_withdrawable)
  then have "check_invariants v (lamports ?a) = Inr ()"
    using ok(2) pool by (intro check_invariants_sound) (auto simp: solvent_def)
  then show ?thesis
    using Some assms(2) pick_single [OF assms(1), of n key]
    by (auto simp: fuzz_inv_def fuzz_check_def fuzz_read_vault_def)
qed

lemma owner_and_vault_cases:
  assumes "trident_laws tr" "fuzz_inv rt own key hs B f"
  shows "owner_and_vault tr f = None \<or> owner_and_vault tr f = Some (own, key)"
  using assms(2) pick_single [OF assms(1), of 0 own] pick_single [OF assms(1), of 1 key]
  by (auto simp: owner_and_vault_def fuzz_inv_def)

lemma chain_inv_process:
  assumes world: "fuzz_world rt" and laws: "trident_laws tr" and inv: "chain_inv rt own key hs B s"
    and name: "client_can_name ix"
    and step: "\<And>s0 s'. chain_inv rt own key hs B s0 \<Longrightarrow> dispatch rt [authority ix] ix s0 = Inr s' \<Longrightarrow>
      chain_inv rt own key hs (B + n) s'"
  shows "chain_inv rt own key hs (B + n) (snd (process_transaction tr rt ix s))"
  using assms(1) name chain_inv_fee [OF laws inv]
  by (auto simp: fuzz_world_def intro: step chain_inv_mono elim!: process_transactionE [of rt ix tr s])

section \<open>No flow fails\<close>

definition most_drawn :: nat where
  "most_drawn = 20 * unat lamports_per_sol"

text \<open>
  The ranges the flows draw from, and that a new stranger is nobody the harness knows.
\<close>

fun flow_ok :: "pubkey list \<Rightarrow> fuzz_flow \<Rightarrow> bool" where
  "flow_ok known (OwnerDeposits amount) = (unat amount < 20 * unat lamports_per_sol)"
| "flow_ok known (OwnerWithdraws amount) = (unat amount < 80 * unat lamports_per_sol)"
| "flow_ok known OwnerChecksIn = True"
| "flow_ok known (TimePasses seconds) = (1 \<le> sint seconds \<and> sint seconds < 7200)"
| "flow_ok known HeirClaims = True"
| "flow_ok known (StrangerAttacks stranger amount) =
     (stranger \<notin> set known \<and> 1 \<le> unat amount \<and> unat amount < 10 * unat lamports_per_sol)"

lemma check_after:
  assumes "trident_laws tr" "fuzz_inv rt own key hs B f" "chain_inv rt own key hs B' s" "B' * 10000 < 2 ^ 64"
  shows "fuzz_check tr n (f\<lparr>fuzz_chain := s\<rparr>) = Inr (f\<lparr>fuzz_chain := s\<rparr>)"
  by (rule fuzz_check_passes [OF assms(1) _ assms(4)]) (use fuzz_inv_chain [OF assms(2)] assms(3) in blast)

lemma owner_deposits_passes:
  assumes world: "fuzz_world rt" and laws: "trident_laws tr" and inv: "fuzz_inv rt own key hs B f"
    and bound: "(B + unat amount) * 10000 < 2 ^ 64"
  shows "\<exists>f'. owner_deposits tr rt amount f = Inr f' \<and> fuzz_inv rt own key hs (B + unat amount) f'"
proof -
  have c: "chain_inv rt own key hs B (fuzz_chain f)" using inv by (simp add: fuzz_inv_def)
  obtain ok s where s: "process_transaction tr rt (DepositSol own key amount) (fuzz_chain f) = (ok, s)"
    by (cases "process_transaction tr rt (DepositSol own key amount) (fuzz_chain f)")
  have "chain_inv rt own key hs (B + unat amount) (snd (ok, s))"
    unfolding s [symmetric]
    by (rule chain_inv_process [OF world laws c])
       (use world deposit_keeps in \<open>auto simp: fuzz_world_def client_can_name_def\<close>)
  moreover have "fuzz_inv rt own key hs (B + unat amount) f"
    using inv chain_inv_mono [OF c] by (simp add: fuzz_inv_def)
  ultimately show ?thesis
    using owner_and_vault_cases [OF laws inv] check_after [OF laws inv _ bound, of s] inv
    by (auto simp: owner_deposits_def s)
qed

lemma owner_withdraws_passes:
  assumes world: "fuzz_world rt" and laws: "trident_laws tr" and inv: "fuzz_inv rt own key hs B f"
    and bound: "B * 10000 < 2 ^ 64"
  shows "\<exists>f'. owner_withdraws tr rt amount f = Inr f' \<and> fuzz_inv rt own key hs B f'"
proof -
  have c: "chain_inv rt own key hs B (fuzz_chain f)" "own \<noteq> key" using inv by (auto simp: fuzz_inv_def)
  obtain ok s where s: "process_transaction tr rt (WithdrawSol own key amount) (fuzz_chain f) = (ok, s)"
    by (cases "process_transaction tr rt (WithdrawSol own key amount) (fuzz_chain f)")
  have "chain_inv rt own key hs (B + 0) (snd (ok, s))"
    unfolding s [symmetric]
    by (rule chain_inv_process [OF world laws c(1)])
       (use withdraw_keeps [OF _ c(2)] in \<open>auto simp: client_can_name_def\<close>)
  then show ?thesis
    using owner_and_vault_cases [OF laws inv] check_after [OF laws inv _ bound, of s] inv
    by (auto simp: owner_withdraws_def s)
qed

lemma owner_checks_in_passes:
  assumes world: "fuzz_world rt" and laws: "trident_laws tr" and inv: "fuzz_inv rt own key hs B f"
    and bound: "B * 10000 < 2 ^ 64"
  shows "\<exists>f'. owner_checks_in tr rt f = Inr f' \<and> fuzz_inv rt own key hs B f'"
proof -
  have c: "chain_inv rt own key hs B (fuzz_chain f)" using inv by (simp add: fuzz_inv_def)
  note fee = chain_inv_fee [OF laws c]
  have named: "program_id rt = client_program_id" "client_can_name (CheckIn own key)"
    using world by (simp_all add: fuzz_world_def client_can_name_def)
  show ?thesis
  proof (rule process_transactionE [OF named, of tr "fuzz_chain f"])
    assume "process_transaction tr rt (CheckIn own key) (fuzz_chain f) =
      (False, (fuzz_chain f)\<lparr>accounts := charge_fee tr (accounts (fuzz_chain f))\<rparr>)"
    then show ?thesis
      using owner_and_vault_cases [OF laws inv] check_after [OF laws inv fee bound] fee inv
      by (auto simp: owner_checks_in_def)
  next
    fix s' assume tx: "process_transaction tr rt (CheckIn own key) (fuzz_chain f) = (True, s')"
      and run: "dispatch rt [authority (CheckIn own key)] (CheckIn own key)
        ((fuzz_chain f)\<lparr>accounts := charge_fee tr (accounts (fuzz_chain f))\<rparr>) = Inr s'"
    note kept = check_in_keeps [OF fee run [unfolded authority.simps dispatch.simps]]
    from kept(2) obtain v where v: "vault_at (accounts (fuzz_chain f)) key = Some v" "\<not> is_claimed v"
      and v': "vault_at (accounts s') key = Some (v\<lparr>last_checkin := unix_timestamp (fuzz_chain f)\<rparr>)"
      by (auto simp: fee_vault [OF laws])
    have "sint (last_checkin v) \<le> sint (unix_timestamp (fuzz_chain f))"
      using chain_inv_vault(3) [OF c v(1)] by (simp add: harness_vault_ok_def)
    then show ?thesis
      using owner_and_vault_cases [OF laws inv] check_after [OF laws inv kept(1) bound] kept(1) inv v v'
      by (auto simp: owner_checks_in_def tx fuzz_read_vault_def)
  qed
qed

lemma time_passes_passes:
  assumes laws: "trident_laws tr" and inv: "fuzz_inv rt own key hs B f"
    and bound: "B * 10000 < 2 ^ 64" and n: "0 \<le> sint seconds"
  shows "\<exists>f'. time_passes tr seconds f = Inr f' \<and> fuzz_inv rt own key hs B f'"
proof -
  have c: "chain_inv rt own key hs B (fuzz_chain f)" using inv by (simp add: fuzz_inv_def)
  note time = chain_inv_time [OF laws c n]
  show ?thesis
    using check_after [OF laws inv time bound] time inv by (simp add: time_passes_def Let_def)
qed

text \<open>What a booked claim says of the vault before it, in the words of the flow.\<close>

lemma claim_assertions:
  assumes inv: "vault_inv v" and book: "book_claim v k now avail = Inr (amt, v')"
  shows "\<exists>due entry. checked_add_i64 (last_checkin v) (timeout_seconds v) = Some due \<and>
    sint due \<le> sint now \<and>
    find (\<lambda>b. address b = k) (take (unat (beneficiary_count v)) (beneficiaries v)) = Some entry \<and>
    \<not> claimed entry"
proof -
  from book obtain i where due: "sint (last_checkin v) + sint (timeout_seconds v) \<le> sint now"
    and i: "i < length (heirs v)" "address (heirs v ! i) = k" "\<not> claimed (heirs v ! i)"
    by (auto simp: book_claim_Inr [OF inv])
  obtain entry where e: "find (\<lambda>b. address b = k) (heirs v) = Some entry"
    using i by (metis (mono_tags, lifting) find_None_iff not_None_eq nth_mem)
  then have "entry \<in> set (heirs v)" "address entry = k" by (auto simp: find_Some_iff)
  then have "entry = heirs v ! i"
    using valid_table_address_inj [OF vault_inv_table [OF inv]] i by simp
  moreover have "checked_add_i64 (last_checkin v) (timeout_seconds v) = Some (last_checkin v + timeout_seconds v)"
    using vault_inv_deadline(1) [OF inv] by (simp add: deadline_def)
  ultimately show ?thesis
    using e i due vault_inv_deadline(2) [OF inv] by (simp add: heirs_def)
qed

lemma heir_claims_passes:
  assumes world: "fuzz_world rt" and laws: "trident_laws tr" and inv: "fuzz_inv rt own key hs B f"
    and bound: "B * 10000 < 2 ^ 64"
  shows "\<exists>f'. heir_claims tr rt f = Inr f' \<and> fuzz_inv rt own key hs B f'"
proof (cases "pick tr 1 hs")
  case None
  then show ?thesis
    using inv pick_single [OF laws, of 0 key] by (auto simp: heir_claims_def fuzz_inv_def)
next
  case (Some k)
  have c: "chain_inv rt own key hs B (fuzz_chain f)" and ne: "k \<noteq> key"
    using inv pick_mem [OF laws Some] by (auto simp: fuzz_inv_def)
  have picks: "pick tr 1 (beneficiary_store (fuzz_accounts f)) = Some k"
    "pick tr 0 (vault_store (fuzz_accounts f)) = None \<or> pick tr 0 (vault_store (fuzz_accounts f)) = Some key"
    using inv Some pick_single [OF laws] by (simp_all add: fuzz_inv_def)
  note fee = chain_inv_fee [OF laws c]
  have named: "program_id rt = client_program_id" "client_can_name (ClaimSol k key)"
    using world by (simp_all add: fuzz_world_def client_can_name_def)
  show ?thesis
  proof (rule process_transactionE [OF named, of tr "fuzz_chain f"])
    assume "process_transaction tr rt (ClaimSol k key) (fuzz_chain f) =
      (False, (fuzz_chain f)\<lparr>accounts := charge_fee tr (accounts (fuzz_chain f))\<rparr>)"
    then show ?thesis
      using picks check_after [OF laws inv fee bound] fee inv by (auto simp: heir_claims_def)
  next
    fix s' assume tx: "process_transaction tr rt (ClaimSol k key) (fuzz_chain f) = (True, s')"
      and run: "dispatch rt [authority (ClaimSol k key)] (ClaimSol k key)
        ((fuzz_chain f)\<lparr>accounts := charge_fee tr (accounts (fuzz_chain f))\<rparr>) = Inr s'"
    note kept = claim_keeps [OF fee ne run [unfolded authority.simps dispatch.simps]]
    from kept(2) obtain v avail amt v' where v: "vault_at (accounts (fuzz_chain f)) key = Some v"
      and book: "book_claim v k (unix_timestamp (fuzz_chain f)) avail = Inr (amt, v')"
      by (auto simp: fee_vault [OF laws])
    from claim_assertions [OF chain_inv_vault(2) [OF c v] book]
    show ?thesis
      using picks check_after [OF laws inv kept(1) bound] kept(1) inv v
      by (auto simp: heir_claims_def tx fuzz_read_vault_def)
  qed
qed

text \<open>A wallet that is neither the owner nor an heir gets nothing past the program.\<close>

lemma stranger_refused:
  assumes inv: "chain_inv rt own key hs B s" and ne: "k \<notin> set (key # own # hs)"
    and ix: "ix \<in> {CheckIn k key, WithdrawSol k key amount, ClaimSol k key}"
  shows "dispatch rt signers ix s \<noteq> Inr s'"
proof
  assume run: "dispatch rt signers ix s = Inr s'"
  have own: "owner v = own" if "data (accounts s key) = VaultData v" for v
    using chain_inv_vault(3) [OF inv] that by (auto simp: vault_at_Some harness_vault_ok_def)
  from ix run own ne have "claim_sol rt signers k key s = Inr s'"
    by (auto simp: check_in_Inr accounts_check_in_Inr withdraw_sol_Inr accounts_withdraw_sol_Inr load_vault_Inr)
  then obtain v amt v' where v: "vault_at (accounts s) key = Some v"
    and book: "book_claim v k (unix_timestamp s) (withdrawable_lamports rt (accounts s key)) = Inr (amt, v')"
    using claim_keeps(2) [OF inv _ \<open>claim_sol rt signers k key s = Inr s'\<close>] ne by auto
  note ok = chain_inv_vault(2,3) [OF inv v]
  from book have "k \<in> address ` set (heirs v)" by (auto simp: book_claim_Inr [OF ok(1)])
  then show False using ok(2) ne by (auto simp: harness_vault_ok_def)
qed

lemma stranger_attempts_pass:
  assumes world: "fuzz_world rt" and laws: "trident_laws tr" and ne: "k \<notin> set (key # own # hs)"
  shows "chain_inv rt own key hs B s \<Longrightarrow>
    set ixs \<subseteq> {CheckIn k key, WithdrawSol k key amount, ClaimSol k key} \<Longrightarrow>
    \<exists>s'. stranger_attempts tr rt ixs s = Inr s' \<and> chain_inv rt own key hs B s'"
proof (induction ixs arbitrary: s)
  case (Cons ix ixs)
  note fee = chain_inv_fee [OF laws Cons.prems(1)]
  have ix: "ix \<in> {CheckIn k key, WithdrawSol k key amount, ClaimSol k key}" using Cons.prems(2) by simp
  then have named: "program_id rt = client_program_id" "client_can_name ix"
    using world by (auto simp: fuzz_world_def client_can_name_def)
  have "process_transaction tr rt ix s = (False, s\<lparr>accounts := charge_fee tr (accounts s)\<rparr>)"
    by (rule process_transactionE [OF named, of tr s]) (use stranger_refused [OF fee ne ix] in auto)
  then show ?case using Cons.IH [OF fee] Cons.prems(2) by simp
qed simp

lemma stranger_attacks_passes:
  assumes world: "fuzz_world rt" and laws: "trident_laws tr" and inv: "fuzz_inv rt own key hs B f"
    and bound: "B * 10000 < 2 ^ 64" and ne: "k \<notin> set (key # own # hs)"
  shows "\<exists>f'. stranger_attacks tr rt k amount f = Inr f' \<and> fuzz_inv rt own key hs B f'"
proof -
  let ?f = "fund tr k (10 * lamports_per_sol) (f\<lparr>fuzz_accounts := (fuzz_accounts f)
    \<lparr>stranger_store := stranger_store (fuzz_accounts f) @ [k]\<rparr>\<rparr>)"
  have "chain_inv rt own key hs B (fuzz_chain ?f)"
    using inv ne by (intro chain_inv_fund laws) (auto simp: fuzz_inv_def)
  then have f: "fuzz_inv rt own key hs B ?f"
    using inv by (simp add: fuzz_inv_def fund_def)
  then have c: "chain_inv rt own key hs B (fuzz_chain ?f)" by (simp add: fuzz_inv_def)
  have "set [CheckIn k key, WithdrawSol k key amount, ClaimSol k key] \<subseteq>
      {CheckIn k key, WithdrawSol k key amount, ClaimSol k key}" by simp
  from stranger_attempts_pass [OF world laws ne c this] obtain s where
    "stranger_attempts tr rt [CheckIn k key, WithdrawSol k key amount, ClaimSol k key] (fuzz_chain ?f) = Inr s"
    and s: "chain_inv rt own key hs B s" by blast
  moreover have "pick tr 0 (vault_store (fuzz_accounts f)) = None \<or>
      pick tr 0 (vault_store (fuzz_accounts f)) = Some key"
    using inv pick_single [OF laws] by (simp add: fuzz_inv_def)
  ultimately show ?thesis
    using check_after [OF laws f s bound] s f inv
    by (auto simp: stranger_attacks_def Let_def simp del: stranger_attempts.simps)
qed

section \<open>A whole iteration\<close>

text \<open>No flow adds more to the bound than the largest deposit.\<close>

lemma exec_flow_passes:
  assumes world: "fuzz_world rt" and laws: "trident_laws tr" and inv: "fuzz_inv rt own key hs B f"
    and ok: "flow_ok (key # own # hs) fl" and bound: "(B + most_drawn) * 10000 < 2 ^ 64"
  shows "\<exists>f'. exec_flow tr rt fl f = Inr f' \<and> fuzz_inv rt own key hs (B + most_drawn) f'"
proof -
  have le: "B * 10000 < 2 ^ 64" using bound by simp
  have mono: "fuzz_inv rt own key hs B' f' \<Longrightarrow> B' \<le> B + most_drawn \<Longrightarrow> fuzz_inv rt own key hs (B + most_drawn) f'"
    for B' f' by (auto simp: fuzz_inv_def intro: chain_inv_mono)
  show ?thesis
  proof (cases fl)
    case (OwnerDeposits amount)
    then have a: "unat amount \<le> most_drawn" using ok by (simp add: most_drawn_def)
    then have "(B + unat amount) * 10000 < 2 ^ 64" using bound by simp
    from owner_deposits_passes [OF world laws inv this] a show ?thesis
      using mono by (force simp: OwnerDeposits)
  next
    case (StrangerAttacks stranger amount)
    then show ?thesis
      using stranger_attacks_passes [OF world laws inv le, of stranger amount] ok mono by force
  next
    case (TimePasses seconds)
    then show ?thesis
      using time_passes_passes [OF laws inv le, of seconds] ok mono by force
  qed (use owner_withdraws_passes [OF world laws inv le] owner_checks_in_passes [OF world laws inv le]
      heir_claims_passes [OF world laws inv le] mono in \<open>force\<close>)+
qed

lemma exec_flows_pass:
  assumes world: "fuzz_world rt"
  shows "list_all (\<lambda>(tr, fl). trident_laws tr \<and> flow_ok (key # own # hs) fl) fls \<Longrightarrow>
    fuzz_inv rt own key hs B f \<Longrightarrow> (B + length fls * most_drawn) * 10000 < 2 ^ 64 \<Longrightarrow>
    \<exists>f'. exec_flows rt fls f = Inr f' \<and> fuzz_inv rt own key hs (B + length fls * most_drawn) f'"
proof (induction fls arbitrary: B f)
  case (Cons p fls)
  obtain tr fl where p: "p = (tr, fl)" by (cases p)
  have one: "(B + most_drawn) * 10000 < 2 ^ 64" using Cons.prems(3) by simp
  from Cons.prems(1) have "trident_laws tr" "flow_ok (key # own # hs) fl" by (simp_all add: p)
  from exec_flow_passes [OF world this(1) Cons.prems(2) this(2) one] obtain f' where
    f': "exec_flow tr rt fl f = Inr f'" "fuzz_inv rt own key hs (B + most_drawn) f'" by blast
  have "(B + most_drawn + length fls * most_drawn) * 10000 < 2 ^ 64"
    using Cons.prems(3) by (simp add: add.assoc)
  with Cons.IH [OF _ f'(2)] Cons.prems(1) f'(1) show ?case by (simp add: p add.assoc)
qed simp

lemma insert_heirs_accounts:
  "owner_store (fuzz_accounts (insert_heirs tr hs f)) = owner_store (fuzz_accounts f)"
  "vault_store (fuzz_accounts (insert_heirs tr hs f)) = vault_store (fuzz_accounts f)"
  "beneficiary_store (fuzz_accounts (insert_heirs tr hs f)) = beneficiary_store (fuzz_accounts f) @ hs"
  by (induction hs arbitrary: f) (simp_all add: fund_def)

lemma insert_heirs_chain:
  assumes laws: "trident_laws tr"
  shows "key \<notin> set hs \<Longrightarrow> chain_inv rt own key hs' B (fuzz_chain f) \<Longrightarrow>
     chain_inv rt own key hs' B (fuzz_chain (insert_heirs tr hs f))"
proof (induction hs arbitrary: f)
  case (Cons h hs)
  let ?f = "f\<lparr>fuzz_accounts := (fuzz_accounts f)
    \<lparr>beneficiary_store := beneficiary_store (fuzz_accounts f) @ [h]\<rparr>\<rparr>"
  have "chain_inv rt own key hs' B (fuzz_chain ?f)" using Cons.prems(2) by simp
  from chain_inv_fund [OF laws this, of h] Cons show ?case by auto
qed simp

lemma fuzz_table_heirs: "address ` set (table_of (fuzz_table hs)) \<subseteq> set hs"
  by (auto simp: fuzz_table_def table_of_def slot_of_input_def dest: set_zip_leftD)

lemma initialize_keeps:
  assumes world: "fuzz_world rt" and inv: "chain_inv rt own key hs base_balance s"
    and run: "initialize_vault rt signers own key None ident tmo (fuzz_table hs) s = Inr s'"
  shows "chain_inv rt own key hs base_balance s'"
proof -
  let ?space = "8 + vault_init_space"
  have laws: "init_account_law rt" "find_program_address_law rt" "init_exact_law rt"
    and rent: "unat (minimum_balance rt ?space) \<le> base_balance"
    using world by (auto simp: fuzz_world_def dest: runtime_lawsD)
  from run obtain bmp A v where init: "init_account rt own key ?space (accounts s) = Inr A"
    and h: "handle_initialize_vault own None bmp ident tmo (fuzz_table hs) (unix_timestamp s) = Inr v"
    and s': "s' = s\<lparr>accounts := store_vault key v A\<rparr>"
    by (auto simp: initialize_vault_Inr accounts_initialize_vault_Inr)
  have "unat (lamports (A key)) \<le> max (unat (minimum_balance rt ?space)) (unat (lamports (accounts s key)))"
    using laws(3) init unfolding init_exact_law_def by blast
  then have le: "unat (lamports (A key)) \<le> base_balance"
    using rent inv unfolding chain_inv_def by linarith
  have "owner v = own" "mint v = None" "last_checkin v = unix_timestamp s" "claim_pool v = 0"
    using h by (simp_all add: handle_initialize_vault_Inr)
  then have "harness_vault_ok own hs base_balance (unix_timestamp s) v"
    using fuzz_table_heirs handle_initialize_vault_inv(3) [OF h] by (simp add: harness_vault_ok_def is_sol_def)
  moreover have "ledger_ok rt (accounts s')"
    using initialize_vault_ok [OF laws(1,2) _ run] inv by (simp add: chain_inv_def)
  ultimately show ?thesis
    using store_keeps [of rt key v A own hs "base_balance" "unix_timestamp s"] le by (cases s) (simp add: s')
qed

definition draws_ok :: "fuzz_draws \<Rightarrow> bool" where
  "draws_ok d \<longleftrightarrow> length (drawn_heirs d) = 3 \<and>
     60 \<le> sint (drawn_timeout d) \<and> sint (drawn_timeout d) < 3600 \<and>
     1 \<le> unat (drawn_amount d) \<and> unat (drawn_amount d) < 50 * unat lamports_per_sol"

lemma fuzz_start_passes:
  assumes world: "fuzz_world rt" and laws: "trident_laws tr" and draws: "draws_ok d"
    and key: "key = fst (find_program_address rt (vault_seeds (drawn_owner d) FUZZ_VAULT_ID))"
    and fresh: "key \<notin> set (drawn_owner d # drawn_heirs d)"
    and start: "\<And>k. vault_at (accounts s) k = None" "unat (lamports (accounts s key)) \<le> base_balance"
  shows "\<exists>f. fuzz_start tr rt d (fuzz_test_new s) = Inr f \<and>
    fuzz_inv rt (drawn_owner d) key (drawn_heirs d) (base_balance + 50 * unat lamports_per_sol) f"
proof -
  let ?own = "drawn_owner d" and ?hs = "drawn_heirs d" and ?sol = "unat lamports_per_sol"
  let ?B = "base_balance + 50 * ?sol :: nat"
  let ?f = "fuzz_test_new s"
  define f1 where "f1 = fund tr ?own (1000 * lamports_per_sol) (?f\<lparr>fuzz_accounts :=
    (fuzz_accounts ?f)\<lparr>owner_store := owner_store (fuzz_accounts ?f) @ [?own]\<rparr>\<rparr>)"
  define f2 where "f2 = insert_heirs tr ?hs f1"
  define f3 where "f3 = f2\<lparr>fuzz_accounts := (fuzz_accounts f2)\<lparr>vault_store := vault_store (fuzz_accounts f2) @ [key]\<rparr>\<rparr>"
  let ?ix = "InitializeVault ?own key None FUZZ_VAULT_ID (drawn_timeout d) (fuzz_table ?hs)"
  have "chain_inv rt ?own key ?hs base_balance s"
    using start by (simp add: chain_inv_def ledger_ok_def account_ok_at)
  then have "chain_inv rt ?own key ?hs base_balance (fuzz_chain f1)"
    unfolding f1_def using fresh by (intro chain_inv_fund laws) (auto simp: fuzz_test_new_def)
  then have c3: "chain_inv rt ?own key ?hs base_balance (fuzz_chain f3)"
    using insert_heirs_chain [OF laws, of key ?hs] fresh by (simp add: f3_def f2_def)
  have inv: "fuzz_inv rt ?own key ?hs base_balance f3"
    using c3 fresh by (simp add: fuzz_inv_def f3_def f2_def f1_def insert_heirs_accounts fund_def
        fuzz_test_new_def addresses_default_def)
  have start_eq: "fuzz_start tr rt d (fuzz_test_new s) =
      (case process_transaction tr rt ?ix (fuzz_chain f3) of
         (False, s) \<Rightarrow> Inr (f3\<lparr>fuzz_chain := s\<rparr>)
       | (True, s) \<Rightarrow> (case process_transaction tr rt (DepositSol ?own key (drawn_amount d)) s of
            (_, s') \<Rightarrow> fuzz_check tr 0 (f3\<lparr>fuzz_chain := s'\<rparr>)))"
    unfolding fuzz_start_def Let_def f3_def f2_def f1_def key by (rule refl)
  have named: "client_can_name ?ix" "client_can_name (DepositSol ?own key (drawn_amount d))"
    by (simp_all add: client_can_name_def fuzz_table_def SHARES_def)
  obtain ok s1 where one: "process_transaction tr rt ?ix (fuzz_chain f3) = (ok, s1)"
    by (cases "process_transaction tr rt ?ix (fuzz_chain f3)")
  have "chain_inv rt ?own key ?hs (base_balance + 0) (snd (ok, s1))"
    unfolding one [symmetric] by (rule chain_inv_process [OF world laws c3 named(1)]) (use initialize_keeps [OF world] in simp)
  then have c1: "chain_inv rt ?own key ?hs base_balance s1" by simp
  obtain ok' s2 where two: "process_transaction tr rt (DepositSol ?own key (drawn_amount d)) s1 = (ok', s2)"
    by (cases "process_transaction tr rt (DepositSol ?own key (drawn_amount d)) s1")
  have "chain_inv rt ?own key ?hs (base_balance + unat (drawn_amount d)) (snd (ok', s2))"
    unfolding two [symmetric] by (rule chain_inv_process [OF world laws c1 named(2)])
      (use world in \<open>auto simp: fuzz_world_def intro: deposit_keeps\<close>)
  then have c2: "chain_inv rt ?own key ?hs ?B s2"
    by (simp, elim chain_inv_mono) (use draws in \<open>simp add: draws_ok_def\<close>)
  have "?B * 10000 < 2 ^ 64" by (simp add: lamports_per_sol_def base_balance_def)
  note checked = check_after [OF laws inv c2 this]
  show ?thesis
  proof (cases ok)
    case True
    then show ?thesis
      using checked fuzz_inv_chain [OF inv] c2 by (simp add: start_eq one two)
  next
    case False
    have "chain_inv rt ?own key ?hs ?B s1" by (rule chain_inv_mono [OF c1]) simp
    then show ?thesis
      using False fuzz_inv_chain [OF inv] by (simp add: start_eq one)
  qed
qed

text \<open>
  The fuzzer runs up to a hundred flows in an iteration, so the bound stays below
  \<open>1000 + 50 + 100 * 20\<close> SOL, far from where the oracle would overflow.
\<close>

lemma fuzz_iteration_passes:
  assumes world: "fuzz_world rt" and laws: "trident_laws tr" "trident_laws tr'" and draws: "draws_ok d"
    and key: "key = fst (find_program_address rt (vault_seeds (drawn_owner d) FUZZ_VAULT_ID))"
    and fresh: "key \<notin> set (drawn_owner d # drawn_heirs d)"
    and start: "\<And>k. vault_at (accounts s) k = None" "unat (lamports (accounts s key)) \<le> base_balance"
    and flows: "length fls \<le> 100"
      "list_all (\<lambda>(tr, fl). trident_laws tr \<and> flow_ok (key # drawn_owner d # drawn_heirs d) fl) fls"
  shows "\<exists>f. fuzz_iteration rt tr d fls tr' s = Inr f"
proof -
  let ?B = "base_balance + 50 * unat lamports_per_sol"
  obtain f where f: "fuzz_start tr rt d (fuzz_test_new s) = Inr f"
      "fuzz_inv rt (drawn_owner d) key (drawn_heirs d) ?B f"
    using fuzz_start_passes [OF world laws(1) draws key fresh start] by blast
  have "length fls * most_drawn \<le> 100 * most_drawn" using flows(1) by (rule mult_le_mono1)
  then have bound: "(?B + length fls * most_drawn) * 10000 < 2 ^ 64"
    by (simp add: base_balance_def lamports_per_sol_def most_drawn_def)
  obtain f' where f': "exec_flows rt fls f = Inr f'"
      "fuzz_inv rt (drawn_owner d) key (drawn_heirs d) (?B + length fls * most_drawn) f'"
    using exec_flows_pass [OF world flows(2) f(2) bound] by blast
  have "fuzz_end tr' f' = Inr f'"
    unfolding fuzz_end_def by (rule fuzz_check_passes [OF laws(2) f'(2) bound])
  then show ?thesis using f(1) f'(1) by (simp add: fuzz_iteration_def)
qed

end
