(* ===== verification/Keeper_Store.thy ===== *)
theory Keeper_Store
  imports Keeper "HOL-Library.Multiset"
begin

text \<open>
  How the keeper comes by the vaults and where it keeps them: the fetch of
  \<open>keeper/internal/dms/client.go\<close> and the in-memory cache of \<open>store/store.go\<close>, with the
  contract of a \<open>Store\<close> as a locale.
\<close>

section \<open>Fetching\<close>

text \<open>
  What the node returns: address, balance and data of every account that passes the two filters.
  One account that does not decode fails the whole fetch.
\<close>

fun fetch_vaults :: "(pubkey \<times> u64 \<times> u8 list) list \<Rightarrow> decode_error + go_vault list" where
  "fetch_vaults [] = Inr []"
| "fetch_vaults ((addr, balance, bytes) # rest) =
     and_then (decode_vault addr bytes) (\<lambda>g.
     and_then (fetch_vaults rest) (\<lambda>gs. Inr (g\<lparr>gv_lamports := balance\<rparr> # gs)))"

text \<open>One vault: the node may fail, or answer that there is no such account.\<close>

datatype 'e fetch_error =
    NodeFailed 'e
  | NoSuchVault
  | Undecodable decode_error

definition fetch_vault ::
    "pubkey \<Rightarrow> 'e + (u64 \<times> u8 list) option \<Rightarrow> 'e fetch_error + go_vault" where
  "fetch_vault addr answer =
     (case answer of
        Inl e \<Rightarrow> Inl (NodeFailed e)
      | Inr None \<Rightarrow> Inl NoSuchVault
      | Inr (Some (balance, bytes)) \<Rightarrow>
          (case decode_vault addr bytes of
             Inl e \<Rightarrow> Inl (Undecodable e)
           | Inr g \<Rightarrow> Inr (g\<lparr>gv_lamports := balance\<rparr>)))"

lemma fetch_vaults_Inr:
  "fetch_vaults accs = Inr gs \<longleftrightarrow>
     list_all2 (\<lambda>(addr, balance, bytes) g.
       \<exists>g'. decode_vault addr bytes = Inr g' \<and> g = g'\<lparr>gv_lamports := balance\<rparr>) accs gs"
proof (induction accs arbitrary: gs)
  case Nil
  then show ?case by auto
next
  case (Cons a accs)
  then show ?case by (cases a; cases gs) (auto simp: and_then_eq_Inr)
qed

text \<open>What the keeper sees of a vault of the chain.\<close>

definition seen_vault :: "ledger \<Rightarrow> pubkey \<Rightarrow> vault \<Rightarrow> go_vault" where
  "seen_vault A key v = (view_vault key v)\<lparr>gv_lamports := lamports (A key)\<rparr>"

text \<open>An answer of the node that is true to a ledger: vault accounts of the program, as they are.\<close>

definition true_answer :: "ledger \<Rightarrow> (pubkey \<times> u64 \<times> u8 list) list \<Rightarrow> bool" where
  "true_answer A accs \<longleftrightarrow> distinct (map fst accs) \<and> list_all (\<lambda>(k, balance, bytes).
     \<exists>v. vault_at A k = Some v \<and> bytes = vault_image v \<and> balance = lamports (A k)) accs"

lemma fetch_true_answer:
  assumes "true_answer A accs" "\<And>k v. vault_at A k = Some v \<Longrightarrow> vault_inv v"
  shows "fetch_vaults accs = Inr (map (\<lambda>(k, balance, bytes). seen_vault A k (the (vault_at A k))) accs)"
  using assms(1)
proof (induction accs)
  case (Cons a accs)
  obtain k balance bytes where a: "a = (k, balance, bytes)" by (cases a)
  with Cons.prems obtain v where v: "vault_at A k = Some v" "bytes = vault_image v" "balance = lamports (A k)"
    and "true_answer A accs"
    by (auto simp: true_answer_def)
  then show ?case
    using Cons.IH decode_vault_image [OF assms(2) [OF v(1)]] by (simp add: a seen_vault_def)
qed simp

section \<open>The cache\<close>

record memory =
  mem_vaults :: "pubkey \<Rightarrow> go_vault option"
  mem_order :: "pubkey list"

definition new_memory :: memory where
  "new_memory = \<lparr>mem_vaults = Map.empty, mem_order = []\<rparr>"

fun memory_fill :: "go_vault list \<Rightarrow> memory \<Rightarrow> memory" where
  "memory_fill [] m = m"
| "memory_fill (g # gs) m =
     memory_fill gs \<lparr>mem_vaults = (mem_vaults m)(gv_address g \<mapsto> g),
                     mem_order = mem_order m @ [gv_address g]\<rparr>"

definition memory_replace :: "go_vault list \<Rightarrow> memory \<Rightarrow> memory" where
  "memory_replace gs m = memory_fill gs new_memory"

definition memory_list :: "memory \<Rightarrow> go_vault option list" where
  "memory_list m = map (mem_vaults m) (mem_order m)"

definition memory_get :: "memory \<Rightarrow> pubkey \<Rightarrow> go_vault option" where
  "memory_get m addr = mem_vaults m addr"

definition memory_by_owner :: "memory \<Rightarrow> pubkey \<Rightarrow> go_vault option list" where
  "memory_by_owner m own =
     filter (\<lambda>g. map_option gv_owner g = Some own) (map (mem_vaults m) (mem_order m))"

lemma find_key: "distinct (map f xs) \<Longrightarrow> x \<in> set xs \<Longrightarrow> find (\<lambda>y. f y = f x) xs = Some x"
proof (induction xs)
  case (Cons y ys)
  then show ?case by (cases "y = x") (auto dest: imageI [of x _ f])
qed simp

lemma find_key_None: "find (\<lambda>y. f y = a) xs = None \<longleftrightarrow> a \<notin> f ` set xs"
  by (auto simp: find_None_iff)

text \<open>
  The contract of a \<open>Store\<close>, on sets of vaults with distinct addresses that the store can hold without
  loss. The order in which it lists them is its own.
\<close>

locale vault_cache =
  fixes replace :: "go_vault list \<Rightarrow> 's \<Rightarrow> 's"
    and entries :: "'s \<Rightarrow> go_vault option list"
    and lookup :: "'s \<Rightarrow> pubkey \<Rightarrow> go_vault option"
    and by_owner :: "'s \<Rightarrow> pubkey \<Rightarrow> go_vault option list"
    and storable :: "go_vault \<Rightarrow> bool"
  assumes entries_replace: "distinct (map gv_address gs) \<Longrightarrow> list_all storable gs \<Longrightarrow>
      mset (entries (replace gs s)) = mset (map Some gs)"
    and lookup_replace: "distinct (map gv_address gs) \<Longrightarrow> list_all storable gs \<Longrightarrow>
      lookup (replace gs s) a = find (\<lambda>g. gv_address g = a) gs"
    and by_owner_replace: "distinct (map gv_address gs) \<Longrightarrow> list_all storable gs \<Longrightarrow>
      mset (by_owner (replace gs s) own) = mset (map Some (filter (\<lambda>g. gv_owner g = own) gs))"
begin

text \<open>A scan leaves nothing of the one before: a vault that is gone is no longer found.\<close>

lemma closed_is_gone:
  assumes "distinct (map gv_address gs)" "list_all storable gs" "a \<notin> gv_address ` set gs"
  shows "lookup (replace gs s) a = None"
  using assms by (simp add: lookup_replace find_key_None)

lemma owned_are_listed:
  assumes "distinct (map gv_address gs)" "list_all storable gs" "g \<in> set gs"
  shows "Some g \<in> set (by_owner (replace gs s) (gv_owner g)) \<and> lookup (replace gs s) (gv_address g) = Some g"
proof -
  have "set (by_owner (replace gs s) (gv_owner g)) = Some ` {h \<in> set gs. gv_owner h = gv_owner g}"
    using arg_cong [OF by_owner_replace [OF assms(1,2)], of set_mset s "gv_owner g"] by simp
  then show ?thesis using assms find_key [OF assms(1,3)] by (simp add: lookup_replace)
qed

lemma entries_are_the_scan:
  assumes "distinct (map gv_address gs)" "list_all storable gs"
  shows "set (entries (replace gs s)) = Some ` set gs" "length (entries (replace gs s)) = length gs"
  using arg_cong [OF entries_replace [OF assms], of set_mset s] arg_cong [OF entries_replace [OF assms], of size s]
  by simp_all

end

text \<open>A store that keeps the order of the scan.\<close>

locale ordered_cache =
  fixes replace :: "go_vault list \<Rightarrow> 's \<Rightarrow> 's"
    and entries :: "'s \<Rightarrow> go_vault option list"
    and lookup :: "'s \<Rightarrow> pubkey \<Rightarrow> go_vault option"
    and by_owner :: "'s \<Rightarrow> pubkey \<Rightarrow> go_vault option list"
  assumes entries_in_order: "distinct (map gv_address gs) \<Longrightarrow> entries (replace gs s) = map Some gs"
    and lookup_in_order: "distinct (map gv_address gs) \<Longrightarrow>
      lookup (replace gs s) a = find (\<lambda>g. gv_address g = a) gs"
    and by_owner_in_order: "distinct (map gv_address gs) \<Longrightarrow>
      by_owner (replace gs s) own = map Some (filter (\<lambda>g. gv_owner g = own) gs)"

sublocale ordered_cache \<subseteq> vault_cache replace entries lookup by_owner "\<lambda>_. True"
  by unfold_locales (simp_all add: entries_in_order lookup_in_order by_owner_in_order)

lemma memory_fill_order: "mem_order (memory_fill gs m) = mem_order m @ map gv_address gs"
  by (induction gs arbitrary: m) simp_all

lemma memory_fill_vaults:
  "distinct (map gv_address gs) \<Longrightarrow> mem_vaults (memory_fill gs m) a =
     (case find (\<lambda>g. gv_address g = a) gs of None \<Rightarrow> mem_vaults m a | Some g \<Rightarrow> Some g)"
proof (induction gs arbitrary: m)
  case (Cons g gs)
  have "gv_address g = a \<Longrightarrow> find (\<lambda>g. gv_address g = a) gs = None"
    using Cons.prems by (auto simp: find_key_None)
  then show ?case using Cons by (auto split: option.split)
qed simp

lemma memory_replace_entries:
  fixes gs :: "go_vault list"
  assumes "distinct (map gv_address gs)"
  shows "map (mem_vaults (memory_replace gs m)) (mem_order (memory_replace gs m)) = map Some gs"
  using find_key [OF assms]
  by (simp add: memory_replace_def memory_fill_order memory_fill_vaults [OF assms] new_memory_def)

interpretation memory: ordered_cache memory_replace memory_list memory_get memory_by_owner
proof unfold_locales
  fix gs :: "go_vault list" and m a own
  assume d: "distinct (map gv_address gs)"
  show "memory_list (memory_replace gs m) = map Some gs"
    unfolding memory_list_def by (rule memory_replace_entries [OF d])
  show "memory_get (memory_replace gs m) a = find (\<lambda>g. gv_address g = a) gs"
    by (simp add: memory_get_def memory_replace_def memory_fill_vaults [OF d] new_memory_def split: option.split)
  show "memory_by_owner (memory_replace gs m) own = map Some (filter (\<lambda>g. gv_owner g = own) gs)"
    unfolding memory_by_owner_def memory_replace_entries [OF d] by (simp add: filter_map comp_def)
qed

end
