(* ===== verification/Reminders.thy ===== *)
theory Reminders
  imports Keeper_Store
begin

text \<open>
  The watching half of the keeper: the tracker that decides when an owner is worth a reminder
  (\<open>keeper/internal/watch/reminder.go\<close>) and one scan (\<open>watch/watcher.go\<close>). The tracker
  remembers, per vault, which thresholds it has announced for the current deadline; it is
  shown to agree with a reference that looks at the whole history of polls instead.

  A \<open>time.Duration\<close> is an integer here: the tracker only compares durations.
\<close>

section \<open>The tracker\<close>

record vault_state =
  vs_deadline :: int
  vs_fired :: "int set"

record tracker =
  thresholds :: "int list"
  trk_state :: "pubkey \<Rightarrow> vault_state option"

record reminder =
  rem_vault :: pubkey
  rem_owner :: pubkey
  rem_status :: go_status
  rem_deadline :: int
  rem_time_left :: int

definition expired :: int where
  "expired = 0"

text \<open>The thresholds above zero, in descending order.\<close>

definition new_tracker :: "int list \<Rightarrow> tracker" where
  "new_tracker ts = \<lparr>thresholds = rev (sort (filter (\<lambda>t. 0 < t) ts)), trk_state = Map.empty\<rparr>"

definition make_reminder :: "go_vault \<Rightarrow> go_status \<Rightarrow> int \<Rightarrow> int \<Rightarrow> reminder" where
  "make_reminder v status due left = \<lparr>rem_vault = gv_address v, rem_owner = gv_owner v,
     rem_status = status, rem_deadline = due, rem_time_left = left\<rparr>"

text \<open>The two loops over the thresholds: the last one crossed, and all crossed ones fired.\<close>

definition last_crossed :: "int list \<Rightarrow> int \<Rightarrow> int" where
  "last_crossed ths left = fold (\<lambda>th crossed. if left \<le> th then th else crossed) ths 0"

definition fire_crossed :: "int list \<Rightarrow> int \<Rightarrow> int set \<Rightarrow> int set" where
  "fire_crossed ths left fired = fold (\<lambda>th fired. if left \<le> th then insert th fired else fired) ths fired"

definition tracker_due :: "tracker \<Rightarrow> go_vault \<Rightarrow> int \<Rightarrow> reminder option \<times> tracker" where
  "tracker_due t v now =
     (if gv_is_claimed v then (None, t\<lparr>trk_state := (trk_state t)(gv_address v := None)\<rparr>)
      else
        let due = go_deadline v;
            fresh = \<lparr>vs_deadline = due, vs_fired = {}\<rparr>;
            state = (case trk_state t (gv_address v) of
                       None \<Rightarrow> fresh
                     | Some st \<Rightarrow> if vs_deadline st = due then st else fresh);
            put = (\<lambda>st. t\<lparr>trk_state := (trk_state t)(gv_address v \<mapsto> st)\<rparr>);
            left = go_time_left v now
        in if left \<le> 0 then
             if expired \<in> vs_fired state then (None, put state)
             else (Some (make_reminder v StatusExpired due left),
                   put (state\<lparr>vs_fired := insert expired (vs_fired state)\<rparr>))
           else
             let crossed = last_crossed (thresholds t) left
             in if crossed = 0 \<or> crossed \<in> vs_fired state then (None, put state)
                else (Some (make_reminder v StatusDueSoon due left),
                      put (state\<lparr>vs_fired := fire_crossed (thresholds t) left (vs_fired state)\<rparr>)))"

definition tracker_forget :: "pubkey set \<Rightarrow> tracker \<Rightarrow> tracker" where
  "tracker_forget live t = t\<lparr>trk_state := trk_state t |` live\<rparr>"

section \<open>One scan\<close>

text \<open>
  The reminders a scan attempts, each with whether it was delivered. A failed delivery is
  only logged.
\<close>

fun remind ::
  "(reminder \<Rightarrow> bool) \<Rightarrow> int \<Rightarrow> go_vault list \<Rightarrow> tracker \<Rightarrow> (reminder \<times> bool) list \<times> tracker" where
  "remind notify now [] t = ([], t)"
| "remind notify now (v # vs) t =
     (case tracker_due t v now of
        (None, t') \<Rightarrow> remind notify now vs t'
      | (Some r, t') \<Rightarrow> (case remind notify now vs t' of (sent, t'') \<Rightarrow> ((r, notify r) # sent, t'')))"

definition scan ::
  "(go_vault list \<Rightarrow> 's \<Rightarrow> 'e + 's) \<Rightarrow> (reminder \<Rightarrow> bool) \<Rightarrow> 'e + go_vault list \<Rightarrow> int \<Rightarrow> 's \<Rightarrow> tracker
     \<Rightarrow> 'e + (reminder \<times> bool) list \<times> 's \<times> tracker" where
  "scan replace notify fetched now s t =
     and_then fetched (\<lambda>vs.
     and_then (replace vs s) (\<lambda>s'.
       case remind notify now vs (tracker_forget (gv_address ` set vs) t) of
         (sent, t') \<Rightarrow> Inr (sent, s', t')))"

section \<open>The reference: the whole history\<close>

text \<open>
  A poll is worth a reminder when it crosses something that no earlier poll of the same
  deadline has crossed: the deadline itself, or a threshold. \<open>lefts\<close> are the times left at
  those earlier polls.
\<close>

definition wants_reminder :: "int list \<Rightarrow> int list \<Rightarrow> int \<Rightarrow> bool" where
  "wants_reminder ths lefts left \<longleftrightarrow>
     (if left \<le> 0 then list_all (\<lambda>l. 0 < l) lefts
      else list_ex (\<lambda>th. left \<le> th \<and> list_all (\<lambda>l. l \<le> 0 \<or> th < l) lefts) ths)"

text \<open>
  The earlier polls, latest first: those of this vault back to the last one that saw it
  claimed or with another deadline.
\<close>

fun window :: "pubkey \<Rightarrow> int \<Rightarrow> (go_vault \<times> int) list \<Rightarrow> int list" where
  "window a due [] = []"
| "window a due ((v, now) # past) =
     (if gv_address v \<noteq> a then window a due past
      else if gv_is_claimed v \<or> go_deadline v \<noteq> due then []
      else go_time_left v now # window a due past)"

definition history_due ::
  "int list \<Rightarrow> (go_vault \<times> int) list \<Rightarrow> go_vault \<Rightarrow> int \<Rightarrow> reminder option" where
  "history_due ths past v now =
     (let left = go_time_left v now
      in if \<not> gv_is_claimed v \<and> wants_reminder ths (window (gv_address v) (go_deadline v) past) left
         then Some (make_reminder v (if left \<le> 0 then StatusExpired else StatusDueSoon) (go_deadline v) left)
         else None)"

text \<open>A sequence of polls, by the tracker and by the reference.\<close>

fun polls :: "tracker \<Rightarrow> (go_vault \<times> int) list \<Rightarrow> reminder option list \<times> tracker" where
  "polls t [] = ([], t)"
| "polls t ((v, now) # ps) =
     (case tracker_due t v now of (r, t') \<Rightarrow> (case polls t' ps of (rs, t'') \<Rightarrow> (r # rs, t'')))"

fun history_polls ::
  "int list \<Rightarrow> (go_vault \<times> int) list \<Rightarrow> (go_vault \<times> int) list \<Rightarrow> reminder option list" where
  "history_polls ths past [] = []"
| "history_polls ths past ((v, now) # ps) =
     history_due ths past v now # history_polls ths ((v, now) # past) ps"

section \<open>The loops\<close>

lemma fire_crossed_eq: "fire_crossed ths left fired = fired \<union> {th \<in> set ths. left \<le> th}"
  unfolding fire_crossed_def by (induction ths arbitrary: fired) auto

lemma last_crossed_snoc:
  "last_crossed (ths @ [th]) left = (if left \<le> th then th else last_crossed ths left)"
  by (simp add: last_crossed_def)

lemma last_crossed_mem:
  "last_crossed ths left \<noteq> 0 \<Longrightarrow> last_crossed ths left \<in> set ths \<and> left \<le> last_crossed ths left"
proof (induction ths rule: rev_induct)
  case Nil
  then show ?case by (simp add: last_crossed_def)
next
  case (snoc th ths)
  then show ?case by (auto simp: last_crossed_snoc split: if_splits)
qed

text \<open>In descending order the last threshold crossed is the least.\<close>

lemma last_crossed_least:
  "sorted (rev ths) \<Longrightarrow> list_all (\<lambda>t. 0 < t) ths \<Longrightarrow> th \<in> set ths \<Longrightarrow> left \<le> th \<Longrightarrow>
     0 < last_crossed ths left \<and> last_crossed ths left \<le> th"
proof (induction ths rule: rev_induct)
  case (snoc x ths)
  then show ?case
    by (cases "th = x") (auto simp: last_crossed_snoc list_all_iff)
qed simp

lemma new_tracker_thresholds:
  "sorted (rev (thresholds (new_tracker ts)))" "list_all (\<lambda>t. 0 < t) (thresholds (new_tracker ts))"
  by (auto simp: new_tracker_def list_all_iff)

section \<open>The tracker knows the history\<close>

text \<open>What the tracker has to remember of the polls \<open>lefts\<close> of one vault and deadline.\<close>

definition fired_by :: "int list \<Rightarrow> int list \<Rightarrow> int set" where
  "fired_by ths lefts = {th \<in> set ths. list_ex (\<lambda>l. 0 < l \<and> l \<le> th) lefts} \<union>
     (if list_ex (\<lambda>l. l \<le> 0) lefts then {expired} else {})"

definition fired_at :: "tracker \<Rightarrow> pubkey \<Rightarrow> int \<Rightarrow> int set" where
  "fired_at t a due = (case trk_state t a of
     None \<Rightarrow> {} | Some st \<Rightarrow> if vs_deadline st = due then vs_fired st else {})"

lemma fired_by_Nil [simp]: "fired_by ths [] = {}"
  by (simp add: fired_by_def)

lemma state_fired_at:
  "(case trk_state t a of None \<Rightarrow> \<lparr>vs_deadline = due, vs_fired = {}\<rparr>
    | Some st \<Rightarrow> if vs_deadline st = due then st else \<lparr>vs_deadline = due, vs_fired = {}\<rparr>) =
   \<lparr>vs_deadline = due, vs_fired = fired_at t a due\<rparr>"
  by (auto simp: fired_at_def split: option.split)

lemma tracker_due_eq:
  assumes "\<not> gv_is_claimed v"
  shows "tracker_due t v now =
    (let due = go_deadline v; left = go_time_left v now; fired = fired_at t (gv_address v) due;
         crossed = last_crossed (thresholds t) left;
         quiet = (if left \<le> 0 then expired \<in> fired else crossed = 0 \<or> crossed \<in> fired)
     in (if quiet then None
         else Some (make_reminder v (if left \<le> 0 then StatusExpired else StatusDueSoon) due left),
         t\<lparr>trk_state := (trk_state t)(gv_address v \<mapsto> \<lparr>vs_deadline = due,
           vs_fired = (if quiet then fired else if left \<le> 0 then insert expired fired
                       else fire_crossed (thresholds t) left fired)\<rparr>)\<rparr>))"
  using assms by (simp add: tracker_due_def state_fired_at Let_def)

lemma tracker_due_thresholds [simp]: "thresholds (snd (tracker_due t v now)) = thresholds t"
  by (cases "gv_is_claimed v") (auto simp: tracker_due_def tracker_due_eq Let_def split: option.split)

lemma fired_at_due:
  "fired_at (snd (tracker_due t v now)) a due =
     (if a \<noteq> gv_address v then fired_at t a due
      else if gv_is_claimed v \<or> due \<noteq> go_deadline v then {}
      else let left = go_time_left v now; fired = fired_at t a due in
        if left \<le> 0 then insert expired fired
        else if fst (tracker_due t v now) = None then fired
        else fire_crossed (thresholds t) left fired)"
proof (cases "gv_is_claimed v")
  case True
  then show ?thesis by (simp add: tracker_due_def fired_at_def)
next
  case False
  then show ?thesis
    by (auto simp: tracker_due_eq Let_def fired_at_def [of "t\<lparr>trk_state := _\<rparr>"])
      (auto simp: fired_at_def split: option.splits)
qed

lemma fired_by_Cons:
  "fired_by ths (l # ls) =
     (if l \<le> 0 then insert expired (fired_by ths ls) else fired_by ths ls \<union> {th \<in> set ths. l \<le> th})"
  by (auto simp: fired_by_def)

lemma expired_fired_by:
  "list_all (\<lambda>t. 0 < t) ths \<Longrightarrow> expired \<in> fired_by ths ls \<longleftrightarrow> \<not> list_all (\<lambda>l. 0 < l) ls"
proof -
  assume "list_all (\<lambda>t. 0 < t) ths"
  then have "0 \<notin> set ths" by (auto simp: list_all_iff)
  then have "expired \<in> fired_by ths ls \<longleftrightarrow> list_ex (\<lambda>l. l \<le> 0) ls" by (simp add: fired_by_def expired_def)
  then show ?thesis by (simp add: list_all_iff list_ex_iff not_less Bex_def)
qed

lemma threshold_fired_by:
  "th \<noteq> 0 \<Longrightarrow> th \<in> fired_by ths ls \<longleftrightarrow> th \<in> set ths \<and> list_ex (\<lambda>l. 0 < l \<and> l \<le> th) ls"
  by (auto simp: fired_by_def expired_def)

text \<open>The tracker is quiet exactly when the reference is.\<close>

lemma quiet_iff:
  assumes ths: "sorted (rev ths)" "list_all (\<lambda>t. 0 < t) ths"
  shows "(if left \<le> 0 then expired \<in> fired_by ths ls
          else last_crossed ths left = 0 \<or> last_crossed ths left \<in> fired_by ths ls)
     \<longleftrightarrow> \<not> wants_reminder ths ls left"
proof (cases "left \<le> 0")
  case True
  then show ?thesis using expired_fired_by [OF ths(2)] by (simp add: wants_reminder_def)
next
  case False
  let ?c = "last_crossed ths left"
  have least: "?c \<noteq> 0 \<and> ?c \<le> th" if "th \<in> set ths" "left \<le> th" for th
    using last_crossed_least [OF ths that] by simp
  have "list_ex (\<lambda>th. left \<le> th \<and> list_all (\<lambda>l. l \<le> 0 \<or> th < l) ls) ths \<longleftrightarrow>
      ?c \<noteq> 0 \<and> list_all (\<lambda>l. l \<le> 0 \<or> ?c < l) ls"
  proof
    assume "list_ex (\<lambda>th. left \<le> th \<and> list_all (\<lambda>l. l \<le> 0 \<or> th < l) ls) ths"
    then obtain th where "th \<in> set ths" "left \<le> th" "list_all (\<lambda>l. l \<le> 0 \<or> th < l) ls"
      by (auto simp: list_ex_iff)
    then show "?c \<noteq> 0 \<and> list_all (\<lambda>l. l \<le> 0 \<or> ?c < l) ls"
      using least by (fastforce simp: list_all_iff)
  next
    assume "?c \<noteq> 0 \<and> list_all (\<lambda>l. l \<le> 0 \<or> ?c < l) ls"
    then show "list_ex (\<lambda>th. left \<le> th \<and> list_all (\<lambda>l. l \<le> 0 \<or> th < l) ls) ths"
      using last_crossed_mem [of ths left] by (auto simp: list_ex_iff)
  qed
  moreover have "?c \<noteq> 0 \<Longrightarrow> ?c \<in> fired_by ths ls \<longleftrightarrow> \<not> list_all (\<lambda>l. l \<le> 0 \<or> ?c < l) ls"
    using threshold_fired_by [of ?c ths ls] last_crossed_mem [of ths left]
    by (fastforce simp: list_all_iff list_ex_iff)
  ultimately show ?thesis using False by (auto simp: wants_reminder_def)
qed

definition knows :: "tracker \<Rightarrow> (go_vault \<times> int) list \<Rightarrow> bool" where
  "knows t past \<longleftrightarrow> sorted (rev (thresholds t)) \<and> list_all (\<lambda>th. 0 < th) (thresholds t) \<and>
     (\<forall>a due. fired_at t a due = fired_by (thresholds t) (window a due past))"

lemma knows_new: "knows (new_tracker ts) []"
  using new_tracker_thresholds by (simp add: knows_def fired_at_def new_tracker_def)

lemma knows_due:
  assumes "knows t past"
  shows "fst (tracker_due t v now) = history_due (thresholds t) past v now"
proof (cases "gv_is_claimed v")
  case True
  then show ?thesis by (simp add: tracker_due_def history_due_def)
next
  case False
  then show ?thesis
    using assms quiet_iff [of "thresholds t" "go_time_left v now" "window (gv_address v) (go_deadline v) past"]
    by (auto simp: knows_def tracker_due_eq history_due_def Let_def)
qed

lemma knows_step:
  assumes k: "knows t past"
  shows "knows (snd (tracker_due t v now)) ((v, now) # past)"
proof -
  let ?ths = "thresholds t" and ?left = "go_time_left v now"
  have ths: "sorted (rev ?ths)" "list_all (\<lambda>th. 0 < th) ?ths"
    and fired: "\<And>a due. fired_at t a due = fired_by ?ths (window a due past)"
    using k by (simp_all add: knows_def)
  have "fired_at (snd (tracker_due t v now)) a due = fired_by ?ths (window a due ((v, now) # past))" for a due
  proof (cases "a = gv_address v \<and> \<not> gv_is_claimed v \<and> due = go_deadline v \<and> 0 < ?left")
    case True
    let ?ls = "window a due past" and ?c = "last_crossed ?ths ?left"
    have covered: "{th \<in> set ?ths. ?left \<le> th} \<subseteq> fired_by ?ths ?ls" if quiet: "fst (tracker_due t v now) = None"
    proof
      fix th assume th: "th \<in> {th \<in> set ?ths. ?left \<le> th}"
      then have c: "0 < ?c" "?c \<le> th" using last_crossed_least [OF ths] by auto
      have "?c = 0 \<or> ?c \<in> fired_by ?ths ?ls"
        using quiet True fired by (simp add: tracker_due_eq Let_def split: if_splits)
      with c(1) have "list_ex (\<lambda>l. 0 < l \<and> l \<le> ?c) ?ls"
        using threshold_fired_by [of ?c ?ths ?ls] by simp
      with c th show "th \<in> fired_by ?ths ?ls"
        using threshold_fired_by [of th ?ths ?ls] by (fastforce simp: list_ex_iff)
    qed
    then show ?thesis
      using True fired by (auto simp: fired_at_due fired_by_Cons fire_crossed_eq Let_def)
  next
    case False
    then show ?thesis using fired by (auto simp: fired_at_due fired_by_Cons Let_def)
  qed
  then show ?thesis using ths by (simp add: knows_def)
qed

lemma polls_history: "knows t past \<Longrightarrow> fst (polls t ps) = history_polls (thresholds t) past ps"
proof (induction ps arbitrary: t past)
  case (Cons p ps)
  obtain v now r t' rs t'' where p: "p = (v, now)" "tracker_due t v now = (r, t')" "polls t' ps = (rs, t'')"
    by (metis prod.exhaust)
  have "knows t' ((v, now) # past)" "thresholds t' = thresholds t"
    using knows_step [OF Cons.prems, of v now] tracker_due_thresholds [of t v now] by (simp_all add: p)
  then show ?case
    using Cons.IH [of t' "(v, now) # past"] knows_due [OF Cons.prems, of v now] by (simp add: p)
qed simp

section \<open>How often, and when at all\<close>

text \<open>Each reminder of a deadline uses up one of the thresholds or the expiry.\<close>

definition unannounced :: "tracker \<Rightarrow> pubkey \<Rightarrow> int \<Rightarrow> nat" where
  "unannounced t a due = card (insert expired (set (thresholds t)) - fired_at t a due)"

definition same_deadline :: "pubkey \<Rightarrow> int \<Rightarrow> (go_vault \<times> int) list \<Rightarrow> bool" where
  "same_deadline a due ps \<longleftrightarrow>
     list_all (\<lambda>(v, now). gv_address v \<noteq> a \<or> \<not> gv_is_claimed v \<and> go_deadline v = due) ps"

definition reminders_about :: "pubkey \<Rightarrow> reminder option list \<Rightarrow> reminder list" where
  "reminders_about a rs = filter (\<lambda>r. rem_vault r = a) (List.map_filter id rs)"

lemma reminders_about_simps [simp]:
  "reminders_about a [] = []" "reminders_about a (None # rs) = reminders_about a rs"
  "reminders_about a (Some r # rs) =
     (if rem_vault r = a then r # reminders_about a rs else reminders_about a rs)"
  by (simp_all add: reminders_about_def List.map_filter_simps)

lemma tracker_due_vault: "fst (tracker_due t v now) = Some r \<Longrightarrow> rem_vault r = gv_address v"
  by (cases "gv_is_claimed v")
     (auto simp: tracker_due_def tracker_due_eq Let_def make_reminder_def split: if_splits)

lemma due_fires_new:
  assumes "\<not> gv_is_claimed v" "fst (tracker_due t v now) = Some r"
  shows "\<exists>th \<in> insert expired (set (thresholds t)). th \<notin> fired_at t (gv_address v) (go_deadline v) \<and>
    th \<in> fired_at (snd (tracker_due t v now)) (gv_address v) (go_deadline v)"
proof (cases "go_time_left v now \<le> 0")
  case True
  then show ?thesis
    using assms by (auto simp: fired_at_due Let_def) (auto simp: tracker_due_eq Let_def split: if_splits)
next
  case False
  let ?c = "last_crossed (thresholds t) (go_time_left v now)"
  have "?c \<noteq> 0" "?c \<notin> fired_at t (gv_address v) (go_deadline v)"
    using assms False by (auto simp: tracker_due_eq Let_def split: if_splits)
  moreover from this have "?c \<in> set (thresholds t)" "go_time_left v now \<le> ?c"
    using last_crossed_mem by blast+
  ultimately show ?thesis
    using assms False by (intro bexI [of _ ?c]) (auto simp: fired_at_due fire_crossed_eq Let_def)
qed

lemma due_unannounced:
  assumes "same_deadline a due [(v, now)]"
  shows "length (reminders_about a [fst (tracker_due t v now)]) + unannounced (snd (tracker_due t v now)) a due
    \<le> unannounced t a due"
proof (cases "gv_address v = a")
  case False
  then show ?thesis
    by (cases "fst (tracker_due t v now)") (auto simp: unannounced_def fired_at_due dest: tracker_due_vault)
next
  case True
  let ?t' = "snd (tracker_due t v now)" and ?all = "insert expired (set (thresholds t))"
  have v: "\<not> gv_is_claimed v" "go_deadline v = due" using assms True by (simp_all add: same_deadline_def)
  have grow: "?all - fired_at ?t' a due \<subseteq> ?all - fired_at t a due"
    using True v by (auto simp: fired_at_due fire_crossed_eq Let_def)
  show ?thesis
  proof (cases "fst (tracker_due t v now)")
    case None
    then show ?thesis using card_mono [OF _ grow] by (simp add: unannounced_def)
  next
    case (Some r)
    then have "?all - fired_at ?t' a due \<subset> ?all - fired_at t a due"
      using grow due_fires_new [OF v(1) Some] True v(2) by blast
    then have "card (?all - fired_at ?t' a due) < card (?all - fired_at t a due)"
      by (intro psubset_card_mono) simp
    then show ?thesis using Some by (simp add: unannounced_def)
  qed
qed

lemma polls_Cons:
  "polls t ((v, now) # ps) = (fst (tracker_due t v now) # fst (polls (snd (tracker_due t v now)) ps),
     snd (polls (snd (tracker_due t v now)) ps))"
  by (simp add: split_beta)

lemma polls_bounded:
  "same_deadline a due ps \<Longrightarrow>
     length (reminders_about a (fst (polls t ps))) + unannounced (snd (polls t ps)) a due \<le> unannounced t a due"
proof (induction ps arbitrary: t)
  case (Cons p ps)
  obtain v now where p: "p = (v, now)" by (cases p)
  have one: "same_deadline a due [(v, now)]" and rest: "same_deadline a due ps"
    using Cons.prems by (simp_all add: same_deadline_def p)
  let ?r = "fst (tracker_due t v now)" and ?t' = "snd (tracker_due t v now)"
  have "length (reminders_about a (fst (polls t (p # ps)))) =
      length (reminders_about a [?r]) + length (reminders_about a (fst (polls ?t' ps)))"
    by (cases ?r) (simp_all add: p split_beta)
  then show ?case
    using due_unannounced [OF one, of t] Cons.IH [OF rest, of ?t'] by (simp only: p polls_Cons snd_conv)
qed simp

lemma unannounced_le: "unannounced t a due \<le> card (set (thresholds t)) + 1"
proof -
  have "unannounced t a due \<le> card (insert expired (set (thresholds t)))"
    unfolding unannounced_def by (intro card_mono) auto
  also have "\<dots> \<le> card (set (thresholds t)) + 1" by (simp add: card_insert_if)
  finally show ?thesis .
qed

text \<open>An expired vault that was not yet announced as such is announced at the next poll of it.\<close>

lemma polls_announce:
  assumes "list_all (\<lambda>th. 0 < th) (thresholds t)" "same_deadline a due ps"
    and "expired \<notin> fired_at t a due" "(v, now) \<in> set ps" "gv_address v = a" "due \<le> now"
  shows "\<exists>(u, n) \<in> set ps. gv_address u = a \<and>
    Some (make_reminder u StatusExpired due (go_time_left u n)) \<in> set (fst (polls t ps))"
  using assms
proof (induction ps arbitrary: t)
  case (Cons p ps)
  obtain u n where p: "p = (u, n)" by (cases p)
  have one: "same_deadline a due [(u, n)]" and rest: "same_deadline a due ps"
    using Cons.prems(2) by (simp_all add: same_deadline_def p)
  let ?t' = "snd (tracker_due t u n)"
  show ?case
  proof (cases "gv_address u = a \<and> go_time_left u n \<le> 0")
    case True
    then have "fst (tracker_due t u n) = Some (make_reminder u StatusExpired due (go_time_left u n))"
      using one Cons.prems(3) by (simp add: same_deadline_def tracker_due_eq Let_def)
    then show ?thesis using True by (auto simp: p split_beta)
  next
    case False
    have "(v, now) \<in> set ps"
      using Cons.prems(4,5,6) False one by (auto simp: p same_deadline_def go_time_left_def)
    moreover have "expired \<notin> fired_at ?t' a due"
      using False Cons.prems(1,3) one
      by (auto simp: fired_at_due Let_def fire_crossed_eq same_deadline_def expired_def list_all_iff)
    ultimately have "\<exists>(u, n) \<in> set ps. gv_address u = a \<and>
        Some (make_reminder u StatusExpired due (go_time_left u n)) \<in> set (fst (polls ?t' ps))"
      using Cons.IH [of ?t'] Cons.prems(1,5,6) rest by auto
    then show ?thesis by (force simp: p split_beta)
  qed
qed simp

section \<open>A scan is a sequence of polls\<close>

lemma remind_polls:
  "map fst (fst (remind notify now vs t)) =
     List.map_filter id (fst (polls t (map (\<lambda>v. (v, now)) vs)))"
  "snd (remind notify now vs t) = snd (polls t (map (\<lambda>v. (v, now)) vs))"
  by (induction vs arbitrary: t)
     (auto simp: List.map_filter_simps split_beta split: option.split)

lemma scan_Inr:
  "scan replace notify fetched now s t = Inr (sent, s', t') \<longleftrightarrow>
     (\<exists>vs. fetched = Inr vs \<and> replace vs s = Inr s' \<and>
        remind notify now vs (tracker_forget (gv_address ` set vs) t) = (sent, t'))"
  by (auto simp: scan_def and_then_eq_Inr split_beta prod_eq_iff)

text \<open>What the tracker will say next does not depend on whether a reminder got through.\<close>

lemma remind_ignores_delivery:
  "map fst (fst (remind notify now vs t)) = map fst (fst (remind notify' now vs t)) \<and>
   snd (remind notify now vs t) = snd (remind notify' now vs t)"
  by (simp add: remind_polls)

text \<open>The tracker keeps state for the live, unclaimed vaults only.\<close>

lemma tracker_due_dom:
  "dom (trk_state (snd (tracker_due t v now))) =
     (if gv_is_claimed v then dom (trk_state t) - {gv_address v} else insert (gv_address v) (dom (trk_state t)))"
  by (auto simp: tracker_due_def tracker_due_eq Let_def split: if_splits)

lemma remind_dom:
  "distinct (map gv_address vs) \<Longrightarrow> dom (trk_state (snd (remind notify now vs t))) =
     (dom (trk_state t) - gv_address ` {v \<in> set vs. gv_is_claimed v}) \<union> gv_address ` {v \<in> set vs. \<not> gv_is_claimed v}"
proof (induction vs arbitrary: t)
  case (Cons v vs)
  have "dom (trk_state (snd (remind notify now (v # vs) t))) =
      dom (trk_state (snd (remind notify now vs (snd (tracker_due t v now)))))"
    by (simp add: split_beta split: option.split)
  moreover have "gv_address u \<noteq> gv_address v" if "u \<in> set vs" for u
    using Cons.prems that by (metis distinct.simps(2) imageI list.set_map list.simps(9))
  ultimately show ?case using Cons by (auto simp: tracker_due_dom simp del: remind.simps)
qed simp

lemma scan_tracks_live:
  assumes "scan replace notify (Inr vs) now s t = Inr (sent, s', t')" "distinct (map gv_address vs)"
  shows "dom (trk_state t') = gv_address ` {v \<in> set vs. \<not> gv_is_claimed v}"
proof -
  let ?t = "tracker_forget (gv_address ` set vs) t"
  have "snd (remind notify now vs ?t) = t'" using assms(1) by (simp add: scan_Inr)
  then show ?thesis
    using remind_dom [OF assms(2), of notify now ?t] by (auto simp: tracker_forget_def)
qed

lemma fired_at_forget:
  "fired_at (tracker_forget live t) a due = (if a \<in> live then fired_at t a due else {})"
  by (simp add: fired_at_def tracker_forget_def)

text \<open>A scan that finds a vault expired, and has not said so before, says so.\<close>

lemma scan_announces:
  assumes "scan replace notify (Inr vs) now s t = Inr (sent, s', t')" "distinct (map gv_address vs)"
    and "list_all (\<lambda>th. 0 < th) (thresholds t)" "v \<in> set vs" "\<not> gv_is_claimed v" "go_deadline v \<le> now"
    and "expired \<notin> fired_at t (gv_address v) (go_deadline v)"
  shows "make_reminder v StatusExpired (go_deadline v) (go_time_left v now) \<in> fst ` set sent"
proof -
  let ?t = "tracker_forget (gv_address ` set vs) t" and ?ps = "map (\<lambda>v. (v, now)) vs"
  have same: "u = v" if "u \<in> set vs" "gv_address u = gv_address v" for u
    using assms(2,4) that by (simp add: distinct_map inj_on_def)
  then have "same_deadline (gv_address v) (go_deadline v) ?ps"
    using assms(5) by (auto simp: same_deadline_def list_all_iff)
  moreover have "expired \<notin> fired_at ?t (gv_address v) (go_deadline v)"
    using assms(7) by (simp add: fired_at_forget)
  ultimately obtain u where u: "u \<in> set vs" "gv_address u = gv_address v"
      "Some (make_reminder u StatusExpired (go_deadline v) (go_time_left u now)) \<in> set (fst (polls ?t ?ps))"
    using polls_announce [of ?t "gv_address v" "go_deadline v" ?ps v now] assms(3,4,6)
    by (auto simp: tracker_forget_def)
  let ?r = "make_reminder v StatusExpired (go_deadline v) (go_time_left v now)"
  have "?r \<in> set (List.map_filter id (fst (polls ?t ?ps)))"
    using u same [OF u(1,2)] by (force simp: List.map_filter_def)
  moreover have "map fst sent = List.map_filter id (fst (polls ?t ?ps))"
    using assms(1) remind_polls(1) [of notify now vs ?t] by (simp add: scan_Inr)
  ultimately show ?thesis by (metis list.set_map)
qed

end
