(* ===== verification/Wire_Extras.thy ===== *)
theory Wire_Extras
  imports Wire
begin

text \<open>
  What a transaction may carry beyond an instruction's own arguments and accounts: bytes after
  the arguments and accounts after the struct's (the \<open>remaining_accounts\<close> of the client).
  Neither changes what the program is asked to do. And \<open>mut\<close> accounts: in an instruction that
  succeeds they are pairwise different, so a check for duplicates would never fire.
\<close>

section \<open>Extra bytes and extra accounts\<close>

definition with_extras :: "tx_instruction \<Rightarrow> account_meta list \<Rightarrow> u8 list \<Rightarrow> tx_instruction" where
  "with_extras tx extra junk =
     tx\<lparr>tx_metas := tx_metas tx @ extra, tx_bytes := tx_bytes tx @ junk\<rparr>"

lemma slot_ok_more: "set w \<subseteq> set w' \<Longrightarrow> slot_ok pid w s k \<Longrightarrow> slot_ok pid w' s k"
  by (cases s) auto

lemma take_accounts_extend:
  "set w \<subseteq> set w' \<Longrightarrow> take_accounts pid w ss ms = Some ks \<Longrightarrow> take_accounts pid w' ss (ms @ extra) = Some ks"
proof (induction ss arbitrary: ms ks)
  case (Cons s ss)
  then show ?case by (auto simp: take_accounts_Cons slot_ok_more)
qed simp

text \<open>A decoder that reads on from where it is does not see what follows.\<close>

definition local_dec :: "'a decoder \<Rightarrow> bool" where
  "local_dec d \<longleftrightarrow> (\<forall>bs a rest junk. d bs = Some (a, rest) \<longrightarrow> d (bs @ junk) = Some (a, rest @ junk))"

lemma local_decoders:
  "local_dec (dec_word :: u64 decoder)" "local_dec (dec_vec dec_beneficiary_input)" "local_dec dec_initialize_args"
  by (auto simp: local_dec_def dec_initialize_args_def decode_simps)

text \<open>The same call, with more signers: what the extras may do to a result.\<close>

definition extends ::
  "pubkey list \<Rightarrow> (pubkey list \<times> instruction) option \<Rightarrow> (pubkey list \<times> instruction) option \<Rightarrow> bool" where
  "extends ks r r' \<longleftrightarrow> (\<forall>signers ix. r = Some (signers, ix) \<longrightarrow> r' = Some (signers @ ks, ix))"

lemma extends_None: "extends ks None r'"
  by (simp add: extends_def)

lemma extends_if:
  "extends ks a a' \<Longrightarrow> extends ks b b' \<Longrightarrow> extends ks (if c then a else b) (if c then a' else b')"
  by simp

lemma extends_prod: "(\<And>x y. extends ks (f x y) (g x y)) \<Longrightarrow> extends ks (case p of (x, y) \<Rightarrow> f x y) (case p of (x, y) \<Rightarrow> g x y)"
  by (cases p) simp

lemma extends_with_args:
  assumes "local_dec d" "\<And>a. extends ks (f a) (g a)"
  shows "extends ks (with_args d bs f) (with_args d (bs @ junk) g)"
  using assms unfolding extends_def with_args_Some local_dec_def by blast

lemmas discriminator_defs = check_in_discriminator_def claim_sol_discriminator_def
  claim_spl_discriminator_def close_vault_discriminator_def deposit_sol_discriminator_def
  deposit_spl_discriminator_def initialize_vault_discriminator_def set_beneficiaries_discriminator_def
  withdraw_sol_discriminator_def withdraw_spl_discriminator_def

lemma length_discriminators:
  "length check_in_discriminator = 8" "length claim_sol_discriminator = 8" "length claim_spl_discriminator = 8"
  "length close_vault_discriminator = 8" "length deposit_sol_discriminator = 8"
  "length deposit_spl_discriminator = 8" "length initialize_vault_discriminator = 8"
  "length set_beneficiaries_discriminator = 8" "length withdraw_sol_discriminator = 8"
  "length withdraw_spl_discriminator = 8"
  by (simp_all add: discriminator_defs)

lemma route_long_enough:
  assumes "route rt tx = Some r" shows "8 \<le> length (tx_bytes tx)"
proof -
  have "take 8 (tx_bytes tx) \<in> {check_in_discriminator, claim_sol_discriminator, claim_spl_discriminator,
      close_vault_discriminator, deposit_sol_discriminator, deposit_spl_discriminator,
      initialize_vault_discriminator, set_beneficiaries_discriminator, withdraw_sol_discriminator,
      withdraw_spl_discriminator}"
    using assms by (auto simp: route_def Let_def split: if_splits)
  then have "length (take 8 (tx_bytes tx)) = 8"
    by (elim insertE emptyE) (simp_all only: length_discriminators)
  then show ?thesis by simp
qed

lemma extends_accounts:
  "extends (map meta_key (filter is_signer extra))
     (map_option (\<lambda>ks. (signer_keys tx, f ks)) (take_accounts pid (writable_keys tx) slots (tx_metas tx)))
     (map_option (\<lambda>ks. (signer_keys (with_extras tx extra junk), f ks))
        (take_accounts pid (writable_keys (with_extras tx extra junk)) slots (tx_metas (with_extras tx extra junk))))"
  by (auto simp: extends_def with_extras_def signer_keys_def writable_keys_def
      intro!: take_accounts_extend [where w = "map meta_key (filter is_writable (tx_metas tx))"])

lemma route_with_extras:
  assumes "route rt tx = Some (signers, ix)"
  shows "route rt (with_extras tx extra junk) = Some (signers @ map meta_key (filter is_signer extra), ix)"
proof -
  let ?tx = "with_extras tx extra junk"
  have bytes: "tx_program ?tx = tx_program tx" "take 8 (tx_bytes ?tx) = take 8 (tx_bytes tx)"
    "drop 8 (tx_bytes ?tx) = drop 8 (tx_bytes tx) @ junk"
    using route_long_enough [OF assms] by (simp_all add: with_extras_def)
  have "extends (map meta_key (filter is_signer extra)) (route rt tx) (route rt ?tx)"
    unfolding route_def Let_def bytes
    by (intro extends_if extends_None extends_with_args extends_prod extends_accounts local_decoders)
  then show ?thesis using assms by (simp add: extends_def)
qed

section \<open>No account twice\<close>

text \<open>
  The mutable accounts an instruction deserialises. Anchor refuses a transaction that passes
  one account for two of them; a successful instruction never has.
\<close>

fun serialized_keys :: "instruction \<Rightarrow> pubkey list" where
  "serialized_keys (DepositSpl own key mnt own_token vault_token prog amount) = [key, own_token, vault_token]"
| "serialized_keys (WithdrawSpl own key mnt vault_token own_token prog amount) = [key, vault_token, own_token]"
| "serialized_keys (ClaimSpl k key mnt vault_token k_token prog) = [key, vault_token, k_token]"
| "serialized_keys (CloseVault own key vault_token prog) =
     key # (case vault_token of None \<Rightarrow> [] | Some k \<Rightarrow> [k])"
| "serialized_keys (InitializeVault own key mnt ident tmo inputs) = [key]"
| "serialized_keys (DepositSol own key amount) = [key]"
| "serialized_keys (CheckIn own key) = [key]"
| "serialized_keys (SetBeneficiaries own key inputs) = [key]"
| "serialized_keys (WithdrawSol own key amount) = [key]"
| "serialized_keys (ClaimSol k key) = [key]"

lemma init_target_other:
  assumes "create_associated_law rt" "init_if_needed_associated rt A key payer wallet mnt prog = Inr A'"
    and "data (A k) \<noteq> NoData" "\<And>t. data (A k) = TokenData t \<Longrightarrow> tok_owner t \<noteq> wallet"
  shows "k \<noteq> key"
proof
  assume k: "k = key"
  from assms(2) obtain t where t: "data (A' key) = TokenData t" "tok_owner t = wallet"
    and how: "if owner_program (A key) = system_program rt
      then create_associated rt payer key wallet mnt prog A = Inr A' else A' = A"
    by (auto simp: init_if_needed_associated_Inr)
  have "data (A key) = NoData" if "create_associated rt payer key wallet mnt prog A = Inr A'"
    using assms(1) that unfolding create_associated_law_def by blast
  with assms(3) k how have "A' = A" by (auto split: if_splits)
  with t assms(4) k show False by simp
qed

lemma serialized_distinct:
  assumes law: "runtime_laws rt" and w: "wallets signers (accounts s)"
    and run: "dispatch rt signers ix s = Inr s'"
  shows "distinct (serialized_keys ix) \<and> (vault_at (accounts s) k \<noteq> None \<longrightarrow> authority ix \<noteq> k)"
proof -
  note create = runtime_lawsD(3) [OF law]
  have auth: "vault_at (accounts s) k \<noteq> None \<Longrightarrow> authority ix \<noteq> k" for k
    using w dispatch_authority [OF run] by (auto simp: wallets_def list_all_iff)
  have "distinct (serialized_keys ix)"
  proof (cases ix)
    case (DepositSpl own key mnt own_token vault_token prog amount)
    with run auth [of key] show ?thesis
      by (auto simp: deposit_spl_Inr accounts_deposit_spl_Inr load_vault_Inr load_associated_Inr vault_at_def
          dest: init_target_other [OF create, of _ _ _ _ _ _ _ key] init_target_other [OF create, of _ _ _ _ _ _ _ own_token])
  next
    case (WithdrawSpl own key mnt vault_token own_token prog amount)
    with run auth [of key] show ?thesis
      by (auto simp: withdraw_spl_Inr accounts_withdraw_spl_Inr load_vault_Inr load_associated_Inr vault_at_def
          dest: init_target_other [OF create, of _ _ _ _ _ _ _ key] init_target_other [OF create, of _ _ _ _ _ _ _ vault_token])
  next
    case (ClaimSpl claimant key mnt vault_token k_token prog)
    with run auth [of key] show ?thesis
      by (auto simp: claim_spl_Inr accounts_claim_spl_Inr load_vault_Inr load_associated_Inr vault_at_def
          dest: init_target_other [OF create, of _ _ _ _ _ _ _ key] init_target_other [OF create, of _ _ _ _ _ _ _ vault_token])
  next
    case (CloseVault own key vault_token prog)
    with run show ?thesis
      by (auto simp: close_vault_Inr accounts_close_vault_Inr load_vault_Inr load_token_Inr split: option.splits)
  qed simp_all
  with auth show ?thesis by blast
qed

end
