(* ===== verification/Blink.thy ===== *)
theory Blink
  imports Keeper Invariants
begin

text \<open>
  The two actions of the blink server (\<open>keeper/internal/blink/server.go\<close>): what it answers to a
  wallet that asks for a check-in or a claim transaction, once the vault is loaded, and when
  its cards are greyed out. Its checks repeat the program's in advance, so that a user is told
  why before they sign. Parsing of requests and the texts of the answers are left out.
\<close>

section \<open>The actions\<close>

datatype blink_refusal =
    NotYourVault
  | AlreadyTripped
  | NotABeneficiary
  | ShareTaken
  | TooEarly int

definition post_check_in :: "pubkey \<Rightarrow> pubkey \<Rightarrow> go_vault \<Rightarrow> blink_refusal + tx_instruction" where
  "post_check_in pid account g =
     and_then (require (account = gv_owner g) NotYourVault) (\<lambda>_.
     and_then (require (\<not> gv_is_claimed g) AlreadyTripped) (\<lambda>_.
       Inr (go_check_in pid account (gv_address g))))"

definition post_claim :: "pubkey \<Rightarrow> pubkey \<Rightarrow> go_vault \<Rightarrow> int \<Rightarrow> blink_refusal + tx_instruction" where
  "post_claim pid account g now =
     (let index = go_index g account
      in and_then (require (\<not> index < 0) NotABeneficiary) (\<lambda>_.
         and_then (require (\<not> gb_claimed (gv_beneficiaries g ! nat index)) ShareTaken) (\<lambda>_.
         let left = go_time_left g now
         in and_then (require (\<not> 0 < left) (TooEarly left)) (\<lambda>_.
              Inr (go_claim_sol pid account (gv_address g))))))"

text \<open>The cards shown before: whether their button is disabled.\<close>

definition check_in_card_disabled :: "go_vault \<Rightarrow> bool" where
  "check_in_card_disabled g \<longleftrightarrow> gv_is_claimed g"

definition claim_card_disabled :: "go_vault \<Rightarrow> int \<Rightarrow> bool" where
  "claim_card_disabled g now \<longleftrightarrow> 0 < go_time_left g now"

section \<open>The same checks as the program's\<close>

lemma index_from_position:
  "index_from i bs a = (case position (\<lambda>b. gb_address b = a) bs of None \<Rightarrow> -1 | Some j \<Rightarrow> i + int j)"
  by (induction i bs a rule: index_from.induct) (auto split: option.split)

lemma position_view: "position (\<lambda>b. gb_address b = a) (map view_heir bs) = position (\<lambda>b. address b = a) bs"
  by (induction bs) (auto simp: view_heir_def)

lemma time_left_view:
  assumes inv: "vault_inv v" and now: "time_unix t \<le> now" "now < time_unix t + 1000000000"
  shows "0 < go_time_left (view_vault key v) now \<longleftrightarrow> sint t < sint (last_checkin v) + sint (timeout_seconds v)"
proof -
  obtain d where d: "deadline v = Inr d" "go_deadline (view_vault key v) = sint d * 1000000000"
    using keeper_deadline [OF inv] by blast
  then have "sint d = sint (last_checkin v) + sint (timeout_seconds v)" by (simp add: deadline_Inr)
  moreover have "0 < go_time_left (view_vault key v) now \<longleftrightarrow> now < sint d * 1000000000"
    by (auto simp: go_time_left_def d(2))
  moreover have "now < sint d * 1000000000 \<longleftrightarrow> sint t < sint d"
    using now unfolding time_unix_def by linarith
  ultimately show ?thesis by simp
qed

lemma post_claim_authorize:
  assumes inv: "vault_inv v" and now: "time_unix t \<le> now" "now < time_unix t + 1000000000"
  shows "(\<exists>tx. post_claim pid account (view_vault key v) now = Inr tx) \<longleftrightarrow>
    (\<exists>p. authorize_claim v account t avail = Inr p)"
proof (cases "position (\<lambda>b. address b = account) (heirs v)")
  case None
  then have "go_index (view_vault key v) account = -1"
    by (simp add: go_index_def view_vault_def index_from_position position_view)
  then have "post_claim pid account (view_vault key v) now = Inl NotABeneficiary"
    by (simp add: post_claim_def)
  moreover have "address (heirs v ! i) \<noteq> account" if "i < length (heirs v)" for i
    using None that by (metis heirs_position_None imageI nth_mem)
  then have "authorize_claim v account t avail \<noteq> Inr p" for p
    by (cases p) (auto simp: authorize_claim_Inr [OF inv])
  ultimately show ?thesis by simp
next
  case (Some i)
  then have index: "go_index (view_vault key v) account = int i"
    by (simp add: go_index_def view_vault_def index_from_position position_view)
  have i: "i < length (heirs v)" "address (heirs v ! i) = account" using Some by (auto simp: position_Some)
  have "gb_claimed (gv_beneficiaries (view_vault key v) ! i) = claimed (heirs v ! i)"
    using i by (simp add: view_vault_def view_heir_def)
  moreover have "j = i" if "j < length (heirs v)" "address (heirs v ! j) = account" for j
    using that i vault_inv_table [OF inv] by (auto simp: valid_table_def distinct_conv_nth)
  then have "(\<exists>p. authorize_claim v account t avail = Inr p) \<longleftrightarrow>
      sint (last_checkin v) + sint (timeout_seconds v) \<le> sint t \<and> \<not> claimed (heirs v ! i)"
    unfolding split_paired_Ex authorize_claim_Inr [OF inv] using i by blast
  ultimately show ?thesis
    using index time_left_view [OF inv now, of key] by (auto simp: post_claim_def Let_def)
qed

text \<open>The errors of a claim that its authorisation cannot have caused.\<close>

lemma claim_amount_errors:
  "claim_amount t v avail = Inl e \<Longrightarrow> e \<in> {Dms InsufficientFunds, Dms MathOverflow}"
  by (auto simp: claim_amount_def and_then_eq_Inl share_of_eq split: if_splits)

lemma move_lamports_errors:
  "move_lamports src dst amt A = Inl e \<Longrightarrow> e \<in> {Dms InsufficientFunds, Dms MathOverflow}"
  by (auto simp: move_lamports_def and_then_eq_Inl Let_def)

definition claim_refusals :: "error set" where
  "claim_refusals = {Dms TimeoutNotReached, Dms Unauthorized, Dms AlreadyClaimed}"

lemma claim_sol_refused:
  assumes ok: "vault_ok rt key (accounts s key) v" and v: "vault_at (accounts s) key = Some v" "is_sol v"
  shows "claim_sol rt [k] k key s \<in> Inl ` claim_refusals \<longleftrightarrow>
    \<not> (\<exists>p. authorize_claim v k (unix_timestamp s) (withdrawable_lamports rt (accounts s key)) = Inr p)"
proof -
  let ?avail = "withdrawable_lamports rt (accounts s key)"
  have inv: "vault_inv v" using ok by (simp add: vault_ok_def)
  have acc: "accounts_claim_sol rt [k] k key (accounts s) = Inr v"
    using ok v by (simp add: accounts_claim_sol_Inr load_vault_Inr vault_ok_def vault_at_Some)
  show ?thesis
  proof (cases "authorize_claim v k (unix_timestamp s) ?avail")
    case (Inl e)
    then have "e \<in> claim_refusals"
      using authorize_claim_Inl [OF inv, of k "unix_timestamp s" ?avail e]
      by (auto simp: claim_refusals_def split: if_splits)
    then show ?thesis
      using Inl acc by (simp add: claim_sol_def handle_claim_sol_def book_claim_def Let_def)
  next
    case (Inr p)
    have "claim_sol rt [k] k key s \<noteq> Inl e" if "e \<in> claim_refusals" for e
      using that Inr acc claim_amount_errors move_lamports_errors
      by (cases p) (fastforce simp: claim_sol_def handle_claim_sol_def book_claim_def Let_def
          and_then_eq_Inl claim_refusals_def)
    with Inr show ?thesis by auto
  qed
qed

end
