(* ===== verification/Service_Properties.thy ===== *)
theory Service_Properties
  imports Fuzz_Campaign Reminders Wire_Extras Blink Scenarios
begin

text \<open>
  The properties of what surrounds the program: the campaign of the fuzz harness, the shape of
  the transactions the program accepts, the reminders of the keeper and the actions of its
  blink server; and that the claims of a vault come to an end.
\<close>

section \<open>The fuzz campaign\<close>

text \<open>A world for the harness: the sample runtime under the id of the deployed program.\<close>

definition harness_init :: "pubkey \<Rightarrow> pubkey \<Rightarrow> nat \<Rightarrow> ledger \<Rightarrow> nat + ledger" where
  "harness_init payer key space A = (case sample_init payer key space A of
     Inl n \<Rightarrow> Inl n | Inr A' \<Rightarrow> Inr (A'(key := (A' key)\<lparr>owner_program := client_program_id\<rparr>)))"

definition harness_rt :: runtime where
  "harness_rt = sample_rt\<lparr>program_id := client_program_id, init_account := harness_init\<rparr>"

definition harness_trident :: trident where
  "harness_trident = \<lparr>pick = (\<lambda>n st. if st = [] then None else Some (st ! (n mod length st))),
     airdrop = (\<lambda>k n A. A(k := (A k)\<lparr>lamports := if unat (lamports (A k)) + unat n < 2 ^ 64
                                                 then lamports (A k) + n else lamports (A k)\<rparr>)),
     charge_fee = (\<lambda>A. A),
     forward_in_time = (\<lambda>t n. if sint t + sint n < 2 ^ 63 then t + n else t)\<rparr>"

definition harness_genesis :: chain where
  "harness_genesis = \<lparr>accounts = (\<lambda>_. unused_account), unix_timestamp = 1800000000\<rparr>"

definition harness_draws :: fuzz_draws where
  "harness_draws = \<lparr>drawn_owner = 1, drawn_heirs = [2, 3, 4], drawn_timeout = 60, drawn_amount = 5000000000\<rparr>"

lemma harness_world: "fuzz_world harness_rt"
proof -
  note laws = runtime_lawsD [OF sample_laws]
  have "init_account_law harness_rt"
    using laws(2) unfolding init_account_law_def harness_rt_def
    by (simp add: harness_init_def split: sum.splits)
  moreover have "system_transfer_law harness_rt" "create_associated_law harness_rt"
    "transfer_checked_law harness_rt" "close_token_account_law harness_rt"
    using laws by (simp_all add: harness_rt_def system_transfer_law_def create_associated_law_def
        transfer_checked_law_def close_token_account_law_def)
  moreover have "init_exact_law harness_rt"
    by (auto simp: init_exact_law_def harness_rt_def harness_init_def sample_init_def Let_def max_def
        word_le_nat_alt split: if_splits)
  moreover have "find_program_address_law harness_rt"
    using sample_find_law by (simp add: find_program_address_law_def harness_rt_def)
  ultimately show ?thesis
    by (simp add: fuzz_world_def runtime_laws_def harness_rt_def vault_space base_balance_def)
qed

lemma harness_trident_laws: "trident_laws harness_trident"
proof -
  have "sint t \<le> sint (t + n)" if "0 \<le> sint n" "sint t + sint n < 2 ^ 63" for t n :: i64
    using that sint_range_size [of t] by (simp add: word_size sint_word_ariths signed_take_bit_int_eq_self)
  moreover have "unat (lamports a) \<le> unat (lamports a + n)"
    if "unat (lamports a) + unat n < 2 ^ 64" for a :: account and n
    using that by (simp add: unat_word_ariths)
  ultimately show ?thesis
    by (auto simp: trident_laws_def harness_trident_def split: if_splits)
qed

lemma harness_key: "fst (find_program_address harness_rt (vault_seeds 1 FUZZ_VAULT_ID)) = 1558"
proof -
  have "le_bytes 8 (1 :: u64) = [1, 0, 0, 0, 0, 0, 0, 0]" by (simp add: le_bytes_def upt_rec)
  then show ?thesis
    unfolding vault_seeds_def VAULT_SEED_def owner_bytes FUZZ_VAULT_ID_def harness_rt_def
    by (simp add: sample_addr_def sum_zeros)
qed

text \<open>
  C19: an iteration of the fuzz harness passes. Whatever Trident draws and picks, from a chain without
  vaults, after the opening flow and up to a hundred flows in any order, none of the
  assertions of the harness fires: not the oracle (its own products do not overflow either), nor
  the checks on check-ins and claims, nor those on what a stranger gets through.
\<close>

theorem fuzz_campaign_passes:
  assumes "fuzz_world rt" "trident_laws tr" "trident_laws tr'" "draws_ok d"
    and "key = fst (find_program_address rt (vault_seeds (drawn_owner d) FUZZ_VAULT_ID))"
    and "key \<notin> set (drawn_owner d # drawn_heirs d)"
    and "\<And>k. vault_at (accounts s) k = None" "unat (lamports (accounts s key)) \<le> base_balance"
    and "length fls \<le> 100"
      "list_all (\<lambda>(tr, fl). trident_laws tr \<and> flow_ok (key # drawn_owner d # drawn_heirs d) fl) fls"
  shows "\<exists>f. fuzz_iteration rt tr d fls tr' s = Inr f"
  by (rule fuzz_iteration_passes [OF assms])

theorem fuzz_campaign_passes_witness:
  "\<exists>f. fuzz_iteration harness_rt harness_trident harness_draws
     (map (Pair harness_trident) [OwnerDeposits 7, OwnerChecksIn, StrangerAttacks 5 1000, OwnerWithdraws 3,
        TimePasses 100, HeirClaims, OwnerChecksIn]) harness_trident harness_genesis = Inr f"
  by (rule fuzz_campaign_passes [OF harness_world harness_trident_laws harness_trident_laws, where key = 1558])
     (simp_all add: harness_draws_def draws_ok_def harness_key harness_genesis_def vault_at_def
       unused_account_def base_balance_def harness_trident_laws lamports_per_sol_def)

section \<open>Claims come to an end\<close>

text \<open>
  C15: the claims of a vault come to an end. Whoever claims, whenever, and whatever has been added to
  or taken from the vault in between, there is no infinite sequence of successful claims, and none of
  six.
\<close>

theorem claims_run_out: "wf claim_step \<and> claim_step ^^ 6 = {}"
  using wf_claim_step at_most_five_claims by simp

section \<open>The shape of a transaction\<close>

text \<open>
  What follows an instruction's own arguments and accounts does not matter. A transaction that reaches
  an entry point reaches the same one with the same accounts and arguments when bytes are
  added to its data and accounts to its list; the additions only bring their signatures.
\<close>

theorem extras_change_nothing:
  assumes "route rt tx = Some (signers, ix)"
  shows "route rt (with_extras tx extra junk) = Some (signers @ map meta_key (filter is_signer extra), ix)"
  by (rule route_with_extras [OF assms])

theorem extras_change_nothing_witness:
  "route harness_rt (with_extras (client_instruction (DepositSol 1 1558 7)) [meta_new 5 True, meta_new 6 False] [1, 2, 3])
     = Some ([1, 5], DepositSol 1 1558 7)"
proof -
  have "route harness_rt (client_instruction (DepositSol 1 1558 7)) = Some ([1], DepositSol 1 1558 7)"
    using route_client_instruction [of harness_rt "DepositSol 1 1558 7"]
    by (simp add: harness_rt_def client_can_name_def)
  from extras_change_nothing [OF this, of "[meta_new 5 True, meta_new 6 False]" "[1, 2, 3]"]
  show ?thesis by (simp add: meta_new_def)
qed

text \<open>
  No instruction works with one account in two roles. In every instruction that succeeds, the mutable
  accounts it deserialises are pairwise different, and no vault is its own authority: the
  refusal of duplicates, which Anchor adds, never decides anything.
\<close>

theorem no_account_twice:
  assumes "runtime_laws rt" "wallets signers (accounts s)" "dispatch rt signers ix s = Inr s'"
    and "vault_at (accounts s) key = Some v"
  shows "distinct (serialized_keys ix) \<and> authority ix \<noteq> key"
  using serialized_distinct [OF assms(1-3), of key] assms(4) by simp

theorem no_account_twice_witness:
  "distinct (serialized_keys (ClaimSpl 2 1565 50 156505006 205006 6)) \<and> (2 :: pubkey) \<noteq> 1565"
proof -
  have "wallets [2] (accounts spl_late)"
    by (simp add: wallets_def vault_at_def spl_chain_defs account_defs)
  from no_account_twice [OF sample_laws this spl_claim_2_step spl_vaults(3)] show ?thesis by simp
qed

section \<open>Reminders\<close>

text \<open>
  C37: the tracker says what its history calls for. Over any sequence of polls, of any vaults at any
  times, forwards or backwards, a new tracker gives exactly the reminders of the reference that
  looks back at all earlier polls: one for a poll that crosses the deadline or a threshold
  which no earlier poll of the same deadline has crossed, and none for a claimed vault.
\<close>

theorem tracker_matches_history:
  "fst (polls (new_tracker ts) ps) = history_polls (rev (sort (filter (\<lambda>t. 0 < t) ts))) [] ps"
  using polls_history [OF knows_new, of ts ps] by (simp add: new_tracker_def)

text \<open>
  A deadline is announced a bounded number of times. While a vault keeps its deadline and is not
  claimed, whatever the tracker knew before and however often and at whatever times it
  is polled, its owner gets at most one reminder per threshold and one for the expiry.
\<close>

theorem reminders_bounded:
  assumes "same_deadline a due ps"
  shows "length (reminders_about a (fst (polls t ps))) \<le> card (set (thresholds t)) + 1"
  using polls_bounded [OF assms, of t] unannounced_le [of t a due] by linarith

text \<open>Two thresholds; the owner of the vault at address 1564 hears of it three times in four polls.\<close>

definition polled_vault :: go_vault where
  "polled_vault = view_vault 1564 (sample_vault 7 None False False 0)"

lemma polled_vault_deadline [simp]: "go_deadline polled_vault = 1800000060 * 1000000000"
  by (simp add: polled_vault_def go_deadline_def view_vault_def time_unix_def seconds_duration_def)

theorem reminders_bounded_witness:
  "length (reminders_about 1564 (fst (polls (new_tracker [10000000000, 30000000000, 0])
     (map (\<lambda>t. (polled_vault, time_unix t)) [1800000040, 1800000055, 1800000041, 1800000060])))) \<le> 3"
proof -
  have "same_deadline 1564 (1800000060 * 1000000000)
      (map (\<lambda>t. (polled_vault, time_unix t)) [1800000040, 1800000055, 1800000041, 1800000060])"
    by (simp add: same_deadline_def) (simp add: polled_vault_def view_vault_def)
  from reminders_bounded [OF this, of "new_tracker [10000000000, 30000000000, 0]"] show ?thesis
    by (simp add: new_tracker_def card_insert_if)
qed

text \<open>
  C35: the owner of an expired vault is told. Take a vault of a reachable chain whose deadline is past and
  which nobody has claimed, and a keeper that fetches vault accounts of the chain, this one
  among them: its scan goes through, and unless it has told this deadline's expiry before, it
  sends a reminder to the owner that says so; and the vault is in its cache afterwards.
\<close>

theorem expired_owner_is_told:
  assumes "runtime_laws rt" "find_program_address_law rt" "reachable rt s"
    and "true_answer (accounts s) accs" "key \<in> fst ` set accs" "vault_at (accounts s) key = Some v"
    and "\<not> is_claimed v" "is_expired v (unix_timestamp s) = Inr True"
    and "list_all (\<lambda>th. 0 < th) (thresholds t)"
    and "expired \<notin> fired_at t key (go_deadline (view_vault key v))"
  shows "\<exists>sent m' t'. scan (\<lambda>vs m. Inr (memory_replace vs m)) notify (fetch_vaults accs)
      (time_unix (unix_timestamp s)) m t = Inr (sent, m', t') \<and>
    (\<exists>r \<in> fst ` set sent. rem_vault r = key \<and> rem_owner r = owner v \<and> rem_status r = StatusExpired) \<and>
    memory_get m' key = Some (seen_vault (accounts s) key v)"
proof -
  let ?g = "seen_vault (accounts s) key v"
  have inv: "vault_inv u" if "vault_at (accounts s) k = Some u" for k u
    using reachable_ok [OF assms(1-3)] that by (auto simp: vault_at_Some vault_ok_def dest: ledger_okD)
  define vs where "vs = map (\<lambda>(k, balance, bytes). seen_vault (accounts s) k (the (vault_at (accounts s) k))) accs"
  have fetched: "fetch_vaults accs = Inr vs"
    unfolding vs_def by (rule fetch_true_answer [OF assms(4) inv])
  have addr: "map gv_address vs = map fst accs"
    unfolding vs_def by (auto simp: seen_vault_def view_vault_def)
  have g: "?g \<in> set vs" using assms(5,6) unfolding vs_def by (force simp: image_iff)
  obtain sent t' where run: "scan (\<lambda>vs m. Inr (memory_replace vs m) :: decode_error + memory) notify (Inr vs)
      (time_unix (unix_timestamp s)) m t = Inr (sent, memory_replace vs m, t')"
    by (cases "remind notify (time_unix (unix_timestamp s)) vs (tracker_forget (gv_address ` set vs) t)")
       (simp add: scan_def)
  have late: "go_deadline ?g \<le> time_unix (unix_timestamp s)"
    using keeper_deadline [OF inv [OF assms(6)], of key] assms(8)
    by (auto simp: is_expired_def time_unix_def seen_vault_def)
  have dist: "distinct (map gv_address vs)" using addr assms(4) by (simp add: true_answer_def)
  have view: "gv_address ?g = key" "gv_owner ?g = owner v" "\<not> gv_is_claimed ?g"
    using assms(7) by (simp_all add: seen_vault_def view_vault_def)
  have "\<exists>r \<in> fst ` set sent. rem_vault r = key \<and> rem_owner r = owner v \<and> rem_status r = StatusExpired"
    by (rule bexI [OF _ scan_announces [OF run dist assms(9) g view(3) late]])
       (use assms(10) view in \<open>simp_all add: make_reminder_def seen_vault_def\<close>)
  then show ?thesis
    using run fetched memory.owned_are_listed [OF dist _ g] view(1) by (auto simp: list_all_iff)
qed

theorem expired_owner_is_told_witness:
  "\<exists>sent m' t'. scan (\<lambda>vs m. Inr (memory_replace vs m)) (\<lambda>_. True)
      (fetch_vaults [(1564, 3860560, vault_image (sample_vault 7 None False False 0))])
      (time_unix 1800000060) new_memory (new_tracker [30000000000]) = Inr (sent, m', t') \<and>
    (\<exists>r \<in> fst ` set sent. rem_vault r = 1564 \<and> rem_owner r = 1 \<and> rem_status r = StatusExpired) \<and>
    memory_get m' 1564 = Some (polled_vault\<lparr>gv_lamports := 3860560\<rparr>)"
proof -
  have late: "unix_timestamp sol_late = 1800000060" "lamports (accounts sol_late 1564) = 3860560"
    by (simp_all add: sol_late_def sol_funded_def)
  have "true_answer (accounts sol_late) [(1564, 3860560, vault_image (sample_vault 7 None False False 0))]"
    using sol_vaults(3) late(2) by (simp add: true_answer_def)
  then show ?thesis
    using expired_owner_is_told [OF sample_laws sample_find_law sol_reachable(3), of
        "[(1564, 3860560, vault_image (sample_vault 7 None False False 0))]" 1564 "sample_vault 7 None False False 0"
        "new_tracker [30000000000]" "\<lambda>_. True" new_memory] sol_vaults(3) late
    by (simp add: is_expired_def deadline_def checked_add_i64_def new_tracker_def fired_at_def polled_vault_def
        seen_vault_def)
qed

text \<open>
  The other side of it: a reminder that was not delivered is not repeated. And the fetch is all or
  nothing: an account that cannot be decoded hides all others.
\<close>

theorem lost_reminder_stays_lost:
  assumes "\<not> gv_is_claimed v" "go_deadline v \<le> now" "go_deadline v \<le> now'"
  shows "fst (remind notify' now' [v] (snd (remind (\<lambda>_. False) now [v] t))) = []"
proof -
  let ?t' = "snd (tracker_due t v now)"
  have late: "go_time_left v now \<le> 0" "go_time_left v now' \<le> 0"
    using assms(2,3) by (simp_all add: go_time_left_def)
  have "expired \<in> fired_at ?t' (gv_address v) (go_deadline v)"
    using assms(1) late(1) by (simp add: fired_at_due Let_def)
  then have "fst (tracker_due ?t' v now') = None"
    using assms(1) late(2) by (simp add: tracker_due_eq Let_def)
  moreover have "snd (remind (\<lambda>_. False) now [v] t) = ?t'"
    by (simp add: split_beta split: option.split)
  ultimately show ?thesis by (simp add: split_beta)
qed

theorem one_bad_account_hides_all:
  assumes "decode_vault addr bytes = Inl e"
  shows "fetch_vaults (before @ (addr, balance, bytes) # after) \<noteq> Inr gs"
  using assms by (auto simp: fetch_vaults_Inr list_all2_append1 list_all2_Cons1)

section \<open>The blink server\<close>

lemma stored_vault_ok:
  "runtime_laws rt \<Longrightarrow> find_program_address_law rt \<Longrightarrow> reachable rt s \<Longrightarrow> vault_at (accounts s) key = Some v \<Longrightarrow>
     vault_ok rt key (accounts s key) v \<and> vault_inv v"
  using reachable_ok [of rt s] by (auto simp: vault_at_Some vault_ok_def dest: ledger_okD)

lemma offered_route:
  "route rt (go_claim_sol (program_id rt) account key) = Some ([account], ClaimSol account key)"
  "route rt (go_check_in (program_id rt) account key) = Some ([account], CheckIn account key)"
  by (simp_all add: route_def Let_def go_instruction_defs client_defs slots_defs signer_keys_def writable_keys_def)

lemma post_claim_offer:
  "post_claim pid account (view_vault key v) now = Inr tx \<Longrightarrow> tx = go_claim_sol pid account key"
  by (auto simp: post_claim_def Let_def view_vault_def split: if_splits)

text \<open>
  C38: for a SOL vault the blink server offers a claim exactly when the program would authorise it. For a
  vault of a reachable chain, read within the second of the chain's clock, a wallet is offered a
  transaction, which the program reads as its claim, if and only if the program
  does not refuse that claim as too early, not an heir's, or already made.
\<close>

theorem blink_claim_matches_program:
  assumes "runtime_laws rt" "find_program_address_law rt" "reachable rt s"
    and "vault_at (accounts s) key = Some v" "is_sol v" "decode_vault key (vault_image v) = Inr g"
    and "time_unix (unix_timestamp s) \<le> now" "now < time_unix (unix_timestamp s) + 1000000000"
  shows "(\<exists>tx. post_claim (program_id rt) account g now = Inr tx \<and>
            route rt tx = Some ([account], ClaimSol account key)) \<longleftrightarrow>
    dispatch rt [account] (ClaimSol account key) s \<notin> Inl ` claim_refusals"
proof -
  note ok = stored_vault_ok [OF assms(1-4)]
  have g: "g = view_vault key v" using decode_vault_image [of v key] ok assms(6) by simp
  show ?thesis
    using claim_sol_refused [of rt key s v account] ok assms(4,5) offered_route(1) [of rt account key]
      post_claim_authorize [of v "unix_timestamp s" now "program_id rt" account key] assms(7,8)
      post_claim_offer [of "program_id rt" account key v now]
    unfolding g by auto
qed

lemma polled_vault_image: "decode_vault 1564 (vault_image (sample_vault 7 None False False 0)) = Inr polled_vault"
  unfolding polled_vault_def by (rule decode_vault_image [OF sample_inv]) simp

theorem blink_claim_matches_program_witness:
  "\<exists>tx. post_claim 9 2 polled_vault (time_unix 1800000060) = Inr tx \<and>
     route sample_rt tx = Some ([2], ClaimSol 2 1564)"
proof -
  have "unix_timestamp sol_late = 1800000060" "is_sol (sample_vault 7 None False False 0)"
    by (simp_all add: sol_late_def is_sol_def)
  then show ?thesis
    using blink_claim_matches_program [OF sample_laws sample_find_law sol_reachable(3) sol_vaults(3) _
        polled_vault_image, of "time_unix 1800000060" 2] sol_claim_2_step by auto
qed

text \<open>
  The blink server offers a check-in exactly when it will go through: on a vault of a reachable
  chain, as long as the new deadline fits the clock, a wallet is offered a transaction, which the program
  reads as its check-in, if and only if that check-in succeeds.
\<close>

theorem blink_check_in_matches_program:
  assumes "runtime_laws rt" "find_program_address_law rt" "reachable rt s"
    and "vault_at (accounts s) key = Some v" "decode_vault key (vault_image v) = Inr g"
    and "sint (unix_timestamp s) + sint (timeout_seconds v) < 2 ^ 63"
  shows "(\<exists>tx. post_check_in (program_id rt) account g = Inr tx \<and>
            route rt tx = Some ([account], CheckIn account key)) \<longleftrightarrow>
    (\<exists>s'. dispatch rt [account] (CheckIn account key) s = Inr s')"
proof -
  note ok = stored_vault_ok [OF assms(1-4)]
  have g: "g = view_vault key v" using decode_vault_image [of v key] ok assms(5) by simp
  have "(\<exists>s'. check_in rt [account] account key s = Inr s') \<longleftrightarrow> owner v = account \<and> \<not> is_claimed v"
    using ok assms(4,6)
    by (auto simp: check_in_Inr accounts_check_in_Inr load_vault_Inr vault_ok_def vault_at_Some handle_check_in_Inr)
  then show ?thesis
    using offered_route(2) [of rt account key] by (auto simp: post_check_in_def g view_vault_def)
qed

theorem blink_check_in_matches_program_witness:
  "\<exists>s'. dispatch sample_rt [1] (CheckIn 1 1564) sol_late = Inr s'"
proof -
  have "post_check_in 9 1 polled_vault = Inr (go_check_in 9 1 1564)"
    by (simp add: post_check_in_def polled_vault_def view_vault_def)
  moreover have "unix_timestamp sol_late = 1800000060" by (simp add: sol_late_def)
  ultimately show ?thesis
    using blink_check_in_matches_program [OF sample_laws sample_find_law sol_reachable(3) sol_vaults(3)
        polled_vault_image, of 1] offered_route(2) [of sample_rt 1 1564] by auto
qed

text \<open>
  C39: on an SPL vault the blink server offers what the program must refuse. Its claim action builds the
  instruction for SOL vaults whatever the vault holds, so an heir whose claim is due is
  handed a transaction that reaches the program as \<open>claim_sol\<close> and always fails with \<open>NotSolVault\<close>.
\<close>

theorem blink_offers_doomed_claim:
  assumes "runtime_laws rt" "find_program_address_law rt" "reachable rt s"
    and "vault_at (accounts s) key = Some v" "mint v = Some m" "decode_vault key (vault_image v) = Inr g"
    and "authorize_claim v account (unix_timestamp s) avail = Inr p"
  shows "\<exists>tx. post_claim (program_id rt) account g (time_unix (unix_timestamp s)) = Inr tx \<and>
    route rt tx = Some ([account], ClaimSol account key) \<and>
    dispatch rt [account] (ClaimSol account key) s = Inl (Dms NotSolVault)"
proof -
  note ok = stored_vault_ok [OF assms(1-4)]
  have g: "g = view_vault key v" using decode_vault_image [of v key] ok assms(6) by simp
  have "load_vault rt (accounts s) key = Inr v"
    using ok assms(4) by (simp add: load_vault_Inr vault_ok_def vault_at_Some)
  then have "claim_sol rt [account] account key s = Inl (Dms NotSolVault)"
    using assms(5) by (simp add: claim_sol_def accounts_claim_sol_def load_signer_def is_sol_def)
  moreover obtain tx where "post_claim (program_id rt) account g (time_unix (unix_timestamp s)) = Inr tx"
    using post_claim_authorize [of v "unix_timestamp s" "time_unix (unix_timestamp s)" "program_id rt" account key avail]
      ok assms(7) unfolding g by auto
  ultimately show ?thesis
    using post_claim_offer [of "program_id rt" account key v] offered_route(1) [of rt account key] unfolding g by auto
qed

theorem blink_offers_doomed_claim_witness:
  "\<exists>tx. post_claim 9 2 (view_vault 1565 (sample_vault 8 (Some 50) False False 0)) (time_unix 1800000060) = Inr tx \<and>
     route sample_rt tx = Some ([2], ClaimSol 2 1565) \<and>
     dispatch sample_rt [2] (ClaimSol 2 1565) spl_late = Inl (Dms NotSolVault)"
proof -
  let ?v = "sample_vault 8 (Some 50) False False 0"
  obtain p where "authorize_claim ?v 2 1800000060 1000 = Inr p"
    using sample_spl_claim_2 [of 8 "Some 50"] by (auto simp: book_claim_def and_then_eq_Inr)
  moreover have "unix_timestamp spl_late = 1800000060" "decode_vault 1565 (vault_image ?v) = Inr (view_vault 1565 ?v)"
    using decode_vault_image [OF sample_inv [of False False 0]] by (simp_all add: spl_late_def)
  ultimately show ?thesis
    using blink_offers_doomed_claim [OF sample_laws sample_find_law spl_reachable(3) spl_vaults(3), of 50
        "view_vault 1565 ?v" 2 1000 p] by simp
qed

end
