(* ===== verification/Will.thy ===== *)
theory Will
  imports Estate
begin

text \<open>
  The abstract specification of a whole vault: a will, over numbers and without Solana. Its
  testator funds it, takes back, renews it and rewrites its bequests until somebody inherits;
  from the due time on its heirs inherit by the rules of \<open>Estate\<close>; an empty will can be
  torn up; and anybody may add to it at any time. \<open>will_history\<close> is a legal history of a
  living will, latest event first; what every history promises is proved here, once.
\<close>

section \<open>The machine\<close>

record will =
  testator :: pubkey
  bequests :: estate
  due_at :: int
  patience :: int

datatype will_event =
    Opening nat
  | Gift nat
  | Deposit nat
  | Withdrawal nat
  | Renewal
  | Amendment
  | Inheritance pubkey nat
  | Closure

definition fair_shares :: "(pubkey \<times> nat) list \<Rightarrow> bool" where
  "fair_shares hs \<longleftrightarrow> hs \<noteq> [] \<and> length hs \<le> 5 \<and> distinct (map fst hs) \<and>
     list_all (\<lambda>(k, share). k \<noteq> 0 \<and> 0 < share) hs \<and> sum_list (map snd hs) = 10000"

text \<open>Somebody has inherited: the pool is fixed.\<close>

abbreviation settled :: "will \<Rightarrow> bool" where
  "settled w \<equiv> pool (bequests w) \<noteq> None"

inductive will_step :: "pubkey list \<Rightarrow> int \<Rightarrow> will option \<Rightarrow> will_event \<Rightarrow> will option \<Rightarrow> bool"
  for signers now where
  founding: "own \<in> set signers \<Longrightarrow> fair_shares hs \<Longrightarrow> 60 \<le> t \<Longrightarrow> t \<le> 315360000 \<Longrightarrow>
     will_step signers now None (Opening n)
       (Some \<lparr>testator = own, bequests = \<lparr>heirs_left = hs, pool = None, funds = n\<rparr>,
              due_at = now + t, patience = t\<rparr>)"
| gift: "will_step signers now (Some w) (Gift n)
       (Some (w\<lparr>bequests := (bequests w)\<lparr>funds := funds (bequests w) + n\<rparr>\<rparr>))"
| deposit: "testator w \<in> set signers \<Longrightarrow> \<not> settled w \<Longrightarrow> 0 < n \<Longrightarrow>
     will_step signers now (Some w) (Deposit n)
       (Some (w\<lparr>bequests := (bequests w)\<lparr>funds := funds (bequests w) + n\<rparr>\<rparr>))"
| withdrawal: "testator w \<in> set signers \<Longrightarrow> \<not> settled w \<Longrightarrow> 0 < n \<Longrightarrow> n \<le> funds (bequests w) \<Longrightarrow>
     will_step signers now (Some w) (Withdrawal n)
       (Some (w\<lparr>bequests := (bequests w)\<lparr>funds := funds (bequests w) - n\<rparr>\<rparr>))"
| renewal: "testator w \<in> set signers \<Longrightarrow> \<not> settled w \<Longrightarrow>
     will_step signers now (Some w) Renewal (Some (w\<lparr>due_at := now + patience w\<rparr>))"
| amendment: "testator w \<in> set signers \<Longrightarrow> \<not> settled w \<Longrightarrow> fair_shares hs \<Longrightarrow>
     will_step signers now (Some w) Amendment
       (Some (w\<lparr>bequests := (bequests w)\<lparr>heirs_left := hs\<rparr>\<rparr>))"
| inheritance: "k \<in> set signers \<Longrightarrow> due_at w \<le> now \<Longrightarrow> estate_claim k (bequests w) = Some (n, e) \<Longrightarrow>
     will_step signers now (Some w) (Inheritance k n) (Some (w\<lparr>bequests := e\<rparr>))"
| closure: "testator w \<in> set signers \<Longrightarrow> funds (bequests w) = 0 \<Longrightarrow>
     will_step signers now (Some w) Closure None"

inductive_cases will_openedE: "will_step signers now None ev (Some w)"
inductive_cases will_stepE: "will_step signers now (Some w) ev (Some w')"

section \<open>Histories\<close>

fun inflow :: "will_event \<Rightarrow> nat" where
  "inflow (Opening n) = n"
| "inflow (Gift n) = n"
| "inflow (Deposit n) = n"
| "inflow _ = 0"

fun outflow :: "will_event \<Rightarrow> nat" where
  "outflow (Withdrawal n) = n"
| "outflow (Inheritance k n) = n"
| "outflow _ = 0"

fun inheritor :: "will_event \<Rightarrow> pubkey option" where
  "inheritor (Inheritance k n) = Some k"
| "inheritor _ = None"

inductive will_history :: "(int \<times> will_event) list \<Rightarrow> will \<Rightarrow> bool" where
  opened: "will_step signers now None ev (Some w) \<Longrightarrow> will_history [(now, ev)] w"
| lived: "will_history ((t, ev) # h) w \<Longrightarrow> t \<le> now \<Longrightarrow> will_step signers now (Some w) ev' (Some w') \<Longrightarrow>
     will_history ((now, ev') # (t, ev) # h) w'"

lemma will_history_Cons:
  assumes "will_history h w" "list_all (\<lambda>(t, ev). t \<le> now) h" "will_step signers now (Some w) ev (Some w')"
  shows "will_history ((now, ev) # h) w'"
proof -
  from assms(1) obtain t e h' where "h = (t, e) # h'" by (cases rule: will_history.cases) auto
  then show ?thesis using assms will_history.lived by simp
qed

definition inheritors :: "(int \<times> will_event) list \<Rightarrow> pubkey list" where
  "inheritors h = List.map_filter (inheritor \<circ> snd) h"

lemma inheritors_Cons [simp]:
  "inheritors [] = []"
  "inheritors ((t, ev) # h) = (case inheritor ev of None \<Rightarrow> inheritors h | Some k \<Rightarrow> k # inheritors h)"
  by (simp_all add: inheritors_def List.map_filter_simps split: option.split)

text \<open>The books balance: what is left is what came in less what went out.\<close>

lemma will_step_books:
  "will_step signers now (Some w) ev (Some w') \<Longrightarrow>
     funds (bequests w') + outflow ev = funds (bequests w) + inflow ev"
  by (erule will_stepE) (auto dest: estate_claim_Some)

lemma history_books:
  "will_history h w \<Longrightarrow>
     funds (bequests w) + sum_list (map (outflow \<circ> snd) h) = sum_list (map (inflow \<circ> snd) h)"
proof (induction rule: will_history.induct)
  case (opened signers now ev w)
  then show ?case by (auto elim: will_openedE)
next
  case (lived t ev h w now signers ev' w')
  then show ?case using will_step_books [OF lived(3)] by simp
qed

text \<open>Once somebody has inherited, only gifts and inheritances follow.\<close>

fun after_settling :: "will_event \<Rightarrow> bool" where
  "after_settling (Gift n) = True"
| "after_settling (Inheritance k n) = True"
| "after_settling _ = False"

lemma will_step_settled:
  assumes "will_step signers now (Some w) ev (Some w')"
  shows "settled w' \<longleftrightarrow> settled w \<or> inheritor ev \<noteq> None" and "settled w \<Longrightarrow> after_settling ev"
  using assms by (auto elim!: will_stepE simp: estate_claim_def Let_def split: option.splits if_splits)

lemma history_settled:
  "will_history h w \<Longrightarrow> settled w \<longleftrightarrow> inheritors h \<noteq> []"
proof (induction rule: will_history.induct)
  case (opened signers now ev w)
  then show ?case by (auto elim: will_openedE)
next
  case (lived t ev h w now signers ev' w')
  then show ?case using will_step_settled(1) [OF lived(3)] by (auto split: option.split)
qed

text \<open>
  Nobody inherits twice, and only an heir does. The heirs of a settled will are those who have
  inherited and those who are left, and they had fair shares.
\<close>

lemma will_step_heirs:
  assumes "will_step signers now (Some w) ev (Some w')"
  shows "inheritor ev = Some k \<Longrightarrow> k \<in> fst ` set (heirs_left (bequests w)) \<and>
      heirs_left (bequests w') = filter (\<lambda>h. fst h \<noteq> k) (heirs_left (bequests w))"
    and "settled w \<Longrightarrow> inheritor ev = None \<Longrightarrow> heirs_left (bequests w') = heirs_left (bequests w)"
  using assms by (auto elim!: will_stepE dest: estate_claim_Some)

lemma will_opened_heirs:
  "will_step signers now None ev (Some w) \<Longrightarrow> fair_shares (heirs_left (bequests w)) \<and> \<not> settled w"
  by (auto elim: will_openedE)

lemma will_step_shares:
  assumes "will_step signers now (Some w) ev (Some w')" "\<not> settled w'" "fair_shares (heirs_left (bequests w))"
  shows "fair_shares (heirs_left (bequests w'))"
  using assms by (auto elim!: will_stepE simp: estate_claim_def Let_def split: option.splits if_splits)

lemma history_heirs:
  "will_history h w \<Longrightarrow> distinct (inheritors h) \<and>
     (\<exists>hs. fair_shares hs \<and> set (inheritors h) \<subseteq> fst ` set hs \<and>
        heirs_left (bequests w) = filter (\<lambda>h'. fst h' \<notin> set (inheritors h)) hs)"
proof (induction rule: will_history.induct)
  case (opened signers now ev w)
  then have "inheritor ev = None" by (auto elim: will_openedE)
  then show ?case using will_opened_heirs [OF opened] by auto
next
  case (lived t ev h w now signers ev' w')
  let ?h = "(t, ev) # h"
  from lived.IH obtain hs where hs: "distinct (inheritors ?h)" "fair_shares hs"
    "set (inheritors ?h) \<subseteq> fst ` set hs"
    "heirs_left (bequests w) = filter (\<lambda>h'. fst h' \<notin> set (inheritors ?h)) hs" by auto
  note settled = history_settled [OF lived(1)] will_step_settled(1) [OF lived(3)]
  show ?case
  proof (cases "inheritor ev'")
    case (Some k)
    then have "k \<in> fst ` set hs" "k \<notin> set (inheritors ?h)"
        "heirs_left (bequests w') = filter (\<lambda>h'. fst h' \<noteq> k \<and> fst h' \<notin> set (inheritors ?h)) hs"
      using will_step_heirs(1) [OF lived(3)] hs(4) by (auto simp: conj_commute)
    then show ?thesis
      using hs Some by (auto simp del: inheritors_Cons simp: inheritors_Cons(2) [of now ev'] intro!: exI [of _ hs])
  next
    case None
    have ev': "inheritors ((now, ev') # ?h) = inheritors ?h" using None by (subst inheritors_Cons(2)) simp
    show ?thesis
    proof (cases "settled w")
      case True
      then show ?thesis using hs will_step_heirs(2) [OF lived(3) True None] unfolding ev' by auto
    next
      case False
      then have "inheritors ?h = []" "\<not> settled w'" using settled None by auto
      moreover from this(1) have "fair_shares (heirs_left (bequests w))" using hs by simp
      ultimately show ?thesis
        using will_step_shares [OF lived(3)] unfolding ev' by auto
    qed
  qed
qed

text \<open>A settled will owes its heirs no more than it has, and each of them gets at least their share.\<close>

definition sound_will :: "will \<Rightarrow> bool" where
  "sound_will w \<longleftrightarrow> estate_solvent (bequests w)"

lemma fair_solvent:
  assumes "fair_shares (heirs_left e)" "pool e = None"
  shows "estate_solvent e"
proof -
  have "sum_list (map (\<lambda>h. funds e * snd h div 10000) (heirs_left e)) \<le> funds e"
    using sum_list_div_le [of "funds e" snd 10000 "heirs_left e"] assms(1) by (simp add: fair_shares_def)
  then show ?thesis using assms by (simp add: estate_solvent_def fair_shares_def pool_value_def)
qed

lemma will_step_sound:
  assumes step: "will_step signers now (Some w) ev (Some w')" and sound: "sound_will w"
    and fair: "\<not> settled w \<Longrightarrow> fair_shares (heirs_left (bequests w))"
  shows "sound_will w'"
proof (cases "settled w'")
  case False
  then have "\<not> settled w" using will_step_settled(1) [OF step] by simp
  then show ?thesis
    using will_step_shares [OF step False] fair False by (auto simp: sound_will_def intro: fair_solvent)
next
  case True
  then show ?thesis
    using step sound by (auto elim!: will_stepE dest: estate_claim_step(1)
        simp: sound_will_def estate_solvent_def pool_value_def split: option.splits)
qed

lemma history_sound: "will_history h w \<Longrightarrow> sound_will w"
proof (induction rule: will_history.induct)
  case (opened signers now ev w)
  then show ?case using will_opened_heirs [OF opened] by (auto simp: sound_will_def intro: fair_solvent)
next
  case (lived t ev h w now signers ev' w')
  have "fair_shares (heirs_left (bequests w))" if "\<not> settled w"
    using that history_settled [OF lived(1)] history_heirs [OF lived(1)] by auto
  then show ?case using will_step_sound [OF lived(3) lived.IH] by blast
qed

text \<open>
  What has been inherited: each heir who inherited did so after the due time and got at least
  their share of the pool.
\<close>

definition fulfilled :: "(int \<times> will_event) list \<Rightarrow> will \<Rightarrow> bool" where
  "fulfilled h w \<longleftrightarrow> distinct (inheritors h) \<and>
     (\<exists>hs. fair_shares hs \<and>
        heirs_left (bequests w) = filter (\<lambda>h'. fst h' \<notin> set (inheritors h)) hs \<and>
        (\<forall>(t, ev) \<in> set h. \<forall>k n. ev = Inheritance k n \<longrightarrow> due_at w \<le> t \<and>
           (\<exists>share. (k, share) \<in> set hs \<and> pool_value (bequests w) * share div 10000 \<le> n)))"

lemma will_step_pool:
  assumes "will_step signers now (Some w) ev (Some w')" "settled w"
  shows "due_at w' = due_at w" "pool_value (bequests w') = pool_value (bequests w)"
  using assms by (auto elim!: will_stepE simp: estate_claim_def Let_def pool_value_def split: option.splits if_splits)

lemma will_step_inheritance:
  assumes "will_step signers now (Some w) (Inheritance k n) (Some w')" "sound_will w"
  shows "due_at w' = due_at w" "due_at w \<le> now" "pool_value (bequests w') = pool_value (bequests w)"
    and "\<exists>share. (k, share) \<in> set (heirs_left (bequests w)) \<and> pool_value (bequests w) * share div 10000 \<le> n"
    and "k \<in> fst ` set (heirs_left (bequests w))"
    and "heirs_left (bequests w') = filter (\<lambda>h. fst h \<noteq> k) (heirs_left (bequests w))"
proof -
  from assms(1) obtain e where e: "estate_claim k (bequests w) = Some (n, e)" "w' = w\<lparr>bequests := e\<rparr>"
    and late: "due_at w \<le> now" by (auto elim: will_stepE)
  note step = estate_claim_step [OF e(1) assms(2) [unfolded sound_will_def]]
  from e(1) obtain share where share: "map_of (heirs_left (bequests w)) k = Some share"
    by (auto simp: estate_claim_def split: option.splits)
  then have "share_due (bequests w) k = pool_value (bequests w) * share div 10000"
    by (simp add: share_due_def)
  then show "\<exists>share. (k, share) \<in> set (heirs_left (bequests w)) \<and> pool_value (bequests w) * share div 10000 \<le> n"
    using step(2) map_of_SomeD [OF share] by auto
  show "due_at w' = due_at w" "due_at w \<le> now" "pool_value (bequests w') = pool_value (bequests w)"
    using e late step(3) by simp_all
  show "k \<in> fst ` set (heirs_left (bequests w))"
    "heirs_left (bequests w') = filter (\<lambda>h. fst h \<noteq> k) (heirs_left (bequests w))"
    using estate_claim_Some [OF e(1)] e(2) by simp_all
qed

lemma no_inheritance:
  "inheritors h = [] \<Longrightarrow> (t, Inheritance k n) \<notin> set h"
  by (induction h) (force split: option.splits)+

lemma history_fulfilled: "will_history h w \<Longrightarrow> fulfilled h w"
proof (induction rule: will_history.induct)
  case (opened signers now ev w)
  then have "inheritor ev = None" by (auto elim: will_openedE)
  then show ?case using will_opened_heirs [OF opened] by (auto simp: fulfilled_def)
next
  case (lived t ev h w now signers ev' w')
  let ?h = "(t, ev) # h"
  have "will_history ((now, ev') # ?h) w'" by (rule will_history.lived [OF lived(1-3)])
  note settled = history_settled [OF lived(1)] history_settled [OF this]
  show ?case
  proof (cases "settled w'")
    case False
    then have "inheritors ((now, ev') # ?h) = []" using settled by simp
    moreover from this have "fair_shares (heirs_left (bequests w'))"
      using history_heirs [OF will_history.lived [OF lived(1-3)]] by auto
    ultimately show ?thesis
      using no_inheritance [of "(now, ev') # ?h"] unfolding fulfilled_def
      by (intro conjI exI [of _ "heirs_left (bequests w')"]) (auto simp del: inheritors_Cons(2))
  next
    case True
    from lived.IH obtain hs where hs: "distinct (inheritors ?h)" "fair_shares hs"
      "heirs_left (bequests w) = filter (\<lambda>h'. fst h' \<notin> set (inheritors ?h)) hs"
      and paid: "\<And>t k n. (t, Inheritance k n) \<in> set ?h \<Longrightarrow> due_at w \<le> t \<and>
        (\<exists>share. (k, share) \<in> set hs \<and> pool_value (bequests w) * share div 10000 \<le> n)"
      unfolding fulfilled_def by blast
    show ?thesis
    proof (cases "inheritor ev'")
      case None
      then have set': "inheritors ((now, ev') # ?h) = inheritors ?h" by (subst inheritors_Cons(2)) simp
      then have "settled w" using True settled by simp
      note same = will_step_pool [OF lived(3) this] will_step_heirs(2) [OF lived(3) this None]
      have "(t, Inheritance k n) \<in> set ?h" if "(t, Inheritance k n) \<in> set ((now, ev') # ?h)" for t k n
        using that None by auto
      then have "\<forall>(t, ev) \<in> set ((now, ev') # ?h). \<forall>k n. ev = Inheritance k n \<longrightarrow> due_at w' \<le> t \<and>
           (\<exists>share. (k, share) \<in> set hs \<and> pool_value (bequests w') * share div 10000 \<le> n)"
        unfolding same using paid by blast
      then show ?thesis unfolding fulfilled_def set' same using hs by blast
    next
      case (Some k)
      then obtain n where ev': "ev' = Inheritance k n" by (cases ev') auto
      note step = will_step_inheritance [OF lived(3) [unfolded ev'] history_sound [OF lived(1)]]
      have set': "inheritors ((now, ev') # ?h) = k # inheritors ?h" using Some by (subst inheritors_Cons(2)) simp
      have "\<exists>share. (k, share) \<in> set hs \<and> pool_value (bequests w) * share div 10000 \<le> n"
        using step(4) hs(3) by auto
      then have "\<forall>(t, ev) \<in> set ((now, ev') # ?h). \<forall>k n. ev = Inheritance k n \<longrightarrow> due_at w' \<le> t \<and>
           (\<exists>share. (k, share) \<in> set hs \<and> pool_value (bequests w') * share div 10000 \<le> n)"
        unfolding step(1,3) using paid step(2) ev' by auto
      moreover have "k \<notin> set (inheritors ?h)" using step(5) hs(3) by auto
      moreover have "heirs_left (bequests w') = filter (\<lambda>h'. fst h' \<notin> set (k # inheritors ?h)) hs"
        using step(6) hs(3) by (auto intro: filter_cong)
      ultimately show ?thesis unfolding fulfilled_def set' using hs(1,2) by auto
    qed
  qed
qed

end
