(* ===== verification/Will_Refinement.thy ===== *)
theory Will_Refinement
  imports Custody Will
begin

text \<open>
  The program refines the will of \<open>Will\<close>. \<open>sol_will\<close> reads a native SOL vault as a will: its funds
  are the lamports above the reserve. Every instruction of the program, with any accounts
  and signers, is a step of every will of the chain: of the one it names the step it stands for,
  of the others a gift or nothing.
\<close>

section \<open>Reading a vault as a will\<close>

definition will_of :: "vault \<Rightarrow> u64 \<Rightarrow> will" where
  "will_of v available = \<lparr>testator = owner v, bequests = estate_of v available,
     due_at = sint (last_checkin v) + sint (timeout_seconds v), patience = sint (timeout_seconds v)\<rparr>"

definition sol_will :: "runtime \<Rightarrow> ledger \<Rightarrow> pubkey \<Rightarrow> will option" where
  "sol_will rt A key = (case vault_at A key of
     None \<Rightarrow> None
   | Some v \<Rightarrow> if is_sol v then Some (will_of v (withdrawable_lamports rt (A key))) else None)"

lemma sol_will_Some:
  "sol_will rt A key = Some w \<longleftrightarrow>
     (\<exists>v. vault_at A key = Some v \<and> is_sol v \<and> w = will_of v (withdrawable_lamports rt (A key)))"
  by (auto simp: sol_will_def split: option.splits)

lemma will_of_fields [simp]:
  "testator (will_of v a) = owner v" "bequests (will_of v a) = estate_of v a"
  "due_at (will_of v a) = sint (last_checkin v) + sint (timeout_seconds v)"
  "patience (will_of v a) = sint (timeout_seconds v)"
  by (simp_all add: will_of_def)

lemma estate_of_fields [simp]:
  "heirs_left (estate_of v a) = map (\<lambda>b. (address b, unat (share_bps b))) (unpaid v)"
  "pool (estate_of v a) = (if is_claimed v then Some (unat (claim_pool v)) else None)"
  "funds (estate_of v a) = unat a"
  by (simp_all add: estate_of_def)

lemma settled_will_of: "settled (will_of v a) \<longleftrightarrow> is_claimed v"
  by simp

lemma will_of_funds:
  "unat b = n \<Longrightarrow> will_of v b = (will_of v a)\<lparr>bequests := (bequests (will_of v a))\<lparr>funds := n\<rparr>\<rparr>"
  by (simp add: will_of_def estate_of_def)

lemma fair_table:
  assumes "valid_table bs"
  shows "fair_shares (map (\<lambda>b. (address b, unat (share_bps b))) bs)"
  using assms
  by (auto simp: fair_shares_def valid_table_def MAX_BENEFICIARIES_def comp_def shares_total_def list_all_iff
      word_less_nat_alt)

section \<open>Each operation is a step\<close>

text \<open>
  The will at an address moves on by an event \<open>f n\<close>, where \<open>n\<close> is an amount the instruction does
  not name; or there is no will there, before and after.
\<close>

definition will_moves ::
    "runtime \<Rightarrow> pubkey list \<Rightarrow> int \<Rightarrow> (nat \<Rightarrow> will_event) \<Rightarrow> ledger \<Rightarrow> ledger \<Rightarrow> pubkey \<Rightarrow> bool" where
  "will_moves rt signers now f A A' key \<longleftrightarrow>
     sol_will rt A key = None \<and> sol_will rt A' key = None \<or>
     (\<exists>n. will_step signers now (sol_will rt A key) (f n) (sol_will rt A' key))"

lemma no_will_moves:
  "sol_will rt A key = None \<Longrightarrow> sol_will rt A' key = None \<Longrightarrow> will_moves rt signers now f A A' key"
  by (simp add: will_moves_def)

lemma will_movesI:
  "will_step signers now (sol_will rt A key) (f n) (sol_will rt A' key) \<Longrightarrow> will_moves rt signers now f A A' key"
  unfolding will_moves_def by blast

text \<open>An account that is kept: somebody may have added lamports.\<close>

lemma kept_will:
  assumes "kept_at A A' key"
  shows "will_moves rt signers now Gift A A' key"
proof (cases "sol_will rt A key")
  case None
  then have "sol_will rt A' key = None"
    using assms by (auto simp: sol_will_def kept_at_def split: option.splits if_splits)
  then show ?thesis using None by (rule no_will_moves [rotated])
next
  case (Some w)
  then obtain v where v: "vault_at A key = Some v" "is_sol v" "w = will_of v (withdrawable_lamports rt (A key))"
    by (auto simp: sol_will_Some)
  let ?a = "withdrawable_lamports rt (A key)" and ?b = "withdrawable_lamports rt (A' key)"
  have "unat ?a \<le> unat ?b" and v': "vault_at A' key = Some v"
    using assms v(1) by (auto simp: kept_at_def intro: withdrawable_mono)
  then have "unat ?b = funds (bequests (will_of v ?a)) + (unat ?b - unat ?a)" by simp
  from will_of_funds [OF this] have "sol_will rt A' key =
      Some (w\<lparr>bequests := (bequests w)\<lparr>funds := funds (bequests w) + (unat ?b - unat ?a)\<rparr>\<rparr>)"
    using v v' by (simp add: sol_will_def)
  then have "will_step signers now (sol_will rt A key) (Gift (unat ?b - unat ?a)) (sol_will rt A' key)"
    unfolding Some by (simp only: will_step.gift)
  then show ?thesis by (rule will_movesI)
qed

lemma not_sol_will:
  "\<not> is_sol v \<Longrightarrow> vault_at A key = Some v \<Longrightarrow> sol_will rt A key = None"
  by (simp add: sol_will_def)

lemma sol_will_store:
  "sol_will rt (store_vault key v A) key =
     (if is_sol v then Some (will_of v (withdrawable_lamports rt (A key))) else None)"
  by (simp add: sol_will_def vault_at_def store_vault_def)

lemma initialized_will:
  assumes h: "handle_initialize_vault own mnt bmp ident tmo inputs now = Inr v" and own: "own \<in> set signers"
  shows "will_step signers (sint now) None (Opening (unat a)) (Some (will_of v a))"
proof -
  note v = h [unfolded handle_initialize_vault_Inr] and inv = handle_initialize_vault_inv [OF h]
  have "unpaid v = table_of inputs" using inv by (simp add: unpaid_def)
  moreover have "owner v = own" "last_checkin v = now" "timeout_seconds v = tmo" using v by simp_all
  ultimately have "will_of v a = \<lparr>testator = own,
      bequests = \<lparr>heirs_left = map (\<lambda>b. (address b, unat (share_bps b))) (table_of inputs),
        pool = None, funds = unat a\<rparr>, due_at = sint now + sint tmo, patience = sint tmo\<rparr>"
    using inv(2) by (simp add: will_of_def estate_of_def)
  then show ?thesis
    using v will_step.founding [OF own fair_table, of "table_of inputs" "sint tmo"] by simp
qed

lemma initialize_will:
  assumes law: "init_account_law rt"
    and run: "initialize_vault rt signers own key mnt ident tmo inputs s = Inr s'"
  shows "will_moves rt signers (sint (unix_timestamp s)) Opening (accounts s) (accounts s') key"
proof -
  from run obtain bmp A v where own: "own \<in> set signers"
    and init: "init_account rt own key (8 + vault_init_space) (accounts s) = Inr A"
    and h: "handle_initialize_vault own mnt bmp ident tmo inputs (unix_timestamp s) = Inr v"
    and s': "s' = s\<lparr>accounts := store_vault key v A\<rparr>"
    by (auto simp: initialize_vault_Inr accounts_initialize_vault_Inr)
  have none: "sol_will rt (accounts s) key = None"
    using init_account_tokens(2) [OF law init] by (simp add: sol_will_def)
  then show ?thesis
    using initialized_will [OF h own] by (cases "is_sol v") (auto simp: s' sol_will_store will_moves_def)
qed

lemma deposit_will:
  assumes law: "system_transfer_law rt" and signers: "wallets signers (accounts s)"
    and run: "deposit_sol rt signers own key amount s = Inr s'"
    and ok: "ledger_ok rt (accounts s)"
  shows "will_moves rt signers now (\<lambda>_. Deposit (unat amount)) (accounts s) (accounts s') key"
proof -
  let ?A = "accounts s"
  from run obtain v A where own: "own \<in> set signers" "owner v = own" and v: "vault_at ?A key = Some v" "is_sol v" "\<not> is_claimed v"
    and amt: "0 < amount" and tr: "system_transfer rt own key amount ?A = Inr A" and s': "s' = s\<lparr>accounts := A\<rparr>"
    by (auto simp: deposit_sol_Inr accounts_deposit_sol_Inr load_vault_Inr vault_at_Some)
  have "own \<noteq> key" using own(1) v(1) signers by (auto simp: wallets_def list_all_iff)
  then have A: "A key = (?A key)\<lparr>lamports := lamports (?A key) + amount\<rparr>"
      "unat (lamports (?A key)) + unat amount < 2 ^ 64"
    using law tr unfolding system_transfer_law_def by (auto dest!: spec)
  have "vault_ok rt key (?A key) v" using ok v(1) by (auto simp: vault_at_Some dest: ledger_okD)
  then have "unat (minimum_balance rt (data_len (?A key))) \<le> unat (lamports (?A key))"
    by (simp add: vault_ok_def)
  moreover have "unat (lamports (?A key) + amount) = unat (lamports (?A key)) + unat amount"
    using A(2) by (simp add: unat_word_ariths)
  ultimately have "unat (withdrawable_lamports rt (A key)) =
      funds (bequests (will_of v (withdrawable_lamports rt (?A key)))) + unat amount"
    by (simp add: A(1) unat_withdrawable)
  from will_of_funds [OF this] have w: "sol_will rt A key = Some (will_of v (withdrawable_lamports rt (?A key))
      \<lparr>bequests := (bequests (will_of v (withdrawable_lamports rt (?A key))))
         \<lparr>funds := funds (bequests (will_of v (withdrawable_lamports rt (?A key)))) + unat amount\<rparr>\<rparr>)"
    using v A(1) by (simp add: sol_will_def vault_at_def)
  have "sol_will rt ?A key = Some (will_of v (withdrawable_lamports rt (?A key)))"
    using v by (simp add: sol_will_def)
  then show ?thesis
    unfolding will_moves_def
    using will_step.deposit [of "will_of v (withdrawable_lamports rt (?A key))" signers "unat amount" now]
      own v(3) amt w by (auto simp: s' word_less_nat_alt)
qed

lemma withdraw_will:
  assumes signers: "wallets signers (accounts s)"
    and run: "withdraw_sol rt signers own key amount s = Inr s'"
  shows "will_moves rt signers now (\<lambda>_. Withdrawal (unat amount)) (accounts s) (accounts s') key"
proof -
  let ?A = "accounts s" and ?a = "withdrawable_lamports rt (accounts s key)"
  from run obtain v A where own: "own \<in> set signers" "owner v = own" and v: "vault_at ?A key = Some v" "is_sol v" "\<not> is_claimed v"
    and amt: "0 < amount" "amount \<le> ?a" and mv: "move_lamports key own amount ?A = Inr A"
    and s': "s' = s\<lparr>accounts := A\<rparr>"
    by (auto simp: withdraw_sol_Inr accounts_withdraw_sol_Inr load_vault_Inr vault_at_Some)
  have "own \<noteq> key" using own(1) v(1) signers by (auto simp: wallets_def list_all_iff)
  then have A: "A key = (?A key)\<lparr>lamports := lamports (?A key) - amount\<rparr>"
    using mv by (auto simp: move_lamports_Inr)
  have "unat (withdrawable_lamports rt (A key)) = funds (bequests (will_of v ?a)) - unat amount"
    using withdrawable_debit [OF amt(2)] amt(2) by (simp add: A unat_sub word_le_nat_alt)
  from will_of_funds [OF this] have "sol_will rt A key = Some (will_of v ?a
      \<lparr>bequests := (bequests (will_of v ?a))\<lparr>funds := funds (bequests (will_of v ?a)) - unat amount\<rparr>\<rparr>)"
    using v A by (simp add: sol_will_def vault_at_def)
  moreover have "sol_will rt ?A key = Some (will_of v ?a)" using v by (simp add: sol_will_def)
  ultimately show ?thesis
    unfolding will_moves_def
    using will_step.withdrawal [of "will_of v ?a" signers "unat amount" now] own v(3) amt
    by (auto simp: s' word_less_nat_alt word_le_nat_alt)
qed

lemma renewed_will:
  assumes "vault_inv v" "owner v \<in> set signers" "\<not> is_claimed v" "handle_check_in v now = Inr v'"
  shows "will_step signers (sint now) (Some (will_of v a)) Renewal (Some (will_of v' a))"
proof -
  have "v' = v\<lparr>last_checkin := now\<rparr>" using assms by (simp add: handle_check_in_Inr)
  then have "will_of v' a = (will_of v a)\<lparr>due_at := sint now + patience (will_of v a)\<rparr>"
    by (simp add: will_of_def estate_of_def)
  then show ?thesis using will_step.renewal [of "will_of v a" signers "sint now"] assms(2,3) by simp
qed

lemma amended_will:
  assumes "owner v \<in> set signers" "\<not> is_claimed v" "handle_set_beneficiaries v inputs = Inr v'"
  shows "will_step signers now (Some (will_of v a)) Amendment (Some (will_of v' a))"
proof -
  note tbl = handle_set_beneficiaries_heirs(2) [OF assms(3)] and eq = assms(3) [unfolded handle_set_beneficiaries_Inr]
  have "will_of v' a = (will_of v a)\<lparr>bequests := (bequests (will_of v a))
      \<lparr>heirs_left := map (\<lambda>b. (address b, unat (share_bps b))) (table_of inputs)\<rparr>\<rparr>"
    unfolding will_of_def estate_of_def tbl using eq assms(2) by simp
  then show ?thesis
    using will_step.amendment [of "will_of v a" signers _ now, OF _ _ fair_table] assms(1,2) eq by simp
qed

text \<open>Storing such an update in place.\<close>

lemma store_will:
  assumes "vault_at A key = Some v" "mint v' = mint v"
    and "\<And>a. will_step signers now (Some (will_of v a)) ev (Some (will_of v' a))"
  shows "will_moves rt signers now (\<lambda>_. ev) A (store_vault key v' A) key"
  using assms(1,2) assms(3) [of "withdrawable_lamports rt (A key)"]
  by (cases "is_sol v") (auto simp: will_moves_def sol_will_store sol_will_def [of _ A] is_sol_def)

lemma check_in_updates:
  assumes ok: "ledger_ok rt (accounts s)" and run: "check_in rt signers own key s = Inr s'"
  obtains v v' where "vault_at (accounts s) key = Some v" "mint v' = mint v"
    "s' = s\<lparr>accounts := store_vault key v' (accounts s)\<rparr>"
    "\<And>a. will_step signers (sint (unix_timestamp s)) (Some (will_of v a)) Renewal (Some (will_of v' a))"
proof -
  from run obtain v v' where v: "vault_at (accounts s) key = Some v" "owner v \<in> set signers" "\<not> is_claimed v"
    and h: "handle_check_in v (unix_timestamp s) = Inr v'"
    and s': "s' = s\<lparr>accounts := store_vault key v' (accounts s)\<rparr>"
    by (auto simp: check_in_Inr accounts_check_in_Inr load_vault_Inr vault_at_Some)
  have inv: "vault_inv v" using ok v(1) by (auto simp: vault_at_Some vault_ok_def dest: ledger_okD)
  then have "mint v' = mint v" using h by (auto simp: handle_check_in_Inr)
  with that v(1) s' renewed_will [OF inv v(2,3) h] show thesis by blast
qed

lemma set_beneficiaries_updates:
  assumes run: "set_beneficiaries rt signers own key inputs s = Inr s'"
  obtains v v' where "vault_at (accounts s) key = Some v" "mint v' = mint v"
    "s' = s\<lparr>accounts := store_vault key v' (accounts s)\<rparr>"
    "\<And>now a. will_step signers now (Some (will_of v a)) Amendment (Some (will_of v' a))"
proof -
  from run obtain v v' where v: "vault_at (accounts s) key = Some v" "owner v \<in> set signers" "\<not> is_claimed v"
    and h: "handle_set_beneficiaries v inputs = Inr v'"
    and s': "s' = s\<lparr>accounts := store_vault key v' (accounts s)\<rparr>"
    by (auto simp: set_beneficiaries_Inr accounts_set_beneficiaries_Inr load_vault_Inr vault_at_Some)
  have "mint v' = mint v" using h by (auto simp: handle_set_beneficiaries_Inr)
  with that v(1) s' amended_will [OF v(2,3) h] show thesis by blast
qed

lemma check_in_will:
  assumes "ledger_ok rt (accounts s)" "check_in rt signers own key s = Inr s'"
  shows "will_moves rt signers (sint (unix_timestamp s)) (\<lambda>_. Renewal) (accounts s) (accounts s') key"
  by (rule check_in_updates [OF assms]) (use store_will in fastforce)

lemma set_beneficiaries_will:
  assumes "set_beneficiaries rt signers own key inputs s = Inr s'"
  shows "will_moves rt signers now (\<lambda>_. Amendment) (accounts s) (accounts s') key"
  by (rule set_beneficiaries_updates [OF assms]) (use store_will in fastforce)

lemma claim_sol_will:
  assumes ok: "ledger_ok rt (accounts s)" and signers: "wallets signers (accounts s)"
    and run: "claim_sol rt signers k key s = Inr s'"
  shows "will_moves rt signers (sint (unix_timestamp s)) (Inheritance k) (accounts s) (accounts s') key"
proof -
  from run have k: "k \<in> set signers" and "\<exists>v. vault_at (accounts s) key = Some v \<and> is_sol v"
    by (auto simp: claim_sol_Inr accounts_claim_sol_Inr load_vault_Inr vault_at_Some)
  then obtain v0 where v0: "vault_at (accounts s) key = Some v0" "is_sol v0" by blast
  then have "k \<noteq> key" using k signers by (auto simp: wallets_def list_all_iff)
  from claim_sol_view [OF this run] obtain v avail amt v' where
    c: "sol_view rt key s = Some (v, avail)" "book_claim v k (unix_timestamp s) avail = Inr (amt, v')"
      "sol_view rt key s' = Some (v', avail - amt)" by blast
  then have v: "v = v0" "avail = withdrawable_lamports rt (accounts s key)" using v0 by (auto simp: sol_view_def)
  have v': "vault_at (accounts s') key = Some v'" "withdrawable_lamports rt (accounts s' key) = avail - amt"
    using c(3) by (auto simp: sol_view_def split: option.splits)
  have inv: "vault_inv v" using ok v0 v by (auto simp: vault_at_Some vault_ok_def dest: ledger_okD)
  have late: "sint (last_checkin v) + sint (timeout_seconds v) \<le> sint (unix_timestamp s)"
    using c(2) by (simp add: book_claim_Inr [OF inv])
  have "estate_claim k (estate_of v avail) = Some (unat amt, estate_of v' (avail - amt))"
    using book_claim_refines [OF inv late, of k avail] c(2) by simp
  then have "will_step signers (sint (unix_timestamp s)) (Some (will_of v avail)) (Inheritance k (unat amt))
      (Some (will_of v avail\<lparr>bequests := estate_of v' (avail - amt)\<rparr>))"
    using k late by (intro will_step.inheritance) simp_all
  moreover have "will_of v avail\<lparr>bequests := estate_of v' (avail - amt)\<rparr> = will_of v' (avail - amt)"
    using book_claim_frame [OF inv c(2)] by (simp add: will_of_def)
  moreover have "is_sol v'" using book_claim_frame [OF inv c(2)] v0 v by (simp add: is_sol_def)
  ultimately show ?thesis using v0 v v' by (auto simp: will_moves_def sol_will_def)
qed

lemma close_will:
  assumes law: "runtime_laws rt"
    and run: "close_vault rt signers own key vault_token prog s = Inr s'"
  shows "will_moves rt signers now (\<lambda>_. Closure) (accounts s) (accounts s') key"
proof -
  have none: "sol_will rt (accounts s') key = None"
    using close_vault_kept(2) [OF law run] by (simp add: sol_will_def)
  from run obtain v where v: "vault_at (accounts s) key = Some v" "owner v \<in> set signers"
    and empty: "is_sol v \<longrightarrow> withdrawable_lamports rt (accounts s key) = 0"
    using handle_close_vault_sol
    by (force simp: close_vault_Inr accounts_close_vault_Inr load_vault_Inr vault_at_Some is_sol_def)
  show ?thesis
  proof (cases "is_sol v")
    case True
    then have "will_step signers now (Some (will_of v 0)) Closure None"
      using v(2) by (intro will_step.closure) simp_all
    then show ?thesis using none v True empty by (auto simp: will_moves_def sol_will_def [of _ "accounts s"])
  next
    case False
    then show ?thesis using none not_sol_will [OF False v(1)] by (simp add: no_will_moves)
  qed
qed

text \<open>A claim on an SPL vault leaves it an SPL vault; no SOL vault changes.\<close>

lemma claim_spl_will:
  assumes law: "runtime_laws rt" and ok: "ledger_ok rt (accounts s)"
    and run: "claim_spl rt signers k key mnt vault_token k_token prog s = Inr s'"
  shows "will_moves rt signers now f (accounts s) (accounts s') key"
  using claim_spl_vault [OF law run]
proof cases
  case (1 v t amt v' A)
  then have "\<not> is_sol v" by (simp add: is_sol_def)
  moreover have "vault_inv v" using ok 1(1) by (auto simp: vault_at_Some vault_ok_def dest: ledger_okD)
  then have "mint v' = mint v" using book_claim_frame 1(5) by blast
  ultimately have "sol_will rt (accounts s) key = None" "sol_will rt (accounts s') key = None"
    using 1(1,2,7) by (simp_all add: sol_will_store sol_will_def [of _ "accounts s"] is_sol_def)
  then show ?thesis by (rule no_will_moves)
qed

lemma claim_spl_others:
  assumes law: "runtime_laws rt" and run: "claim_spl rt signers k key mnt vault_token k_token prog s = Inr s'"
    and "j \<noteq> key"
  shows "kept_at (accounts s) (accounts s') j"
  using claim_spl_vault [OF law run]
  by cases (use assms(3) in \<open>auto intro!: kept_at_store dest: vaults_keptD\<close>)

section \<open>The whole program\<close>

lemma initialize_others:
  assumes "init_account_law rt" "initialize_vault rt signers own key mnt ident tmo inputs s = Inr s'" "j \<noteq> key"
  shows "kept_at (accounts s) (accounts s') j"
proof -
  from assms(2) obtain bmp A v where init: "init_account rt own key (8 + vault_init_space) (accounts s) = Inr A"
    and s': "s' = s\<lparr>accounts := store_vault key v A\<rparr>"
    by (auto simp: initialize_vault_Inr accounts_initialize_vault_Inr)
  have law: "\<And>k. k \<noteq> key \<Longrightarrow> k \<noteq> own \<Longrightarrow> A k = accounts s k"
    "own \<noteq> key \<Longrightarrow> data (accounts s own) = NoData \<and> (\<exists>l. A own = (accounts s own)\<lparr>lamports := l\<rparr>)"
    using assms(1) init unfolding init_account_law_def by blast+
  have "kept_at (accounts s) A j"
    using law assms(3) by (cases "j = own") (auto intro: kept_at_no_vault)
  then show ?thesis using assms(3) by (simp add: s' kept_at_store)
qed

text \<open>The vault an instruction names, and the event it stands for in that will.\<close>

fun vault_of :: "instruction \<Rightarrow> pubkey" where
  "vault_of (InitializeVault own key mnt ident tmo inputs) = key"
| "vault_of (DepositSol own key amount) = key"
| "vault_of (DepositSpl own key mnt own_token vault_token prog amount) = key"
| "vault_of (CheckIn own key) = key"
| "vault_of (SetBeneficiaries own key inputs) = key"
| "vault_of (WithdrawSol own key amount) = key"
| "vault_of (WithdrawSpl own key mnt vault_token own_token prog amount) = key"
| "vault_of (ClaimSol k key) = key"
| "vault_of (ClaimSpl k key mnt vault_token k_token prog) = key"
| "vault_of (CloseVault own key vault_token prog) = key"

fun event_of :: "instruction \<Rightarrow> nat \<Rightarrow> will_event" where
  "event_of (InitializeVault own key mnt ident tmo inputs) = Opening"
| "event_of (DepositSol own key amount) = (\<lambda>n. Deposit (unat amount))"
| "event_of (CheckIn own key) = (\<lambda>n. Renewal)"
| "event_of (SetBeneficiaries own key inputs) = (\<lambda>n. Amendment)"
| "event_of (WithdrawSol own key amount) = (\<lambda>n. Withdrawal (unat amount))"
| "event_of (WithdrawSpl own key mnt vault_token own_token prog amount) = (\<lambda>n. Withdrawal (unat amount))"
| "event_of (ClaimSol k key) = Inheritance k"
| "event_of (ClaimSpl k key mnt vault_token k_token prog) = Inheritance k"
| "event_of (CloseVault own key vault_token prog) = (\<lambda>n. Closure)"
| "event_of (DepositSpl own key mnt own_token vault_token prog amount) = Gift"

lemma dispatch_will:
  assumes law: "runtime_laws rt" and ok: "ledger_ok rt (accounts s)" and signers: "wallets signers (accounts s)"
    and run: "dispatch rt signers ix s = Inr s'"
  shows "will_moves rt signers (sint (unix_timestamp s)) (if vault_of ix = j then event_of ix else Gift)
    (accounts s) (accounts s') j"
proof -
  note laws = runtime_lawsD [OF law]
  have others: ?thesis if "kept_at (accounts s) (accounts s') j" "vault_of ix \<noteq> j"
    using kept_will [OF that(1)] that(2) by simp
  have no_will: ?thesis if "kept_at (accounts s) (accounts s') j" "vault_at (accounts s) j = Some v" "mint v = Some m" for v m
    using that by (intro no_will_moves) (simp_all add: kept_at_def sol_will_def is_sol_def)
  show ?thesis
  proof (cases ix)
    case ix: (InitializeVault own key mnt ident tmo inputs)
    then show ?thesis
      using run initialize_will [OF laws(2)] initialize_others [OF laws(2)] others by (cases "key = j") auto
  next
    case ix: (DepositSol own key amount)
    then have d: "deposit_sol rt signers own key amount s = Inr s'" using run by simp
    then have "vaults_kept (accounts s) (accounts s')"
      using system_transfer_kept [OF laws(1)] by (auto simp: deposit_sol_Inr)
    then show ?thesis
      using ix deposit_will [OF laws(1) signers d ok] others vaults_keptD by (cases "key = j") auto
  next
    case ix: (DepositSpl own key mnt own_token vault_token prog amount)
    then have "deposit_spl rt signers own key mnt own_token vault_token prog amount s = Inr s'" using run by simp
    note kept = vaults_keptD [OF deposit_spl_kept [OF law this]]
    show ?thesis using kept_will [OF kept] ix by simp
  next
    case ix: (CheckIn own key)
    then have c: "check_in rt signers own key s = Inr s'" using run by simp
    then have "kept_at (accounts s) (accounts s') j" if "j \<noteq> key"
      using that by (auto simp: check_in_Inr intro!: kept_at_store)
    then show ?thesis using ix check_in_will [OF ok c] others by (cases "key = j") auto
  next
    case ix: (SetBeneficiaries own key inputs)
    then have c: "set_beneficiaries rt signers own key inputs s = Inr s'" using run by simp
    then have "kept_at (accounts s) (accounts s') j" if "j \<noteq> key"
      using that by (auto simp: set_beneficiaries_Inr intro!: kept_at_store)
    then show ?thesis using ix set_beneficiaries_will [OF c] others by (cases "key = j") auto
  next
    case ix: (WithdrawSol own key amount)
    then have c: "withdraw_sol rt signers own key amount s = Inr s'" using run by simp
    then have "kept_at (accounts s) (accounts s') j" if "j \<noteq> key"
      using that by (auto simp: withdraw_sol_Inr intro: move_lamports_kept)
    then show ?thesis using ix withdraw_will [OF signers c] others by (cases "key = j") auto
  next
    case ix: (WithdrawSpl own key mnt vault_token own_token prog amount)
    then have c: "withdraw_spl rt signers own key mnt vault_token own_token prog amount s = Inr s'" using run by simp
    note kept = vaults_keptD [OF withdraw_spl_kept [OF law c]]
    from c obtain v where "vault_at (accounts s) key = Some v" "mint v = Some mnt"
      unfolding withdraw_spl_Inr accounts_withdraw_spl_Inr load_vault_Inr vault_at_Some by blast
    then show ?thesis using ix no_will [OF kept] others [OF kept] by (cases "key = j") auto
  next
    case ix: (ClaimSol k key)
    then have c: "claim_sol rt signers k key s = Inr s'" using run by simp
    then have "kept_at (accounts s) (accounts s') j" if "j \<noteq> key"
      using that by (auto simp: claim_sol_Inr dest: move_lamports_kept intro!: kept_at_store)
    then show ?thesis using ix claim_sol_will [OF ok signers c] others by (cases "key = j") auto
  next
    case ix: (ClaimSpl k key mnt vault_token k_token prog)
    then have c: "claim_spl rt signers k key mnt vault_token k_token prog s = Inr s'" using run by simp
    show ?thesis
      using ix claim_spl_will [OF law ok c] claim_spl_others [OF law c] others by (cases "key = j") auto
  next
    case ix: (CloseVault own key vault_token prog)
    then have c: "close_vault rt signers own key vault_token prog s = Inr s'" using run by simp
    show ?thesis
      using ix close_will [OF law c] close_vault_kept(1) [OF law c] others by (cases "key = j") auto
  qed
qed

text \<open>Time and other programs are steps too, so every reachable chain has its histories.\<close>

definition has_history :: "runtime \<Rightarrow> chain \<Rightarrow> pubkey \<Rightarrow> bool" where
  "has_history rt s key \<longleftrightarrow> (\<forall>w. sol_will rt (accounts s) key = Some w \<longrightarrow>
     (\<exists>h. will_history h w \<and> list_all (\<lambda>(t, ev). t \<le> sint (unix_timestamp s)) h))"

lemma history_extends:
  assumes hist: "has_history rt s key" and now: "sint (unix_timestamp s) \<le> sint (unix_timestamp s')"
    and moves: "will_moves rt signers (sint (unix_timestamp s)) f (accounts s) (accounts s') key"
  shows "has_history rt s' key"
  unfolding has_history_def
proof (intro allI impI)
  fix w' assume w': "sol_will rt (accounts s') key = Some w'"
  let ?now = "sint (unix_timestamp s)"
  obtain ev where step: "will_step signers ?now (sol_will rt (accounts s) key) ev (sol_will rt (accounts s') key)"
    using moves w' unfolding will_moves_def by auto
  have "\<exists>h. will_history h w' \<and> list_all (\<lambda>(t, ev). t \<le> ?now) h"
  proof (cases "sol_will rt (accounts s) key")
    case None
    then have "will_history [(?now, ev)] w'" using step w' by (auto intro: will_history.opened)
    then show ?thesis by (intro exI [of _ "[(?now, ev)]"]) simp
  next
    case (Some w)
    then obtain h where h: "will_history h w" "list_all (\<lambda>(t, ev). t \<le> ?now) h"
      using hist unfolding has_history_def by blast
    have "will_history ((?now, ev) # h) w'" using will_history_Cons [OF h] step Some w' by simp
    then show ?thesis using h(2) by (intro exI [of _ "(?now, ev) # h"]) simp
  qed
  then show "\<exists>h. will_history h w' \<and> list_all (\<lambda>(t, ev). t \<le> sint (unix_timestamp s')) h"
    using now by (fastforce simp: list_all_iff)
qed

lemma dispatch_clock: "dispatch rt signers ix s = Inr s' \<Longrightarrow> unix_timestamp s' = unix_timestamp s"
  by (cases ix) (auto simp: initialize_vault_Inr deposit_sol_Inr deposit_spl_Inr check_in_Inr set_beneficiaries_Inr
      withdraw_sol_Inr withdraw_spl_Inr claim_sol_Inr claim_spl_Inr close_vault_Inr)

lemma chain_step_history:
  assumes law: "runtime_laws rt" and ok: "ledger_ok rt (accounts s)" and step: "chain_step rt s s'"
    and hist: "has_history rt s key"
  shows "has_history rt s' key"
  using step
proof (cases rule: chain_step.cases)
  case (instruction signers ix)
  then show ?thesis
    using history_extends [OF hist _ dispatch_will [OF law ok]] dispatch_clock by (metis order_refl)
next
  case (time_passes now)
  have "kept_at (accounts s) (accounts s') key" using time_passes by auto
  from history_extends [OF hist _ kept_will [OF this]] show ?thesis using time_passes by simp
next
  case (outside A)
  have "kept_at (accounts s) (accounts s') key" using outside vaults_keptD by auto
  from history_extends [OF hist _ kept_will [OF this]] show ?thesis using outside by simp
qed

lemma reachable_history:
  assumes "runtime_laws rt" "find_program_address_law rt" "reachable rt s"
  shows "has_history rt s key"
proof -
  have "ledger_ok rt (accounts s) \<and> has_history rt s key"
    using assms(3)
  proof (rule reachable_invariant)
    fix s :: chain
    assume "\<And>key. vault_at (accounts s) key = None"
    then show "ledger_ok rt (accounts s) \<and> has_history rt s key"
      by (simp add: ledger_ok_def account_ok_at has_history_def sol_will_def)
  qed (use chain_step_ok [OF assms(1,2)] chain_step_history [OF assms(1)] in blast)
  then show ?thesis by simp
qed

end
