(* ===== verification/Will_Spl.thy ===== *)
theory Will_Spl
  imports Will_Refinement
begin

text \<open>
  SPL vaults as wills. The funds are the tokens in the associated token account of the vault,
  or zero while it has none. Anyone may create that account and send tokens to it, and a
  transfer fee may eat a part of a deposit, so a deposit counts as a gift of what arrives. A
  reading is a relation here: with one token program per mint it is unique.
\<close>

section \<open>Reading an SPL vault as a will\<close>

definition vault_token_account :: "runtime \<Rightarrow> ledger \<Rightarrow> pubkey \<Rightarrow> pubkey \<Rightarrow> pubkey \<Rightarrow> token_account \<Rightarrow> bool" where
  "vault_token_account rt A key m vt t \<longleftrightarrow> vt = associated_address rt key m (owner_program (A vt)) \<and>
     token_at A vt = Some t \<and> tok_mint t = m \<and> tok_owner t = key"

definition spl_funds :: "runtime \<Rightarrow> ledger \<Rightarrow> pubkey \<Rightarrow> pubkey \<Rightarrow> u64 \<Rightarrow> bool" where
  "spl_funds rt A key m a \<longleftrightarrow> (\<exists>vt t. vault_token_account rt A key m vt t \<and> a = tok_amount t) \<or>
     a = 0 \<and> (\<nexists>vt t. vault_token_account rt A key m vt t)"

definition spl_will :: "runtime \<Rightarrow> ledger \<Rightarrow> pubkey \<Rightarrow> will \<Rightarrow> bool" where
  "spl_will rt A key w \<longleftrightarrow> (\<exists>v m a. vault_at A key = Some v \<and> mint v = Some m \<and>
     spl_funds rt A key m a \<and> w = will_of v a)"

lemma spl_funds_exists: "\<exists>a. spl_funds rt A key m a"
  unfolding spl_funds_def by blast

lemma spl_fundsI: "vault_token_account rt A key m vt t \<Longrightarrow> a = tok_amount t \<Longrightarrow> spl_funds rt A key m a"
  unfolding spl_funds_def by blast

lemma spl_funds_unique:
  assumes "one_program_per_mint A" "vault_token_account rt A key m vt t" "spl_funds rt A key m a"
  shows "a = tok_amount t"
proof -
  obtain vu u where u: "vault_token_account rt A key m vu u" "a = tok_amount u"
    using assms(2,3) unfolding spl_funds_def by blast
  have "data (A vt) = TokenData t" "data (A vu) = TokenData u" "tok_mint t = tok_mint u"
    using assms(2) u(1) by (simp_all add: vault_token_account_def token_at_Some)
  then have "owner_program (A vt) = owner_program (A vu)"
    using assms(1) unfolding one_program_per_mint_def by blast
  then have "vt = vu" using assms(2) u(1) unfolding vault_token_account_def by metis
  then show ?thesis using assms(2) u by (simp add: vault_token_account_def)
qed

lemma spl_funds_kept:
  assumes "tokens_kept A A' key" "spl_funds rt A key m a"
  shows "\<exists>b. spl_funds rt A' key m b \<and> unat a \<le> unat b"
proof (cases "\<exists>vt t. vault_token_account rt A key m vt t \<and> a = tok_amount t")
  case True
  then obtain vt t where t: "vault_token_account rt A key m vt t" "a = tok_amount t" by blast
  then obtain t' where "token_at A' vt = Some t'" "tok_mint t' = tok_mint t" "tok_owner t' = key"
    "unat (tok_amount t) \<le> unat (tok_amount t')" "owner_program (A' vt) = owner_program (A vt)"
    using tokens_keptD [OF assms(1), of vt t] unfolding vault_token_account_def by blast
  then have "vault_token_account rt A' key m vt t' \<and> unat a \<le> unat (tok_amount t')"
    using t unfolding vault_token_account_def by metis
  then show ?thesis unfolding spl_funds_def by blast
next
  case False
  then have "a = 0" using assms(2) by (auto simp: spl_funds_def)
  then show ?thesis using spl_funds_exists by auto
qed

lemma vault_token_account_store:
  assumes "token_at A key = None"
  shows "vault_token_account rt (store_vault key v A) k m vt t = vault_token_account rt A k m vt t"
  using assms by (cases "vt = key") (auto simp: vault_token_account_def store_vault_def token_at_def)

lemma spl_funds_store:
  "token_at A key = None \<Longrightarrow> spl_funds rt (store_vault key v A) k m a = spl_funds rt A k m a"
  by (simp add: spl_funds_def vault_token_account_store)

section \<open>Each operation is a step\<close>

text \<open>
  What an instruction makes of the will at an address: it moves on by a step, is founded, or is
  torn up. An SPL vault is closed through a token account that the owner chooses, and its tokens
  may lie in another (\<open>spl_close_orphans_tokens\<close>), so nothing is said of the funds then.
\<close>

definition spl_moves ::
    "runtime \<Rightarrow> pubkey list \<Rightarrow> int \<Rightarrow> (nat \<Rightarrow> will_event) \<Rightarrow> ledger \<Rightarrow> ledger \<Rightarrow> pubkey \<Rightarrow> bool" where
  "spl_moves rt signers now f A A' key \<longleftrightarrow>
     (\<forall>w. spl_will rt A key w \<longrightarrow> vault_at A' key = None \<and> f = (\<lambda>n. Closure) \<or>
        (\<exists>n w'. spl_will rt A' key w' \<and> will_step signers now (Some w) (f n) (Some w'))) \<and>
     (\<forall>v m. vault_at A' key = Some v \<and> mint v = Some m \<and> (\<nexists>w. spl_will rt A key w) \<longrightarrow>
        (\<exists>n w'. spl_will rt A' key w' \<and> will_step signers now None (f n) (Some w')))"

lemma spl_will_exists:
  "vault_at A key = Some v \<Longrightarrow> mint v = Some m \<Longrightarrow> \<exists>w. spl_will rt A key w"
  using spl_funds_exists unfolding spl_will_def by blast

text \<open>Where the reading before is unique, one step from it is enough.\<close>

lemma spl_moves_step:
  assumes v: "vault_at A key = Some v" "mint v = Some m"
    and unique: "\<And>w. spl_will rt A key w \<Longrightarrow> w = u"
    and step: "spl_will rt A' key u'" "will_step signers now (Some u) (f n) (Some u')"
  shows "spl_moves rt signers now f A A' key"
  unfolding spl_moves_def
proof (intro conjI allI impI)
  fix w assume "spl_will rt A key w"
  then have "w = u" by (rule unique)
  then show "vault_at A' key = None \<and> f = (\<lambda>n. Closure) \<or>
      (\<exists>n w'. spl_will rt A' key w' \<and> will_step signers now (Some w) (f n) (Some w'))"
    using step by blast
next
  fix v' m' assume "vault_at A' key = Some v' \<and> mint v' = Some m' \<and> (\<nexists>w. spl_will rt A key w)"
  then show "\<exists>n w'. spl_will rt A' key w' \<and> will_step signers now None (f n) (Some w')"
    using spl_will_exists [OF v] by blast
qed

lemma kept_spl_moves:
  assumes vaults: "vault_at A' key = vault_at A key" and tokens: "vault_at A key \<noteq> None \<Longrightarrow> tokens_kept A A' key"
  shows "spl_moves rt signers now Gift A A' key"
  unfolding spl_moves_def
proof (intro conjI allI impI)
  fix w assume "spl_will rt A key w"
  then obtain v m a where v: "vault_at A key = Some v" "mint v = Some m" "spl_funds rt A key m a"
    and w: "w = will_of v a" unfolding spl_will_def by blast
  then obtain b where b: "spl_funds rt A' key m b" "unat a \<le> unat b"
    using spl_funds_kept tokens by blast
  then have "unat b = funds (bequests (will_of v a)) + (unat b - unat a)" by simp
  from will_of_funds [OF this] have "will_step signers now (Some w) (Gift (unat b - unat a)) (Some (will_of v b))"
    using will_step.gift [of signers now w "unat b - unat a"] by (simp add: w)
  moreover have "spl_will rt A' key (will_of v b)"
    using v vaults b(1) unfolding spl_will_def by auto
  ultimately show "vault_at A' key = None \<and> Gift = (\<lambda>n. Closure) \<or>
      (\<exists>n w'. spl_will rt A' key w' \<and> will_step signers now (Some w) (Gift n) (Some w'))" by blast
next
  fix v m assume "vault_at A' key = Some v \<and> mint v = Some m \<and> (\<nexists>w. spl_will rt A key w)"
  then show "\<exists>n w'. spl_will rt A' key w' \<and> will_step signers now None (Gift n) (Some w')"
    using vaults spl_will_exists by metis
qed

text \<open>An update of the vault by its testator, on unchanged tokens.\<close>

lemma store_spl_moves:
  assumes v: "vault_at A key = Some v" "mint v' = mint v"
    and step: "\<And>a. will_step signers now (Some (will_of v a)) ev (Some (will_of v' a))"
  shows "spl_moves rt signers now (\<lambda>n. ev) A (store_vault key v' A) key"
  unfolding spl_moves_def
proof (intro conjI allI impI)
  have none: "token_at A key = None" using v(1) by (rule vault_no_token)
  fix w assume "spl_will rt A key w"
  then obtain m a where a: "mint v = Some m" "spl_funds rt A key m a" "w = will_of v a"
    using v(1) unfolding spl_will_def by auto
  then have "spl_will rt (store_vault key v' A) key (will_of v' a)"
    using v(2) none unfolding spl_will_def by (auto simp: vault_at_store spl_funds_store)
  then show "vault_at (store_vault key v' A) key = None \<and> (\<lambda>n. ev) = (\<lambda>n::nat. Closure) \<or>
      (\<exists>n::nat. \<exists>w'. spl_will rt (store_vault key v' A) key w' \<and> will_step signers now (Some w) ev (Some w'))"
    using step a(3) by blast
next
  fix u m assume "vault_at (store_vault key v' A) key = Some u \<and> mint u = Some m \<and> (\<nexists>w. spl_will rt A key w)"
  then show "\<exists>n::nat. \<exists>w'. spl_will rt (store_vault key v' A) key w' \<and> will_step signers now None ev (Some w')"
    using v spl_will_exists [OF v(1)] by (metis option.inject vault_at_store)
qed

lemma initialize_spl_moves:
  assumes law: "init_account_law rt"
    and run: "initialize_vault rt signers own key mnt ident tmo inputs s = Inr s'"
  shows "spl_moves rt signers (sint (unix_timestamp s)) Opening (accounts s) (accounts s') key"
proof -
  from run obtain bmp A v where own: "own \<in> set signers"
    and init: "init_account rt own key (8 + vault_init_space) (accounts s) = Inr A"
    and h: "handle_initialize_vault own mnt bmp ident tmo inputs (unix_timestamp s) = Inr v"
    and s': "s' = s\<lparr>accounts := store_vault key v A\<rparr>"
    by (auto simp: initialize_vault_Inr accounts_initialize_vault_Inr)
  have none: "vault_at (accounts s) key = None" using init_account_tokens(2) [OF law init] by simp
  note new = initialized_will [OF h own]
  have "\<exists>n w'. spl_will rt (accounts s') key w' \<and> will_step signers (sint (unix_timestamp s)) None (Opening n) (Some w')"
    if "mint v = Some m" for m
  proof -
    obtain a where "spl_funds rt (accounts s') key m a" using spl_funds_exists by blast
    then have "spl_will rt (accounts s') key (will_of v a)"
      using that unfolding spl_will_def by (auto simp: s' vault_at_store)
    then show ?thesis using new by blast
  qed
  then show ?thesis using none by (auto simp: spl_moves_def spl_will_def [of rt "accounts s"] s' vault_at_store)
qed

lemma withdraw_spl_moves:
  assumes law: "runtime_laws rt" and signers: "wallets signers (accounts s)" "one_program_per_mint (accounts s)"
    and run: "withdraw_spl rt signers own key mnt vault_token own_token prog amount s = Inr s'"
  shows "spl_moves rt signers now (\<lambda>n. Withdrawal (unat amount)) (accounts s) (accounts s') key"
proof -
  let ?A = "accounts s"
  from run obtain d t A A' where
    acc: "accounts_withdraw_spl rt signers own key mnt vault_token own_token prog ?A = Inr (d, t, A)"
    and amt: "0 < amount" "amount \<le> tok_amount t"
    and tr: "transfer_checked rt prog vault_token mnt own_token key amount d A = Inr A'"
    and s': "s' = s\<lparr>accounts := A'\<rparr>"
    unfolding withdraw_spl_Inr by blast
  from acc obtain v where own: "own \<in> set signers" "owner v = own"
    and v: "vault_at ?A key = Some v" "\<not> is_claimed v" "mint v = Some mnt"
    and src: "load_associated rt ?A vault_token key mnt prog = Inr t"
    and init: "init_if_needed_associated rt ?A own_token own own mnt prog = Inr A"
    unfolding accounts_withdraw_spl_Inr load_vault_Inr vault_at_Some by blast
  have own_key: "own \<noteq> key" using own(1) v(1) signers(1) by (auto simp: wallets_def list_all_iff)
  have t: "data (?A vault_token) = TokenData t" "tok_owner t = key" "owner_program (?A vault_token) = prog"
    "vault_token = associated_address rt key mnt prog"
    using src unfolding load_associated_Inr by blast+
  have same: "A vault_token = ?A vault_token"
    using init_if_needed_other [OF runtime_lawsD(3) [OF law] init, of vault_token] t(1) by simp
  obtain u where u: "data (A own_token) = TokenData u" "tok_owner u = own"
    using init by (auto simp: init_if_needed_associated_Inr)
  have ne: "vault_token \<noteq> own_token" using u t(1,2) same own_key by auto
  have tm: "tok_mint t = mnt"
    by (rule transfer_checkedE [OF runtime_lawsD(4) [OF law] tr]) (use same t(1) in auto)
  have acct: "vault_token_account rt ?A key mnt vault_token t"
    using t tm by (simp add: vault_token_account_def token_at_Some)
  let ?t' = "t\<lparr>tok_amount := tok_amount t - amount\<rparr>"
  have paid: "data (A' vault_token) = TokenData ?t'"
    using transfer_checked_debit(1) [OF runtime_lawsD(4) [OF law] ne tr] same t(1) by simp
  have "owner_program (A' vault_token) = prog"
    by (rule transfer_checkedE [OF runtime_lawsD(4) [OF law] tr]) (use same t(3) in auto)
  then have "vault_token_account rt A' key mnt vault_token ?t'"
    using t tm paid by (simp add: vault_token_account_def token_at_Some)
  then have after: "spl_funds rt A' key mnt (tok_amount t - amount)" by (rule spl_fundsI) simp
  have v': "vault_at A' key = Some v"
    using vaults_keptD [OF withdraw_spl_kept [OF law run], of key] v(1) by (simp add: s' kept_at_def)
  have w: "w = will_of v (tok_amount t)" if "spl_will rt ?A key w" for w
    using that v spl_funds_unique [OF signers(2) acct] by (auto simp: spl_will_def)
  have "unat (tok_amount t - amount) = funds (bequests (will_of v (tok_amount t))) - unat amount"
    using amt(2) by (simp add: unat_sub word_le_nat_alt)
  from will_of_funds [OF this] have step: "will_step signers now (Some (will_of v (tok_amount t))) (Withdrawal (unat amount))
      (Some (will_of v (tok_amount t - amount)))"
    using will_step.withdrawal [of "will_of v (tok_amount t)" signers "unat amount" now] own v(2) amt
    by (simp add: word_less_nat_alt word_le_nat_alt)
  have w': "spl_will rt (accounts s') key (will_of v (tok_amount t - amount))"
    using v' v(3) after unfolding spl_will_def by (auto simp: s')
  show ?thesis by (rule spl_moves_step [where n = 0, OF v(1,3) _ w' step]) (rule w)
qed

lemma claim_spl_moves:
  assumes law: "runtime_laws rt" and ok: "ledger_ok rt (accounts s)"
    and signers: "wallets signers (accounts s)" "one_program_per_mint (accounts s)"
    and run: "claim_spl rt signers k key mnt vault_token k_token prog s = Inr s'"
  shows "spl_moves rt signers (sint (unix_timestamp s)) (Inheritance k) (accounts s) (accounts s') key"
proof -
  let ?A = "accounts s" and ?now = "sint (unix_timestamp s)"
  from run obtain v d t amt v' A A' where
    acc: "accounts_claim_spl rt signers k key mnt vault_token k_token prog ?A = Inr (v, d, t, A)"
    and book: "book_claim v k (unix_timestamp s) (tok_amount t) = Inr (amt, v')"
    and tr: "transfer_checked rt prog vault_token mnt k_token key amt d A = Inr A'"
    and s': "s' = s\<lparr>accounts := store_vault key v' A'\<rparr>"
    by (auto simp: claim_spl_Inr)
  note accD = accounts_claim_splD [OF acc]
  have v: "vault_at ?A key = Some v" using accD(1) by (simp add: vault_at_Some)
  have inv: "vault_inv v" using ledger_okD [OF ok accD(1)] by (simp add: vault_ok_def)
  have "k \<noteq> key" using signers(1) accD(6) v by (auto simp: wallets_def list_all_iff)
  note same = claim_spl_transfer [OF law this acc] and frame = book_claim_frame [OF inv book]
  have prog: "owner_program (?A vault_token) = prog" "vault_token = associated_address rt key mnt prog"
    using acc unfolding accounts_claim_spl_Inr load_associated_Inr by blast+
  have tm: "tok_mint t = mnt"
    by (rule transfer_checkedE [OF runtime_lawsD(4) [OF law] tr]) (use same(2) accD(2) in auto)
  have acct: "vault_token_account rt ?A key mnt vault_token t"
    using accD(2,3) prog tm by (simp add: vault_token_account_def token_at_Some)
  let ?t' = "t\<lparr>tok_amount := tok_amount t - amt\<rparr>"
  have paid: "data (A' vault_token) = TokenData ?t'"
    using transfer_checked_debit(1) [OF runtime_lawsD(4) [OF law] same(1) tr] same(2) accD(2) by simp
  have "owner_program (A' vault_token) = prog"
    by (rule transfer_checkedE [OF runtime_lawsD(4) [OF law] tr]) (use same(2) prog(1) in auto)
  moreover have "vault_token \<noteq> key" using accD(1,2) by auto
  ultimately have "vault_token_account rt (accounts s') key mnt vault_token ?t'"
    using prog(2) accD(3) tm paid by (simp add: vault_token_account_def s' store_vault_def token_at_def)
  then have after: "spl_funds rt (accounts s') key mnt (tok_amount t - amt)" by (rule spl_fundsI) simp
  have late: "sint (last_checkin v) + sint (timeout_seconds v) \<le> ?now"
    using book by (simp add: book_claim_Inr [OF inv])
  have "estate_claim k (estate_of v (tok_amount t)) = Some (unat amt, estate_of v' (tok_amount t - amt))"
    using book_claim_refines [OF inv late, of k "tok_amount t"] book by simp
  then have "will_step signers ?now (Some (will_of v (tok_amount t))) (Inheritance k (unat amt))
      (Some (will_of v (tok_amount t)\<lparr>bequests := estate_of v' (tok_amount t - amt)\<rparr>))"
    using accD(6) late by (intro will_step.inheritance) simp_all
  moreover have "will_of v (tok_amount t)\<lparr>bequests := estate_of v' (tok_amount t - amt)\<rparr>
      = will_of v' (tok_amount t - amt)"
    using frame by (simp add: will_of_def)
  ultimately have step: "will_step signers ?now (Some (will_of v (tok_amount t))) (Inheritance k (unat amt))
      (Some (will_of v' (tok_amount t - amt)))" by simp
  have w': "spl_will rt (accounts s') key (will_of v' (tok_amount t - amt))"
    using after frame(3) accD(4) unfolding spl_will_def by (auto simp: s' vault_at_store)
  have w: "w = will_of v (tok_amount t)" if "spl_will rt ?A key w" for w
    using that v accD(4) spl_funds_unique [OF signers(2) acct] by (auto simp: spl_will_def)
  show ?thesis by (rule spl_moves_step [where f = "Inheritance k", OF v accD(4) _ w' step]) (rule w)
qed

section \<open>The whole program\<close>

lemma check_in_spl_moves:
  assumes "ledger_ok rt (accounts s)" "check_in rt signers own key s = Inr s'"
  shows "spl_moves rt signers (sint (unix_timestamp s)) (\<lambda>n. Renewal) (accounts s) (accounts s') key"
  by (rule check_in_updates [OF assms]) (use store_spl_moves in fastforce)

lemma set_beneficiaries_spl_moves:
  assumes "set_beneficiaries rt signers own key inputs s = Inr s'"
  shows "spl_moves rt signers now (\<lambda>n. Amendment) (accounts s) (accounts s') key"
  by (rule set_beneficiaries_updates [OF assms]) (use store_spl_moves in fastforce)

lemma closed_spl_moves:
  "vault_at A' key = None \<Longrightarrow> spl_moves rt signers now (\<lambda>n. Closure) A A' key"
  by (simp add: spl_moves_def)

lemma no_spl_moves:
  assumes "vault_at A key = Some v" "mint v = None" "vault_at A' key = Some v'" "mint v' = None"
  shows "spl_moves rt signers now f A A' key"
  using assms by (auto simp: spl_moves_def spl_will_def [of rt A])

lemma claim_sol_spl_moves:
  assumes ok: "ledger_ok rt (accounts s)" and run: "claim_sol rt signers k key s = Inr s'"
  shows "spl_moves rt signers now f (accounts s) (accounts s') key"
proof -
  from run obtain v amt v' A where v: "vault_at (accounts s) key = Some v" "mint v = None"
    and book: "book_claim v k (unix_timestamp s) (withdrawable_lamports rt (accounts s key)) = Inr (amt, v')"
    and s': "s' = s\<lparr>accounts := store_vault key v' A\<rparr>"
    by (auto simp: claim_sol_Inr accounts_claim_sol_Inr load_vault_Inr vault_at_Some is_sol_def)
  have "vault_inv v" using ok v(1) by (auto simp: vault_at_Some vault_ok_def dest: ledger_okD)
  then have "mint v' = None" using book_claim_frame(3) [OF _ book] v(2) by simp
  moreover have "vault_at (accounts s') key = Some v'" by (simp add: s' vault_at_store)
  ultimately show ?thesis using no_spl_moves [OF v] by blast
qed

text \<open>Every instruction leaves the other vaults and their tokens alone.\<close>

lemma dispatch_others:
  assumes law: "runtime_laws rt" and signers: "wallets signers (accounts s)"
    and run: "dispatch rt signers ix s = Inr s'" and v: "vault_at (accounts s) j \<noteq> None"
    and same: "vault_at (accounts s') j = vault_at (accounts s) j"
    and other: "j \<noteq> vault_of ix"
  shows "tokens_kept (accounts s) (accounts s') j"
proof (cases ix)
  case (CloseVault own key vt p)
  then have c: "close_vault rt signers own key vt p s = Inr s'" and "j \<noteq> key" using run other by auto
  show ?thesis using close_vault_others [OF law c \<open>j \<noteq> key\<close>] .
next
  case (DepositSpl own key m own_token vt p amount)
  then show ?thesis using run v deposit_spl_tokens [OF law signers] by auto
qed (use run other withdraw_spl_tokens [OF law] claim_spl_tokens [OF law] check_in_tokens set_beneficiaries_tokens
      deposit_sol_tokens [OF runtime_lawsD(1) [OF law]] withdraw_sol_tokens claim_sol_tokens
      initialize_vault_tokens [OF runtime_lawsD(2) [OF law]] in auto)

lemma dispatch_spl_moves:
  assumes law: "runtime_laws rt" and ok: "ledger_ok rt (accounts s)"
    and signers: "wallets signers (accounts s)" "one_program_per_mint (accounts s)"
    and run: "dispatch rt signers ix s = Inr s'"
  shows "spl_moves rt signers (sint (unix_timestamp s)) (if vault_of ix = j then event_of ix else Gift)
    (accounts s) (accounts s') j"
proof -
  have calm: ?thesis if "vault_at (accounts s') j = vault_at (accounts s) j" "vault_of ix \<noteq> j"
    using kept_spl_moves [OF that(1) dispatch_others [OF law signers(1) run _ that(1) that(2) [symmetric]]] that(2) by simp
  have kept: "vault_at (accounts s') j = vault_at (accounts s) j" if "kept_at (accounts s) (accounts s') j"
    using that by (simp add: kept_at_def)
  have sol: ?thesis if "vault_at (accounts s') j = Some v" "vault_at (accounts s) j = Some v" "mint v = None" for v
    by (rule no_spl_moves [OF that(2,3) that(1,3)])
  show ?thesis
  proof (cases ix)
    case ix: (InitializeVault own key mnt ident tmo inputs)
    then have c: "initialize_vault rt signers own key mnt ident tmo inputs s = Inr s'" using run by simp
    note law = runtime_lawsD(2) [OF law]
    show ?thesis
      using ix initialize_spl_moves [OF law c] calm kept [OF initialize_others [OF law c]]
      by (cases "key = j") auto
  next
    case ix: (DepositSol own key amount)
    then have c: "deposit_sol rt signers own key amount s = Inr s'" using run by simp
    then have "kept_at (accounts s) (accounts s') j"
      using vaults_keptD [OF system_transfer_kept [OF runtime_lawsD(1) [OF law]]] by (auto simp: deposit_sol_Inr)
    moreover from c obtain v where "vault_at (accounts s) key = Some v" "mint v = None"
      by (auto simp: deposit_sol_Inr accounts_deposit_sol_Inr load_vault_Inr vault_at_Some is_sol_def)
    ultimately show ?thesis using ix calm sol kept by (cases "key = j") auto
  next
    case ix: (DepositSpl own key mnt own_token vault_token prog amount)
    then have c: "deposit_spl rt signers own key mnt own_token vault_token prog amount s = Inr s'" using run by simp
    note same = kept [OF vaults_keptD [OF deposit_spl_kept [OF law c]]]
    show ?thesis
      using kept_spl_moves [OF same deposit_spl_tokens [OF law signers(1) c]] ix by simp
  next
    case ix: (CheckIn own key)
    then have c: "check_in rt signers own key s = Inr s'" using run by simp
    then have "vault_at (accounts s') j = vault_at (accounts s) j" if "j \<noteq> key"
      using that by (auto simp: check_in_Inr vault_at_store)
    then show ?thesis using ix check_in_spl_moves [OF ok c] calm by (cases "key = j") auto
  next
    case ix: (SetBeneficiaries own key inputs)
    then have c: "set_beneficiaries rt signers own key inputs s = Inr s'" using run by simp
    then have "vault_at (accounts s') j = vault_at (accounts s) j" if "j \<noteq> key"
      using that by (auto simp: set_beneficiaries_Inr vault_at_store)
    then show ?thesis using ix set_beneficiaries_spl_moves [OF c] calm by (cases "key = j") auto
  next
    case ix: (WithdrawSol own key amount)
    then have c: "withdraw_sol rt signers own key amount s = Inr s'" using run by simp
    then have "vault_at (accounts s') j = vault_at (accounts s) j"
      by (auto simp: withdraw_sol_Inr move_lamports_vaults)
    moreover from c obtain v where "vault_at (accounts s) key = Some v" "mint v = None"
      by (auto simp: withdraw_sol_Inr accounts_withdraw_sol_Inr load_vault_Inr vault_at_Some is_sol_def)
    ultimately show ?thesis using ix calm sol by (cases "key = j") auto
  next
    case ix: (WithdrawSpl own key mnt vault_token own_token prog amount)
    then have c: "withdraw_spl rt signers own key mnt vault_token own_token prog amount s = Inr s'"
      using run by simp
    show ?thesis
      using ix withdraw_spl_moves [OF law signers c] calm kept [OF vaults_keptD [OF withdraw_spl_kept [OF law c]]]
      by (cases "key = j") auto
  next
    case ix: (ClaimSol k key)
    then have c: "claim_sol rt signers k key s = Inr s'" using run by simp
    then have "vault_at (accounts s') j = vault_at (accounts s) j" if "j \<noteq> key"
      using that by (auto simp: claim_sol_Inr vault_at_store move_lamports_vaults)
    then show ?thesis using ix claim_sol_spl_moves [OF ok c] calm by (cases "key = j") auto
  next
    case ix: (ClaimSpl k key mnt vault_token k_token prog)
    then have c: "claim_spl rt signers k key mnt vault_token k_token prog s = Inr s'" using run by simp
    show ?thesis
      using ix claim_spl_moves [OF law ok signers c] calm kept [OF claim_spl_others [OF law c]]
      by (cases "key = j") auto
  next
    case ix: (CloseVault own key vault_token prog)
    then have c: "close_vault rt signers own key vault_token prog s = Inr s'" using run by simp
    show ?thesis
      using ix closed_spl_moves [OF close_vault_kept(2) [OF law c]] calm kept [OF close_vault_kept(1) [OF law c]]
      by (cases "key = j") auto
  qed
qed

section \<open>Every SPL vault has a history\<close>

definition has_spl_history :: "runtime \<Rightarrow> chain \<Rightarrow> pubkey \<Rightarrow> bool" where
  "has_spl_history rt s key \<longleftrightarrow> (\<forall>v m. vault_at (accounts s) key = Some v \<and> mint v = Some m \<longrightarrow>
     (\<exists>w h. spl_will rt (accounts s) key w \<and> will_history h w \<and>
        list_all (\<lambda>(t, ev). t \<le> sint (unix_timestamp s)) h))"

lemma spl_history_extends:
  assumes hist: "has_spl_history rt s key" and now: "sint (unix_timestamp s) \<le> sint (unix_timestamp s')"
    and moves: "spl_moves rt signers (sint (unix_timestamp s)) f (accounts s) (accounts s') key"
  shows "has_spl_history rt s' key"
  unfolding has_spl_history_def
proof (intro allI impI)
  fix v' m assume v': "vault_at (accounts s') key = Some v' \<and> mint v' = Some m"
  let ?now = "sint (unix_timestamp s)"
  have "\<exists>w' h. spl_will rt (accounts s') key w' \<and> will_history h w' \<and> list_all (\<lambda>(t, ev). t \<le> ?now) h"
  proof (cases "\<exists>w. spl_will rt (accounts s) key w")
    case False
    then obtain ev w' where w': "spl_will rt (accounts s') key w'" "will_step signers ?now None ev (Some w')"
      using moves v' unfolding spl_moves_def by blast
    then have "will_history [(?now, ev)] w'" by (auto intro: will_history.opened)
    then show ?thesis using w'(1) by (intro exI [of _ w'] exI [of _ "[(?now, ev)]"]) simp
  next
    case True
    then obtain w h where h: "spl_will rt (accounts s) key w" "will_history h w" "list_all (\<lambda>(t, ev). t \<le> ?now) h"
      using hist unfolding has_spl_history_def spl_will_def by blast
    then obtain ev w' where w': "spl_will rt (accounts s') key w'" "will_step signers ?now (Some w) ev (Some w')"
      using moves v' unfolding spl_moves_def by force
    have "will_history ((?now, ev) # h) w'" by (rule will_history_Cons [OF h(2,3) w'(2)])
    then show ?thesis using w'(1) h(3) by (intro exI [of _ w'] exI [of _ "(?now, ev) # h"]) simp
  qed
  then show "\<exists>w h. spl_will rt (accounts s') key w \<and> will_history h w \<and>
      list_all (\<lambda>(t, ev). t \<le> sint (unix_timestamp s')) h"
    using now by (fastforce simp: list_all_iff)
qed

lemma chain_step_spl_history:
  assumes law: "runtime_laws rt" and ok: "ledger_ok rt (accounts s)" and step: "chain_step rt s s'"
    and hist: "has_spl_history rt s key"
  shows "has_spl_history rt s' key"
  using step
proof (cases rule: chain_step.cases)
  case (instruction signers ix)
  show ?thesis
    using spl_history_extends [OF hist _ dispatch_spl_moves [OF law ok instruction]] dispatch_clock [OF instruction(3)]
    by simp
next
  case (time_passes now)
  then have "spl_moves rt [] (sint (unix_timestamp s)) Gift (accounts s) (accounts s') key"
    by (intro kept_spl_moves) simp_all
  then show ?thesis using time_passes by (intro spl_history_extends [OF hist]) auto
next
  case (outside A)
  then have "spl_moves rt [] (sint (unix_timestamp s)) Gift (accounts s) (accounts s') key"
    using vaults_keptD [OF outside(2), of key]
    by (intro kept_spl_moves) (auto simp: kept_at_def vault_tokens_kept_def)
  then show ?thesis using outside by (intro spl_history_extends [OF hist]) auto
qed

lemma reachable_spl_history:
  assumes "runtime_laws rt" "find_program_address_law rt" "reachable rt s"
  shows "has_spl_history rt s key"
proof -
  have "ledger_ok rt (accounts s) \<and> has_spl_history rt s key"
    using assms(3)
  proof (rule reachable_invariant)
    fix s :: chain
    assume "\<And>key. vault_at (accounts s) key = None"
    then show "ledger_ok rt (accounts s) \<and> has_spl_history rt s key"
      by (simp add: ledger_ok_def account_ok_at has_spl_history_def)
  qed (use chain_step_ok [OF assms(1,2)] chain_step_spl_history [OF assms(1)] in blast)
  then show ?thesis by simp
qed

end
