(* ===== verification/Conservation.thy ===== *)
theory Conservation
  imports Wire
begin

text \<open>
  Lamports are neither made nor lost: what one account loses in an instruction another gains.
  The Solana runtime refuses an instruction that breaks this rule, so a program that moves
  lamports by hand, as \<open>move_lamports\<close> and the closing of an account do, has to obey it.
  \<open>move_lamports\<close> and \<open>close_to\<close> do so only between two different accounts.
\<close>

definition total_lamports :: "pubkey set \<Rightarrow> ledger \<Rightarrow> nat" where
  "total_lamports K A = (\<Sum>k\<in>K. unat (lamports (A k)))"

text \<open>Every finite set of accounts that has those named has the same total before and after.\<close>

definition balanced :: "pubkey list \<Rightarrow> ledger \<Rightarrow> ledger \<Rightarrow> bool" where
  "balanced ks A A' \<longleftrightarrow> (\<forall>K. finite K \<and> set ks \<subseteq> K \<longrightarrow> total_lamports K A' = total_lamports K A)"

lemma balanced_same: "(\<And>k. lamports (A' k) = lamports (A k)) \<Longrightarrow> balanced ks A A'"
  by (simp add: balanced_def total_lamports_def)

lemma balanced_trans: "balanced ks A B \<Longrightarrow> balanced ks B C \<Longrightarrow> balanced ks A C"
  by (simp add: balanced_def)

lemma balanced_mono: "balanced js A B \<Longrightarrow> set js \<subseteq> set ks \<Longrightarrow> balanced ks A B"
  unfolding balanced_def by (meson subset_trans)

lemma balanced_pair:
  assumes "a \<noteq> b" and others: "\<And>k. k \<noteq> a \<Longrightarrow> k \<noteq> b \<Longrightarrow> lamports (A' k) = lamports (A k)"
    and pair: "unat (lamports (A' a)) + unat (lamports (A' b)) = unat (lamports (A a)) + unat (lamports (A b))"
  shows "balanced [a, b] A A'"
  unfolding balanced_def
proof (intro allI impI)
  fix K :: "pubkey set"
  assume K: "finite K \<and> set [a, b] \<subseteq> K"
  have split: "total_lamports K B =
      (unat (lamports (B a)) + unat (lamports (B b))) + total_lamports (K - {a, b}) B" for B
  proof -
    have "K = insert a (insert b (K - {a, b}))" using K by auto
    then have "total_lamports K B = total_lamports (insert a (insert b (K - {a, b}))) B" by simp
    also have "\<dots> = unat (lamports (B a)) + (unat (lamports (B b)) + total_lamports (K - {a, b}) B)"
      unfolding total_lamports_def using K assms(1) by (subst sum.insert; simp)+
    finally show ?thesis by simp
  qed
  have "total_lamports (K - {a, b}) A' = total_lamports (K - {a, b}) A"
    unfolding total_lamports_def using others by (intro sum.cong) auto
  then show "total_lamports K A' = total_lamports K A"
    unfolding split [of A'] split [of A] by (simp add: pair)
qed

section \<open>The program's own transfers\<close>

lemma move_lamports_balanced:
  assumes "move_lamports src dst amount A = Inr A'" "src \<noteq> dst"
  shows "balanced [src, dst] A A'"
  using assms
  by (intro balanced_pair) (auto simp: move_lamports_Inr unat_word_ariths unat_sub word_le_nat_alt)

lemma close_to_balanced:
  assumes "close_to rt key dst A = Inr A'" "key \<noteq> dst"
  shows "balanced [key, dst] A A'"
  using assms by (intro balanced_pair) (auto simp: close_to_Inr unat_word_ariths)

lemma store_balanced: "balanced ks A (store_vault key v A)"
  by (rule balanced_same) (simp add: store_vault_def)

section \<open>The called programs\<close>

text \<open>
  What the System and token programs promise of lamports, beyond \<open>runtime_laws\<close>: the one who
  pays for a new account loses what it gets, and a closed token account has none left.
\<close>

definition funding_law :: "runtime \<Rightarrow> bool" where
  "funding_law rt \<longleftrightarrow>
     (\<forall>payer key space A A'. init_account rt payer key space A = Inr A' \<longrightarrow> balanced [payer, key] A A') \<and>
     (\<forall>payer key holder mnt prog A A'.
        create_associated rt payer key holder mnt prog A = Inr A' \<longrightarrow> balanced [payer, key] A A') \<and>
     (\<forall>prog key dst auth A A'. close_token_account rt prog key dst auth A = Inr A' \<longrightarrow> lamports (A' key) = 0)"

lemma funding_lawD:
  assumes "funding_law rt"
  shows "init_account rt payer key space A = Inr A' \<Longrightarrow> balanced [payer, key] A A'"
    and "create_associated rt payer key holder mnt prog A = Inr A' \<Longrightarrow> balanced [payer, key] A A'"
    and "close_token_account rt prog key dst auth A = Inr A' \<Longrightarrow> lamports (A' key) = 0"
  using assms unfolding funding_law_def by blast+

lemma system_transfer_balanced:
  assumes "system_transfer_law rt" "system_transfer rt src dst amount A = Inr A'"
  shows "balanced [src, dst] A A'"
proof -
  have law: "unat amount \<le> unat (lamports (A src))"
    "src \<noteq> dst \<longrightarrow> unat (lamports (A dst)) + unat amount < 2 ^ 64"
    "A' = (if src = dst then A
             else A(src := (A src)\<lparr>lamports := lamports (A src) - amount\<rparr>,
                    dst := (A dst)\<lparr>lamports := lamports (A dst) + amount\<rparr>))"
    using assms unfolding system_transfer_law_def by blast+
  show ?thesis
  proof (cases "src = dst")
    case True
    then show ?thesis using law(3) by (simp add: balanced_same)
  next
    case False
    then show ?thesis
      using law by (intro balanced_pair) (auto simp: unat_word_ariths unat_sub word_le_nat_alt)
  qed
qed

lemma init_if_needed_balanced:
  assumes "funding_law rt" "init_if_needed_associated rt A key payer holder mnt prog = Inr A'"
  shows "balanced [payer, key] A A'"
  using assms funding_lawD(2) [OF assms(1)]
  by (auto simp: init_if_needed_associated_Inr balanced_same split: if_splits)

lemma transfer_checked_balanced:
  assumes "transfer_checked_law rt" "transfer_checked rt prog src mnt dst auth amount dec A = Inr A'"
  shows "balanced ks A A'"
  by (rule transfer_checkedE [OF assms]) (auto intro!: balanced_same)

lemma close_token_balanced:
  assumes "runtime_laws rt" "funding_law rt" "close_token_account rt prog key dst auth A = Inr A'"
  shows "balanced [key, dst] A A'"
proof -
  have law: "key \<noteq> dst" "unat (lamports (A dst)) + unat (lamports (A key)) < 2 ^ 64"
    "A' dst = (A dst)\<lparr>lamports := lamports (A dst) + lamports (A key)\<rparr>"
    "\<And>k. k \<noteq> key \<Longrightarrow> k \<noteq> dst \<Longrightarrow> A' k = A k"
    using runtime_lawsD(5) [OF assms(1)] assms(3) unfolding close_token_account_law_def by blast+
  then show ?thesis
    using funding_lawD(3) [OF assms(2,3)] by (intro balanced_pair) (auto simp: unat_word_ariths)
qed

section \<open>The instructions\<close>

lemma handle_close_vault_balanced:
  assumes law: "runtime_laws rt" "funding_law rt"
    and "accounts_close_vault rt signers own key vault_token prog A = Inr (v, tok)"
    and "handle_close_vault rt own key v tok prog A = Inr A'"
  shows "balanced (mutable_keys (CloseVault own key vault_token prog)) A A'"
proof (cases "mint v")
  case None
  then show ?thesis using assms(4) by (simp add: handle_close_vault_sol balanced_same)
next
  case (Some m)
  with assms(3,4) obtain k t p where k: "vault_token = Some k"
    and c: "close_token_account rt p k own key A = Inr A'"
    by (auto simp: accounts_close_vault_Inr handle_close_vault_def and_then_eq_Inr split: option.splits if_splits)
  show ?thesis using balanced_mono [OF close_token_balanced [OF law c]] k by simp
qed

lemma spl_balanced:
  assumes "runtime_laws rt" "funding_law rt"
    and "init_if_needed_associated rt A key payer holder mnt prog = Inr B"
    and "transfer_checked rt prog src mnt' dst auth amount dec B = Inr C"
    and "payer \<in> set ks" "key \<in> set ks"
  shows "balanced ks A C"
  using balanced_mono [OF init_if_needed_balanced [OF assms(2,3)], of ks] assms(5,6)
    transfer_checked_balanced [OF runtime_lawsD(4) [OF assms(1)] assms(4)] balanced_trans by auto

lemma dispatch_balanced:
  assumes law: "runtime_laws rt" "funding_law rt" and signers: "wallets signers (accounts s)"
    and run: "dispatch rt signers ix s = Inr s'"
  shows "balanced (mutable_keys ix) (accounts s) (accounts s')"
proof -
  have apart: "k \<noteq> key" if "k \<in> set signers" "vault_at (accounts s) key = Some v" for k key v
    using that signers by (auto simp: wallets_def list_all_iff)
  show ?thesis
  proof (cases ix)
    case ix: (InitializeVault own key mnt ident tmo inputs)
    then show ?thesis using run
      by (auto simp: initialize_vault_Inr accounts_initialize_vault_Inr
          intro!: balanced_trans [OF funding_lawD(1) [OF law(2)] store_balanced])
  next
    case ix: (DepositSol own key amount)
    then show ?thesis using run
      by (auto simp: deposit_sol_Inr intro!: system_transfer_balanced [OF runtime_lawsD(1) [OF law(1)]])
  next
    case ix: (DepositSpl own key mnt own_token vault_token prog amount)
    then show ?thesis using run
      by (auto simp: deposit_spl_Inr accounts_deposit_spl_Inr intro: spl_balanced [OF law])
  next
    case ix: (CheckIn own key)
    then show ?thesis using run by (auto simp: check_in_Inr store_balanced)
  next
    case ix: (SetBeneficiaries own key inputs)
    then show ?thesis using run by (auto simp: set_beneficiaries_Inr store_balanced)
  next
    case ix: (WithdrawSol own key amount)
    with run obtain v A where "own \<in> set signers" "vault_at (accounts s) key = Some v"
      and mv: "move_lamports key own amount (accounts s) = Inr A" and s': "s' = s\<lparr>accounts := A\<rparr>"
      by (auto simp: withdraw_sol_Inr accounts_withdraw_sol_Inr load_vault_Inr vault_at_Some)
    then have "own \<noteq> key" using apart by blast
    then show ?thesis using move_lamports_balanced [OF mv] ix by (auto simp: s' elim!: balanced_mono)
  next
    case ix: (WithdrawSpl own key mnt vault_token own_token prog amount)
    then show ?thesis using run
      by (auto simp: withdraw_spl_Inr accounts_withdraw_spl_Inr intro: spl_balanced [OF law])
  next
    case ix: (ClaimSol k key)
    with run obtain v v' amt A where "k \<in> set signers" "vault_at (accounts s) key = Some v"
      and mv: "move_lamports key k amt (accounts s) = Inr A" and s': "s' = s\<lparr>accounts := store_vault key v' A\<rparr>"
      by (auto simp: claim_sol_Inr accounts_claim_sol_Inr load_vault_Inr vault_at_Some)
    then have "k \<noteq> key" using apart by blast
    then have "balanced [k, key] (accounts s) A"
      using move_lamports_balanced [OF mv] by (auto elim!: balanced_mono)
    then show ?thesis using balanced_trans [OF _ store_balanced] ix by (simp add: s')
  next
    case ix: (ClaimSpl k key mnt vault_token k_token prog)
    with run obtain mnt' d v' amt A A' where
      "init_if_needed_associated rt (accounts s) k_token k k mnt prog = Inr A"
      "transfer_checked rt prog vault_token mnt' k_token key amt d A = Inr A'"
      and s': "s' = s\<lparr>accounts := store_vault key v' A'\<rparr>"
      by (auto simp: claim_spl_Inr accounts_claim_spl_Inr)
    then have "balanced (mutable_keys ix) (accounts s) A'"
      using spl_balanced [OF law] by (simp add: ix)
    from balanced_trans [OF this store_balanced] show ?thesis by (simp add: s')
  next
    case ix: (CloseVault own key vault_token prog)
    with run obtain v tok A where acc: "accounts_close_vault rt signers own key vault_token prog (accounts s) = Inr (v, tok)"
      and h: "handle_close_vault rt own key v tok prog (accounts s) = Inr A"
      and cl: "close_to rt key own A = Inr (accounts s')"
      by (auto simp: close_vault_Inr)
    from acc have "own \<in> set signers" "vault_at (accounts s) key = Some v"
      by (simp_all add: accounts_close_vault_Inr load_vault_Inr vault_at_Some)
    then have "key \<noteq> own" using apart by blast
    from balanced_mono [OF close_to_balanced [OF cl this]]
    have "balanced (mutable_keys ix) A (accounts s')" by (simp add: ix)
    then show ?thesis
      using balanced_trans [OF handle_close_vault_balanced [OF law acc h]] ix by simp
  qed
qed

end
