(* ===== verification/No_Overflow.thy ===== *)
theory No_Overflow
  imports Conservation Invariants
begin

text \<open>
  The arithmetic of the program never fails: no instruction panics, and \<open>MathOverflow\<close> is
  the answer to one thing only, a heir table whose shares do not fit \<open>u16\<close> together. The outside
  world has to be sane for that: the lamports of the chain fit \<open>u64\<close>, and the clock is more
  than ten years from the end of \<open>i64\<close>.
\<close>

section \<open>Results without arithmetic errors\<close>

text \<open>\<open>b\<close>: is \<open>MathOverflow\<close> excluded too?\<close>

definition calm :: "bool \<Rightarrow> error + 'a \<Rightarrow> bool" where
  "calm b r \<longleftrightarrow> r \<noteq> Inl Panicked \<and> (b \<longrightarrow> r \<noteq> Inl (Dms MathOverflow))"

named_theorems calm_intros \<open>computations without arithmetic errors\<close>

lemma calm_Inr [simp]: "calm b (Inr x)"
  by (simp add: calm_def)

lemma calm_Inl [simp]: "calm b (Inl e) \<longleftrightarrow> e \<noteq> Panicked \<and> (b \<longrightarrow> e \<noteq> Dms MathOverflow)"
  by (simp add: calm_def)

lemma calm_and_then [calm_intros]:
  "calm b r \<Longrightarrow> (\<And>x. r = Inr x \<Longrightarrow> calm b (f x)) \<Longrightarrow> calm b (and_then r f)"
  by (cases r) simp_all

lemma calm_require [calm_intros]: "calm b (Inl e) \<Longrightarrow> calm b (require c e)"
  by (simp add: require_def)

lemma calm_ok_or [calm_intros]: "x = None \<Longrightarrow> calm b (Inl e) \<Longrightarrow> calm b (ok_or x e)"
  by simp

lemma calm_cpi [calm_intros]: "calm b (cpi r)"
  by (cases r) simp_all

lemma calm_ok_or_any: "calm b (Inl e) \<Longrightarrow> calm b (ok_or x e)"
  by (cases x) simp_all

section \<open>Account validation\<close>

lemma load_signer_calm [simp]: "calm b (load_signer signers key)"
  by (simp add: load_signer_def require_def)

lemma read_vault_calm [simp]: "calm b (read_vault A key)"
  by (simp add: read_vault_def split: account_data.split)

lemma check_seeds_calm [simp]: "calm b (check_seeds rt key v)"
  by (simp add: check_seeds_def require_def)

lemma load_vault_calm [simp]: "calm b (load_vault rt A key)"
  unfolding load_vault_def by (intro calm_intros) simp_all

lemma load_mint_calm [simp]: "calm b (load_mint rt A key)"
  by (simp add: load_mint_def split: account_data.split)

lemma load_token_calm [simp]: "calm b (load_token rt A key)"
  by (simp add: load_token_def split: account_data.split)

lemma load_token_program_calm [simp]: "calm b (load_token_program rt key)"
  by (simp add: load_token_program_def require_def)

lemma check_associated_calm [simp]: "calm b (check_associated rt A key t holder mnt prog)"
  by (simp add: check_associated_def require_def)

lemma init_if_needed_calm [simp]: "calm b (init_if_needed_associated rt A key payer holder mnt prog)"
  unfolding init_if_needed_associated_def by (intro calm_intros) (simp_all add: calm_cpi)

section \<open>The arithmetic of the handlers\<close>

lemma deadline_calm:
  assumes "- (2 ^ 63) \<le> sint (last_checkin v) + sint (timeout_seconds v)"
    and "sint (last_checkin v) + sint (timeout_seconds v) < 2 ^ 63"
  shows "calm b (deadline v)"
  using assms by (simp add: deadline_def checked_add_i64_def)

lemma validate_loop_calm:
  "b \<Longrightarrow> unat tot + shares_total bs < 2 ^ 16 \<Longrightarrow> calm b (validate_loop prev bs tot)"
proof (induction bs arbitrary: prev tot)
  case (Cons s bs)
  then have "checked_add tot (share_bps s) = Some (tot + share_bps s)"
    "unat (tot + share_bps s) = unat tot + unat (share_bps s)"
    by (simp_all add: checked_add_def unat_word_ariths)
  then show ?case using Cons by simp
qed simp

lemma validate_loop_no_panic: "calm False (validate_loop prev bs tot)"
proof (induction bs arbitrary: prev tot)
  case (Cons s bs)
  then show ?case by (cases "checked_add tot (share_bps s)") simp_all
qed simp

lemma validate_slots_calm:
  assumes "b \<Longrightarrow> shares_total bs < 2 ^ 16"
  shows "calm b (validate_slots bs)"
proof -
  have "calm b (validate_loop [] bs 0)"
    using assms validate_loop_calm [of b 0 bs] validate_loop_no_panic [of "[]" bs 0] by (cases b) auto
  then show ?thesis
    unfolding validate_slots_def by (intro calm_intros) simp_all
qed

lemma book_claim_calm:
  assumes "vault_inv v"
  shows "calm b (book_claim v k now avail)"
  unfolding book_claim_def
proof (rule calm_and_then)
  show "calm b (authorize_claim v k now avail)"
    by (simp add: calm_def authorize_claim_Inl [OF assms])
next
  fix r assume "authorize_claim v k now avail = Inr r"
  then obtain t v' where r: "r = (t, v')" "authorize_claim v k now avail = Inr (t, v')" by (cases r) simp
  then obtain i where i: "i < length (heirs v)"
    "t = \<lparr>ticket_share_bps = share_bps (heirs v ! i), is_last = (unpaid v = [heirs v ! i])\<rparr>"
    "v' = mark_claimed i (tripped v avail)"
    unfolding authorize_claim_Inr [OF assms] by blast
  from i(1) have "heirs v ! i \<in> set (heirs v)" by simp
  from claim_amount_payout [OF assms this i(2)] have "calm b (claim_amount t v' avail)"
    by (simp add: i(3))
  then show "calm b (case r of (ticket, self') \<Rightarrow>
      and_then (claim_amount ticket self' avail) (\<lambda>amount. Inr (amount, self')))"
    by (auto simp: r(1) intro: calm_and_then)
qed

lemma move_lamports_calm:
  assumes "unat (lamports (A dst)) + unat amount < 2 ^ 64"
  shows "calm b (move_lamports src dst amount A)"
  using assms
  by (auto simp: move_lamports_def checked_add_def Let_def intro!: calm_and_then calm_ok_or_any)

lemma close_to_calm:
  assumes "unat (lamports (A dst)) + unat (lamports (A key)) < 2 ^ 64"
  shows "calm b (close_to rt key dst A)"
  using assms by (simp add: close_to_def checked_add_def Let_def)

section \<open>The instructions\<close>

text \<open>A heir table whose shares fit \<open>u16\<close> together.\<close>

fun shares_fit :: "instruction \<Rightarrow> bool" where
  "shares_fit (InitializeVault own key mnt ident tmo inputs) \<longleftrightarrow> shares_total (table_of inputs) < 2 ^ 16"
| "shares_fit (SetBeneficiaries own key inputs) \<longleftrightarrow> shares_total (table_of inputs) < 2 ^ 16"
| "shares_fit ix \<longleftrightarrow> True"

lemma new_table_calm:
  assumes "b \<Longrightarrow> shares_total (table_of inputs) < 2 ^ 16" "length inputs \<le> MAX_BENEFICIARIES"
  shows "calm b (validate_slots (take (length inputs)
     (fill_slots (replicate MAX_BENEFICIARIES beneficiary_default) inputs)))"
  using assms by (simp add: take_fill_slots table_of_def validate_slots_calm)

lemma handle_initialize_calm:
  assumes "b \<Longrightarrow> shares_total (table_of inputs) < 2 ^ 16" "sint now + 315360000 < 2 ^ 63"
  shows "calm b (handle_initialize_vault own mnt bmp ident tmo inputs now)"
proof -
  have "- (2 ^ 63) \<le> sint now" using sint_range_size [of now] by (simp add: word_size)
  then show ?thesis
    unfolding handle_initialize_vault_def Let_def
    using assms by (intro calm_intros new_table_calm) (auto intro!: calm_and_then deadline_calm)
qed

lemma handle_check_in_calm:
  assumes "vault_inv v" "sint now + 315360000 < 2 ^ 63"
  shows "calm b (handle_check_in v now)"
proof -
  have "- (2 ^ 63) \<le> sint now" using sint_range_size [of now] by (simp add: word_size)
  moreover have "60 \<le> sint (timeout_seconds v)" "sint (timeout_seconds v) \<le> 315360000"
    using assms(1) by (simp_all add: vault_inv_def)
  ultimately show ?thesis
    unfolding handle_check_in_def Let_def using assms(2) by (intro calm_and_then deadline_calm) simp_all
qed

text \<open>No two accounts have more than \<open>u64\<close> holds.\<close>

lemma pair_fits:
  assumes "\<And>K. finite K \<Longrightarrow> total_lamports K A < 2 ^ 64" "j \<noteq> k"
  shows "unat (lamports (A j)) + unat (lamports (A k)) < 2 ^ 64"
  using assms(1) [of "{j, k}"] assms(2) by (simp add: total_lamports_def)

lemma triple_fits:
  assumes "\<And>K. finite K \<Longrightarrow> total_lamports K A < 2 ^ 64" "i \<noteq> j" "i \<noteq> k" "j \<noteq> k"
  shows "unat (lamports (A i)) + unat (lamports (A j)) + unat (lamports (A k)) < 2 ^ 64"
  using assms(1) [of "{i, j, k}"] assms(2-4) by (simp add: total_lamports_def add.assoc)

text \<open>The accounts structs refuse with their own errors only.\<close>

lemma accounts_calm [simp]:
  "calm b (accounts_initialize_vault rt signers own key mnt ident A)"
  "calm b (accounts_deposit_sol rt signers own key A)"
  "calm b (accounts_deposit_spl rt signers own key m own_token vault_token prog A)"
  "calm b (accounts_check_in rt signers own key A)"
  "calm b (accounts_set_beneficiaries rt signers own key A)"
  "calm b (accounts_withdraw_sol rt signers own key A)"
  "calm b (accounts_withdraw_spl rt signers own key m vault_token own_token prog A)"
  "calm b (accounts_claim_sol rt signers k key A)"
  "calm b (accounts_claim_spl rt signers k key m vault_token k_token prog A)"
  "calm b (accounts_close_vault rt signers own key vt p A)"
  unfolding accounts_initialize_vault_def accounts_deposit_sol_def accounts_deposit_spl_def
    accounts_check_in_def accounts_set_beneficiaries_def accounts_withdraw_sol_def accounts_withdraw_spl_def
    accounts_claim_sol_def accounts_claim_spl_def accounts_close_vault_def
  by (auto intro!: calm_and_then calm_cpi split: option.split prod.split)

lemma handle_close_vault_calm: "calm b (handle_close_vault rt own key v tok prog A)"
  unfolding handle_close_vault_def
  by (auto intro!: calm_and_then calm_ok_or_any calm_cpi split: option.split)

lemma close_vault_calm:
  assumes law: "runtime_laws rt" and own_key: "own \<noteq> key"
    and fits: "\<And>K. finite K \<Longrightarrow> total_lamports K (accounts s) < 2 ^ 64"
    and acc: "accounts_close_vault rt signers own key vt p (accounts s) = Inr (v, tok)"
    and h: "handle_close_vault rt own key v tok p (accounts s) = Inr A"
  shows "unat (lamports (A own)) + unat (lamports (A key)) < 2 ^ 64"
proof (cases "mint v")
  case None
  then show ?thesis using h pair_fits [OF fits own_key] by (simp add: handle_close_vault_sol)
next
  case (Some m)
  with acc h obtain k t q where k: "data (accounts s k) = TokenData t"
    and c: "close_token_account rt q k own key (accounts s) = Inr A" and v: "data (accounts s key) = VaultData v"
    by (auto simp: accounts_close_vault_Inr handle_close_vault_def and_then_eq_Inr load_vault_Inr load_token_Inr
        split: option.splits if_splits)
  have A: "k \<noteq> own" "unat (lamports (accounts s own)) + unat (lamports (accounts s k)) < 2 ^ 64"
    "A own = (accounts s own)\<lparr>lamports := lamports (accounts s own) + lamports (accounts s k)\<rparr>"
    "\<And>j. j \<noteq> k \<Longrightarrow> j \<noteq> own \<Longrightarrow> A j = accounts s j"
    using runtime_lawsD(5) [OF law] c unfolding close_token_account_law_def by blast+
  have "key \<noteq> k" using k v by auto
  then have "A key = accounts s key" using A(4) own_key by blast
  moreover have "unat (lamports (A own)) = unat (lamports (accounts s own)) + unat (lamports (accounts s k))"
    using A(2,3) by (simp add: unat_word_ariths)
  ultimately show ?thesis
    using triple_fits [OF fits, of own k key] own_key A(1) \<open>key \<noteq> k\<close> by simp
qed

lemma dispatch_calm:
  assumes law: "runtime_laws rt" and ok: "ledger_ok rt (accounts s)" and signers: "wallets signers (accounts s)"
    and fits: "\<And>K. finite K \<Longrightarrow> total_lamports K (accounts s) < 2 ^ 64"
    and clock: "sint (unix_timestamp s) + 315360000 < 2 ^ 63" and fit: "b \<Longrightarrow> shares_fit ix"
  shows "calm b (dispatch rt signers ix s)"
proof -
  have stored: "vault_inv v \<and> k \<noteq> key \<and>
      unat (lamports (accounts s k)) + unat (lamports (accounts s key)) < 2 ^ 64"
    if "k \<in> set signers" "load_vault rt (accounts s) key = Inr v" for k key v
  proof -
    have v: "vault_at (accounts s) key = Some v" using that(2) by (simp add: load_vault_Inr vault_at_Some)
    then have "k \<noteq> key" using that(1) signers by (auto simp: wallets_def list_all_iff)
    then show ?thesis
      using pair_fits [OF fits] ok v by (auto simp: vault_at_Some vault_ok_def dest: ledger_okD)
  qed
  show ?thesis
  proof (cases ix)
    case ix: (InitializeVault own key mnt ident tmo inputs)
    then show ?thesis
      using fit clock unfolding ix dispatch.simps initialize_vault_def
      by (auto intro!: calm_and_then handle_initialize_calm split: prod.split)
  next
    case ix: (DepositSol own key amount)
    then show ?thesis
      by (auto simp: deposit_sol_def handle_deposit_sol_def intro!: calm_and_then calm_cpi)
  next
    case ix: (DepositSpl own key mnt own_token vault_token prog amount)
    then show ?thesis
      by (auto simp: deposit_spl_def handle_deposit_spl_def intro!: calm_and_then calm_cpi split: prod.split)
  next
    case ix: (CheckIn own key)
    show ?thesis
      unfolding ix dispatch.simps check_in_def
      using stored clock by (auto simp: accounts_check_in_Inr intro!: calm_and_then handle_check_in_calm)
  next
    case ix: (SetBeneficiaries own key inputs)
    then show ?thesis
      using fit new_table_calm [of b inputs]
      by (auto simp: set_beneficiaries_def handle_set_beneficiaries_def Let_def intro!: calm_and_then)
  next
    case ix: (WithdrawSol own key amount)
    have "calm b (move_lamports key own amount (accounts s))"
      if "own \<in> set signers" "load_vault rt (accounts s) key = Inr v"
        "amount \<le> withdrawable_lamports rt (accounts s key)" for v
    proof -
      have "unat amount \<le> unat (lamports (accounts s key))"
        using that(3) by (simp add: word_le_nat_alt unat_withdrawable)
      then show ?thesis using stored [OF that(1,2)] by (intro move_lamports_calm) simp
    qed
    then show ?thesis
      by (auto simp: ix withdraw_sol_def handle_withdraw_sol_def accounts_withdraw_sol_Inr Let_def
          intro!: calm_and_then)
  next
    case ix: (WithdrawSpl own key mnt vault_token own_token prog amount)
    then show ?thesis
      by (auto simp: withdraw_spl_def handle_withdraw_spl_def intro!: calm_and_then calm_cpi split: prod.split)
  next
    case ix: (ClaimSol k key)
    have "calm b (handle_claim_sol rt k key v (unix_timestamp s) (accounts s))"
      if "k \<in> set signers" "load_vault rt (accounts s) key = Inr v" for v
    proof -
      let ?avail = "withdrawable_lamports rt (accounts s key)"
      have "calm b (move_lamports key k amount (accounts s))"
        if "book_claim v k (unix_timestamp s) ?avail = Inr (amount, v')" for amount v'
      proof -
        have "amount \<le> ?avail" using that by (auto simp: book_claim_def claim_amount_def and_then_eq_Inr split: if_splits)
        then have "unat amount \<le> unat (lamports (accounts s key))"
          by (simp add: word_le_nat_alt unat_withdrawable)
        then show ?thesis
          using stored [OF \<open>k \<in> set signers\<close> \<open>load_vault rt (accounts s) key = Inr v\<close>]
          by (intro move_lamports_calm) simp
      qed
      then show ?thesis
        using stored [OF that] by (auto simp: handle_claim_sol_def Let_def intro!: calm_and_then book_claim_calm)
    qed
    then show ?thesis
      by (auto simp: ix claim_sol_def accounts_claim_sol_Inr intro!: calm_and_then split: prod.split)
  next
    case ix: (ClaimSpl k key mnt vault_token k_token prog)
    show ?thesis
      unfolding ix dispatch.simps claim_spl_def handle_claim_spl_def
      using stored by (auto simp: accounts_claim_spl_Inr Let_def
          intro!: calm_and_then calm_cpi book_claim_calm split: prod.split)
  next
    case ix: (CloseVault own key vt p)
    have "calm b (close_to rt key own A)"
      if "accounts_close_vault rt signers own key vt p (accounts s) = Inr (v, tok)"
        "handle_close_vault rt own key v tok p (accounts s) = Inr A" for v tok A
    proof -
      have "own \<noteq> key" using that(1) stored by (auto simp: accounts_close_vault_Inr)
      from close_vault_calm [OF law this fits that] show ?thesis by (rule close_to_calm)
    qed
    then show ?thesis
      by (auto simp: ix close_vault_def intro!: calm_and_then handle_close_vault_calm split: prod.split)
  qed
qed

end
