(* ===== verification/Will_Properties.thy ===== *)
theory Will_Properties
  imports Will_Spl No_Overflow Scenarios
begin

text \<open>
  Properties of the life of a vault as a whole, in terms of the abstract will it is read as,
  and of the lamports of the chain. Each has a witness on the runs of \<open>Scenarios\<close>.
\<close>

section \<open>The program refines the will\<close>


lemma late_wallets: "wallets [2] (accounts sol_late)" "wallets [1] (accounts spl_decoy)"
  by (simp_all add: wallets_def vault_at_def sol_chain_defs spl_decoy_def spl_chain_defs account_defs)



section \<open>Every vault has a legal history\<close>

text \<open>
  C4: every SOL vault of a reachable chain has a legal history: a sequence of events, none later
  than now, that leads from its opening to what the vault is now by the rules of the will. Its books
  balance: what the vault holds above its reserve is the sum of all that came in less all
  that was withdrawn and inherited. Nobody inherited twice; whoever did was an heir, came
  after the deadline and got at least their percentage of the pool; and the heirs left are exactly
  those who have not inherited.
\<close>

theorem sol_vault_has_history:
  assumes "runtime_laws rt" "find_program_address_law rt" "reachable rt s"
    and "sol_will rt (accounts s) key = Some w"
  shows "\<exists>h. will_history h w \<and> list_all (\<lambda>(t, ev). t \<le> sint (unix_timestamp s)) h \<and>
    funds (bequests w) + sum_list (map (outflow \<circ> snd) h) = sum_list (map (inflow \<circ> snd) h) \<and>
    fulfilled h w"
  using reachable_history [OF assms(1-3), of key] assms(4) history_books history_fulfilled
  unfolding has_history_def by blast

theorem sol_vault_has_history_witness:
  "\<exists>h. will_history h (will_of (sample_vault 7 None True False 1000000) 400000) \<and>
    list_all (\<lambda>(t, ev). t \<le> 1800000060) h \<and>
    400000 + sum_list (map (outflow \<circ> snd) h) = sum_list (map (inflow \<circ> snd) h) \<and>
    fulfilled h (will_of (sample_vault 7 None True False 1000000) 400000)"
proof -
  have "sol_will sample_rt (accounts sol_tripped) 1564 = Some (will_of (sample_vault 7 None True False 1000000) 400000)"
    using sol_vaults(4)
    by (simp add: sol_will_def is_sol_def withdrawable_lamports_def saturating_sub_def sol_tripped_def)
  from sol_vault_has_history [OF sample_laws sample_find_law sol_reachable(4) this]
  show ?thesis by (simp add: sol_tripped_def sol_late_def)
qed



section \<open>Lamports are conserved\<close>

text \<open>
  C9: no instruction makes or loses a lamport. Over any set of accounts that has those the
  instruction may write, the sum of all balances is the same before and after. The two places where
  the program moves lamports by hand would break this if the two accounts were the same; that
  a vault never signs rules it out.
\<close>

theorem lamports_conserved:
  assumes "runtime_laws rt" "funding_law rt" "wallets signers (accounts s)"
    and "dispatch rt signers ix s = Inr s'" "finite K" "set (mutable_keys ix) \<subseteq> K"
  shows "total_lamports K (accounts s') = total_lamports K (accounts s)"
  using dispatch_balanced [OF assms(1-4)] assms(5,6) unfolding balanced_def by blast

lemma sample_funding: "funding_law sample_rt"
  unfolding funding_law_def sample_rt_fields
proof (intro conjI allI impI)
  fix payer key space A A'
  assume "sample_init payer key space A = Inr A'"
  then show "balanced [payer, key] A A'"
    by (intro balanced_pair) (auto simp: sample_init_def Let_def saturating_sub_def unat_sub word_le_nat_alt
        split: if_splits)
next
  fix payer key w mnt prog A A'
  assume "sample_create payer key w mnt prog A = Inr A'"
  then show "balanced [payer, key] A A'"
    by (intro balanced_pair) (auto simp: sample_create_def unat_sub word_le_nat_alt unat_word_ariths split: if_splits)
next
  fix prog key dst auth A A'
  assume "sample_close prog key dst auth A = Inr A'"
  then show "lamports (A' key) = 0"
    by (auto simp: sample_close_def split: account_data.splits if_splits)
qed

theorem lamports_conserved_witness:
  "total_lamports {1, 77, 1565} (accounts spl_closed) = total_lamports {1, 77, 1565} (accounts spl_decoy)"
  by (rule lamports_conserved [OF sample_laws sample_funding late_wallets(2) spl_close_step]) simp_all

section \<open>The arithmetic never fails\<close>

text \<open>
  C10: in a reachable chain whose lamports fit \<open>u64\<close> together and whose clock is ten years from the end
  of \<open>i64\<close>, no instruction ever panics, whatever its accounts, arguments and signers: no slice is out
  of range and no unwrapped sum overflows. And \<open>MathOverflow\<close> means one thing only, a heir table whose
  shares overflow \<open>u16\<close>: deadlines, shares of a pool and transfers never do.
\<close>

theorem arithmetic_never_fails:
  assumes "runtime_laws rt" "find_program_address_law rt" "reachable rt s" "wallets signers (accounts s)"
    and "\<And>K. finite K \<Longrightarrow> total_lamports K (accounts s) < 2 ^ 64"
    and "sint (unix_timestamp s) + 315360000 < 2 ^ 63"
  shows "dispatch rt signers ix s \<noteq> Inl Panicked \<and>
    (shares_fit ix \<longrightarrow> dispatch rt signers ix s \<noteq> Inl (Dms MathOverflow))"
  using dispatch_calm [OF assms(1) reachable_ok [OF assms(1-3)] assms(4-6), of False ix]
    dispatch_calm [OF assms(1) reachable_ok [OF assms(1-3)] assms(4-6), of True ix]
  unfolding calm_def by blast

lemma total_lamports_support:
  assumes "finite K" "finite S" "\<And>k. k \<notin> S \<Longrightarrow> lamports (A k) = 0"
  shows "total_lamports K A \<le> total_lamports S A"
proof -
  have "total_lamports K A = (\<Sum>k\<in>K \<inter> S. unat (lamports (A k)))"
    unfolding total_lamports_def using assms by (intro sum.mono_neutral_right) auto
  also have "\<dots> \<le> total_lamports S A"
    unfolding total_lamports_def using assms by (intro sum_mono2) auto
  finally show ?thesis .
qed

theorem arithmetic_never_fails_witness:
  "dispatch sample_rt [3] (ClaimSol 3 1564) sol_tripped \<noteq> Inl Panicked \<and>
   dispatch sample_rt [3] (ClaimSol 3 1564) sol_tripped \<noteq> Inl (Dms MathOverflow)"
proof -
  have "total_lamports K (accounts sol_tripped) < 2 ^ 64" if "finite K" for K
    using total_lamports_support [OF that, of "{1, 2, 3, 4, 5, 50, 105006, 1564}" "accounts sol_tripped"]
    by (simp add: total_lamports_def sol_chain_defs account_defs)
  moreover have "wallets [3] (accounts sol_tripped)"
    by (simp add: wallets_def vault_at_def sol_chain_defs account_defs)
  ultimately show ?thesis
    using arithmetic_never_fails [OF sample_laws sample_find_law sol_reachable(4), of "[3]" "ClaimSol 3 1564"]
    by (simp add: sol_tripped_def sol_late_def)
qed

end
