(* ===== verification/Postgres_Store.thy ===== *)
theory Postgres_Store
  imports Keeper_Store
begin

text \<open>
  The Postgres cache of the keeper (\<open>keeper/internal/store/postgres.go\<close>): a table of rows with the
  address as primary key, replaced by one transaction per scan. What the sources leave to others is
  the record \<open>database\<close>: the text of a key (base 58, the Solana library), the JSON of a heir table as
  the column gives it back, and the order of rows that an ORDER BY leaves open. A query that the
  database refuses is only its error; the reading starts from the rows it answers. The locale
  \<open>vault_cache\<close> holds for it, on vaults with times in whole seconds.
\<close>

section \<open>The table\<close>

text \<open>
  NUMERIC columns are numbers, written and read as decimal text; a TIMESTAMPTZ is a number of
  microseconds; SMALLINT holds the bump.
\<close>

record 'j row =
  row_address :: string
  row_owner :: string
  row_vault_id :: nat
  row_mint :: "string option"
  row_last_check_in :: int
  row_timeout_seconds :: i64
  row_is_claimed :: bool
  row_claim_pool :: nat
  row_lamports :: nat
  row_bump :: "16 word"
  row_beneficiaries :: 'j

record 'j database =
  key_text :: "pubkey \<Rightarrow> string"
  text_key :: "string \<Rightarrow> pubkey option"
  heirs_json :: "go_beneficiary list \<Rightarrow> 'j"
  json_heirs :: "'j \<Rightarrow> go_beneficiary list option"
  order_rows :: "('j row \<Rightarrow> int) \<Rightarrow> 'j row list \<Rightarrow> 'j row list"

definition database_laws :: "'j database \<Rightarrow> bool" where
  "database_laws db \<longleftrightarrow> (\<forall>k. text_key db (key_text db k) = Some k) \<and>
     (\<forall>hs. json_heirs db (heirs_json db hs) = Some hs) \<and>
     (\<forall>f rows. mset (order_rows db f rows) = mset rows \<and> sorted (map f (order_rows db f rows)))"

text \<open>\<open>strconv.FormatUint\<close> in base 10, and \<open>ParseUint\<close> with 64 bits.\<close>

definition format_uint :: "u64 \<Rightarrow> string" where
  "format_uint w = decimal (unat w)"

definition parse_uint :: "string \<Rightarrow> u64 option" where
  "parse_uint cs =
     (if cs \<noteq> [] \<and> list_all digit cs \<and> read_decimal cs < 2 ^ 64
      then Some (of_nat (read_decimal cs)) else None)"

lemma parse_format: "parse_uint (decimal (unat w)) = Some w"
  using unat_less [of w] by (simp add: parse_uint_def read_decimal decimal_digits decimal_not_Nil)

section \<open>Replacing the table\<close>

definition row_of :: "'j database \<Rightarrow> go_vault \<Rightarrow> 'j row" where
  "row_of db g = \<lparr>row_address = key_text db (gv_address g), row_owner = key_text db (gv_owner g),
     row_vault_id = read_decimal (format_uint (gv_vault_id g)),
     row_mint = map_option (key_text db) (gv_mint g),
     row_last_check_in = gv_last_check_in g div 1000,
     row_timeout_seconds = whole_seconds (gv_timeout g), row_is_claimed = gv_is_claimed g,
     row_claim_pool = read_decimal (format_uint (gv_claim_pool g)),
     row_lamports = read_decimal (format_uint (gv_lamports g)), row_bump = ucast (gv_bump g),
     row_beneficiaries = heirs_json db (gv_beneficiaries g)\<rparr>"

text \<open>
  \<open>INSERT ... ON CONFLICT (address) DO UPDATE\<close> of all columns. The place of a row in the table means
  nothing: no query relies on it.
\<close>

definition upsert :: "'j row \<Rightarrow> 'j row list \<Rightarrow> 'j row list" where
  "upsert r rows = filter (\<lambda>q. row_address q \<noteq> row_address r) rows @ [r]"

datatype pg_error =
    BeginFailed
  | UpsertFailed pubkey
  | PruneFailed
  | CommitFailed

text \<open>\<open>refuses n\<close>: the database fails the \<open>n\<close>-th statement of the transaction.\<close>

fun upsert_all ::
    "'j database \<Rightarrow> (nat \<Rightarrow> bool) \<Rightarrow> nat \<Rightarrow> go_vault list \<Rightarrow> 'j row list \<Rightarrow> pg_error + nat \<times> 'j row list" where
  "upsert_all db refuses n [] rows = Inr (n, rows)"
| "upsert_all db refuses n (g # gs) rows =
     (if refuses n then Inl (UpsertFailed (gv_address g))
      else upsert_all db refuses (Suc n) gs (upsert (row_of db g) rows))"

definition pg_replace_tx ::
    "'j database \<Rightarrow> (nat \<Rightarrow> bool) \<Rightarrow> go_vault list \<Rightarrow> 'j row list \<Rightarrow> pg_error + 'j row list" where
  "pg_replace_tx db refuses gs rows =
     and_then (require (\<not> refuses 0) BeginFailed) (\<lambda>_.
     and_then (upsert_all db refuses 1 gs rows) (\<lambda>(n, rows').
     and_then (require (\<not> refuses n) PruneFailed) (\<lambda>_.
     let addresses = map (\<lambda>g. key_text db (gv_address g)) gs;
         pruned = filter (\<lambda>r. row_address r \<in> set addresses) rows'
     in and_then (require (\<not> refuses (Suc n)) CommitFailed) (\<lambda>_. Inr pruned))))"

text \<open>A transaction that fails is rolled back.\<close>

definition pg_table_after :: "pg_error + 'j row list \<Rightarrow> 'j row list \<Rightarrow> 'j row list" where
  "pg_table_after result rows = (case result of Inl _ \<Rightarrow> rows | Inr rows' \<Rightarrow> rows')"

section \<open>Reading it\<close>

datatype scan_error =
    BadAddress
  | BadOwner
  | BadMint
  | BadVaultId
  | BadClaimPool
  | BadLamports
  | BadHeirs

definition scan_row :: "'j database \<Rightarrow> 'j row \<Rightarrow> scan_error + go_vault" where
  "scan_row db r =
     and_then (ok_or (text_key db (row_address r)) BadAddress) (\<lambda>addr.
     and_then (ok_or (text_key db (row_owner r)) BadOwner) (\<lambda>own.
     and_then (case row_mint r of
                 None \<Rightarrow> Inr None
               | Some m \<Rightarrow> and_then (ok_or (text_key db m) BadMint) (\<lambda>k. Inr (Some k))) (\<lambda>mnt.
     and_then (ok_or (parse_uint (decimal (row_vault_id r))) BadVaultId) (\<lambda>ident.
     and_then (ok_or (parse_uint (decimal (row_claim_pool r))) BadClaimPool) (\<lambda>pool.
     and_then (ok_or (parse_uint (decimal (row_lamports r))) BadLamports) (\<lambda>balance.
     and_then (ok_or (json_heirs db (row_beneficiaries r)) BadHeirs) (\<lambda>hs.
       Inr \<lparr>gv_address = addr, gv_owner = own, gv_vault_id = ident, gv_mint = mnt,
         gv_last_check_in = row_last_check_in r * 1000,
         gv_timeout = seconds_duration (row_timeout_seconds r), gv_beneficiaries = hs,
         gv_is_claimed = row_is_claimed r, gv_claim_pool = pool, gv_bump = ucast (row_bump r),
         gv_lamports = balance\<rparr>)))))))"

fun scan_vaults :: "'j database \<Rightarrow> 'j row list \<Rightarrow> scan_error + go_vault list" where
  "scan_vaults db [] = Inr []"
| "scan_vaults db (r # rows) =
     and_then (scan_row db r) (\<lambda>g. and_then (scan_vaults db rows) (\<lambda>gs. Inr (g # gs)))"

definition row_deadline :: "'j row \<Rightarrow> int" where
  "row_deadline r = row_last_check_in r + sint (row_timeout_seconds r) * 1000000"

definition pg_list :: "'j database \<Rightarrow> 'j row list \<Rightarrow> scan_error + go_vault list" where
  "pg_list db rows = scan_vaults db (order_rows db row_deadline rows)"

text \<open>\<open>Get\<close> answers \<open>ErrNotFound\<close> (here None) when no row has the address.\<close>

definition pg_get :: "'j database \<Rightarrow> 'j row list \<Rightarrow> pubkey \<Rightarrow> scan_error + go_vault option" where
  "pg_get db rows addr =
     and_then (scan_vaults db (filter (\<lambda>r. row_address r = key_text db addr) rows)) (\<lambda>vaults.
       case vaults of [] \<Rightarrow> Inr None | g # _ \<Rightarrow> Inr (Some g))"

definition pg_by_owner :: "'j database \<Rightarrow> 'j row list \<Rightarrow> pubkey \<Rightarrow> scan_error + go_vault list" where
  "pg_by_owner db rows own =
     scan_vaults db (order_rows db (\<lambda>r. int (row_vault_id r))
       (filter (\<lambda>r. row_owner r = key_text db own) rows))"

section \<open>Nothing is lost in the table\<close>

text \<open>What a row can hold: times of whole microseconds, timeouts of whole seconds.\<close>

definition storable :: "go_vault \<Rightarrow> bool" where
  "storable g \<longleftrightarrow> 1000 dvd gv_last_check_in g \<and> seconds_duration (whole_seconds (gv_timeout g)) = gv_timeout g"

lemma storable_seen:
  assumes "vault_inv v"
  shows "storable (seen_vault A key v)"
proof -
  have "whole_seconds (seconds_duration (timeout_seconds v)) = timeout_seconds v"
    using assms whole_seconds_duration [of "timeout_seconds v"] by (simp add: vault_inv_def)
  then show ?thesis
    by (simp add: storable_def seen_vault_def view_vault_def time_unix_def)
qed

lemma ucast_bump: "ucast (ucast b :: 16 word) = (b :: u8)"
  by (simp add: ucast_up_ucast_id is_up)

lemma scan_row_of:
  assumes "database_laws db" "storable g"
  shows "scan_row db (row_of db g) = Inr g"
  using assms
  by (cases "gv_mint g")
     (simp_all add: scan_row_def row_of_def database_laws_def storable_def format_uint_def read_decimal parse_format
       ucast_bump)

lemma scan_vaults_Inr:
  "scan_vaults db rows = Inr gs \<longleftrightarrow> list_all2 (\<lambda>r g. scan_row db r = Inr g) rows gs"
  by (induction rows arbitrary: gs) (auto simp: and_then_eq_Inr list_all2_Cons1)

lemma scan_rows_of:
  assumes "database_laws db" "list_all storable gs" "mset rows = mset (map (row_of db) gs)"
  shows "\<exists>gs'. scan_vaults db rows = Inr gs' \<and> mset gs' = mset gs \<and> rows = map (row_of db) gs'"
proof -
  let ?vault = "\<lambda>r. projr (scan_row db r)"
  have row: "\<exists>g. storable g \<and> r = row_of db g" if "r \<in> set rows" for r
    using that arg_cong [OF assms(3), of set_mset] assms(2) by (auto simp: list_all_iff)
  have inv: "scan_row db r = Inr (?vault r) \<and> row_of db (?vault r) = r" if "r \<in> set rows" for r
    using row [OF that] scan_row_of [OF assms(1)] by auto
  have "mset (map ?vault rows) = image_mset (\<lambda>g. ?vault (row_of db g)) (mset gs)"
    using assms(3) by (simp add: multiset.map_comp comp_def)
  also have "\<dots> = image_mset (\<lambda>g. g) (mset gs)"
    using assms(2) scan_row_of [OF assms(1)] by (intro image_mset_cong) (auto simp: list_all_iff)
  finally have "mset (map ?vault rows) = mset gs" by simp
  moreover have "rows = map (row_of db) (map ?vault rows)"
    using inv by (simp add: map_idI)
  moreover have "scan_vaults db rows = Inr (map ?vault rows)"
    unfolding scan_vaults_Inr list_all2_map2 using inv by (intro list.rel_refl_strong) blast
  ultimately show ?thesis by blast
qed

section \<open>The contract of a store\<close>

lemma key_text_inject:
  "database_laws db \<Longrightarrow> key_text db k = key_text db k' \<longleftrightarrow> k = k'"
  unfolding database_laws_def by (metis option.inject)

lemma row_of_fields [simp]:
  "row_address (row_of db g) = key_text db (gv_address g)" "row_owner (row_of db g) = key_text db (gv_owner g)"
  by (simp_all add: row_of_def)

lemma upsert_all_rows:
  assumes "database_laws db" "distinct (map gv_address gs)"
  shows "upsert_all db (\<lambda>_. False) n gs rows = Inr (n + length gs,
    filter (\<lambda>r. row_address r \<notin> key_text db ` gv_address ` set gs) rows @ map (row_of db) gs)"
  using assms(2)
proof (induction gs arbitrary: n rows)
  case (Cons g gs)
  have "row_address (row_of db g) \<notin> key_text db ` gv_address ` set gs"
    using Cons.prems key_text_inject [OF assms(1)] by auto
  then show ?case
    using Cons by (simp add: upsert_def conj_commute filter_append)
qed simp

lemma pg_replace_rows:
  assumes "database_laws db" "distinct (map gv_address gs)"
  shows "pg_replace_tx db (\<lambda>_. False) gs rows = Inr (map (row_of db) gs)"
proof -
  have "filter (\<lambda>r. row_address r \<in> key_text db ` gv_address ` set gs) (map (row_of db) gs) = map (row_of db) gs"
    by (rule filter_True) auto
  then show ?thesis
    by (simp add: pg_replace_tx_def upsert_all_rows [OF assms] Let_def image_image)
qed

text \<open>A failed transaction, whichever statement failed, changes nothing.\<close>

lemma pg_replace_rollback:
  "pg_replace_tx db refuses gs rows = Inl e \<Longrightarrow> pg_table_after (pg_replace_tx db refuses gs rows) rows = rows"
  by (simp add: pg_table_after_def)

text \<open>The operations as a \<open>Store\<close>, when the database answers.\<close>

definition pg_replace :: "'j database \<Rightarrow> go_vault list \<Rightarrow> 'j row list \<Rightarrow> 'j row list" where
  "pg_replace db gs rows = pg_table_after (pg_replace_tx db (\<lambda>_. False) gs rows) rows"

definition answered :: "'e + go_vault list \<Rightarrow> go_vault option list" where
  "answered r = (case r of Inl _ \<Rightarrow> [] | Inr gs \<Rightarrow> map Some gs)"

lemma find_filter: "find P xs = (case filter P xs of [] \<Rightarrow> None | x # _ \<Rightarrow> Some x)"
  by (induction xs) simp_all

lemma pg_replace_table:
  "database_laws db \<Longrightarrow> distinct (map gv_address gs) \<Longrightarrow> pg_replace db gs rows = map (row_of db) gs"
  by (simp add: pg_replace_def pg_table_after_def pg_replace_rows)

lemma pg_get_replace:
  assumes "database_laws db" "distinct (map gv_address gs)" "list_all storable gs"
  shows "pg_get db (pg_replace db gs rows) a = Inr (find (\<lambda>g. gv_address g = a) gs)"
proof -
  have "filter (\<lambda>r. row_address r = key_text db a) (map (row_of db) gs)
      = map (row_of db) (filter (\<lambda>g. gv_address g = a) gs)"
    by (simp add: filter_map comp_def key_text_inject [OF assms(1)])
  moreover have "scan_vaults db (map (row_of db) hs) = Inr hs" if "list_all storable hs" for hs
    unfolding scan_vaults_Inr list_all2_map1 using that scan_row_of [OF assms(1)]
    by (intro list.rel_refl_strong) (auto simp: list_all_iff)
  moreover have "list_all storable (filter (\<lambda>g. gv_address g = a) gs)" using assms(3) by (auto simp: list_all_iff)
  ultimately show ?thesis
    by (simp add: pg_replace_table [OF assms(1,2)] pg_get_def find_filter split: list.split)
qed

lemma postgres_cache:
  assumes "database_laws db"
  shows "vault_cache (pg_replace db) (\<lambda>rows. answered (pg_list db rows))
    (\<lambda>rows a. case pg_get db rows a of Inl _ \<Rightarrow> None | Inr g \<Rightarrow> g)
    (\<lambda>rows own. answered (pg_by_owner db rows own)) storable"
proof
  fix gs :: "go_vault list" and rows :: "'a row list" and a own :: pubkey
  assume gs: "distinct (map gv_address gs)" "list_all storable gs"
  note table = pg_replace_table [OF assms gs(1)]
  have order: "mset (order_rows db f xs) = mset xs" for f xs
    using assms by (simp add: database_laws_def)
  obtain gs' where "pg_list db (map (row_of db) gs) = Inr gs'" "mset gs' = mset gs"
    using scan_rows_of [OF assms gs(2) order] unfolding pg_list_def by blast
  then show "mset (answered (pg_list db (pg_replace db gs rows))) = mset (map Some gs)"
    by (simp add: table answered_def)
  show "(case pg_get db (pg_replace db gs rows) a of Inl _ \<Rightarrow> None | Inr g \<Rightarrow> g)
      = find (\<lambda>g. gv_address g = a) gs"
    by (simp add: pg_get_replace [OF assms gs])
  let ?own = "filter (\<lambda>g. gv_owner g = own) gs"
  have "filter (\<lambda>r. row_owner r = key_text db own) (map (row_of db) gs) = map (row_of db) ?own"
    by (simp add: filter_map comp_def key_text_inject [OF assms])
  moreover have "list_all storable ?own" using gs(2) by (auto simp: list_all_iff)
  ultimately obtain gs'' where "pg_by_owner db (map (row_of db) gs) own = Inr gs''" "mset gs'' = mset ?own"
    using scan_rows_of [OF assms _ order] unfolding pg_by_owner_def by metis
  then show "mset (answered (pg_by_owner db (pg_replace db gs rows) own)) = mset (map Some ?own)"
    by (simp add: table answered_def)
qed

end
