(* ===== verification/Keeper_Api.thy ===== *)
theory Keeper_Api
  imports Postgres_Store Reminders
begin

text \<open>
  The read-only API of the keeper (\<open>keeper/internal/api/api.go\<close>) over any store, and the settings
  that the API and the reminders share (\<open>keeper/internal/config/config.go\<close>). An answer is a status code
  and a body; its rendering as JSON, the percentages in it, HTTP and the routing of paths are left
  out. \<open>parse_key\<close>, the parser of base 58, is an argument.
\<close>

section \<open>Views\<close>

record beneficiary_view =
  bv_address :: pubkey
  bv_share_bps :: u16
  bv_claimed :: bool

record vault_view =
  vw_address :: pubkey
  vw_owner :: pubkey
  vw_vault_id :: u64
  vw_asset :: string
  vw_mint :: "pubkey option"
  vw_status :: go_status
  vw_last_check_in :: int
  vw_deadline :: int
  vw_seconds_left :: int
  vw_timeout_secs :: int
  vw_lamports :: u64
  vw_claim_pool :: u64
  vw_beneficiaries :: "beneficiary_view list"

definition view_beneficiary :: "go_beneficiary \<Rightarrow> beneficiary_view" where
  "view_beneficiary heir = \<lparr>bv_address = gb_address heir, bv_share_bps = gb_share_bps heir,
     bv_claimed = gb_claimed heir\<rparr>"

definition api_view :: "i64 \<Rightarrow> go_vault \<Rightarrow> int \<Rightarrow> vault_view" where
  "api_view due_soon g now =
     \<lparr>vw_address = gv_address g, vw_owner = gv_owner g, vw_vault_id = gv_vault_id g,
      vw_asset = (if go_is_sol g then ''SOL'' else ''SPL''), vw_mint = gv_mint g,
      vw_status = go_status_of g now due_soon, vw_last_check_in = gv_last_check_in g,
      vw_deadline = go_deadline g, vw_seconds_left = go_time_left g now sdiv 1000000000,
      vw_timeout_secs = sint (gv_timeout g) sdiv 1000000000, vw_lamports = gv_lamports g,
      vw_claim_pool = gv_claim_pool g, vw_beneficiaries = map view_beneficiary (gv_beneficiaries g)\<rparr>"

section \<open>Answers\<close>

datatype api_body =
    Healthy nat
  | VaultList "vault_view list" nat
  | OneVault vault_view
  | Failed string

datatype api_answer = Answer nat api_body

fun status_text :: "go_status \<Rightarrow> string" where
  "status_text StatusActive = ''active''"
| "status_text StatusDueSoon = ''due_soon''"
| "status_text StatusExpired = ''expired''"
| "status_text StatusTriggered = ''triggered''"

definition api_health :: "'e + go_vault list \<Rightarrow> api_answer" where
  "api_health listed =
     (case listed of
        Inl _ \<Rightarrow> Answer 503 (Failed ''store unavailable'')
      | Inr gs \<Rightarrow> Answer 200 (Healthy (length gs)))"

text \<open>The loop of \<open>respondVaults\<close>: an empty \<open>wanted\<close> asks for every status.\<close>

fun wanted_views :: "i64 \<Rightarrow> string \<Rightarrow> int \<Rightarrow> go_vault list \<Rightarrow> vault_view list" where
  "wanted_views due_soon wanted now [] = []"
| "wanted_views due_soon wanted now (g # gs) =
     (let vw = api_view due_soon g now
      in if wanted \<noteq> '''' \<and> status_text (vw_status vw) \<noteq> wanted
         then wanted_views due_soon wanted now gs
         else vw # wanted_views due_soon wanted now gs)"

definition respond_vaults :: "i64 \<Rightarrow> string \<Rightarrow> int \<Rightarrow> go_vault list \<Rightarrow> api_answer" where
  "respond_vaults due_soon wanted now gs =
     (let views = wanted_views due_soon wanted now gs in Answer 200 (VaultList views (length views)))"

definition api_list_vaults :: "i64 \<Rightarrow> string \<Rightarrow> int \<Rightarrow> 'e + go_vault list \<Rightarrow> api_answer" where
  "api_list_vaults due_soon wanted now listed =
     (case listed of
        Inl _ \<Rightarrow> Answer 500 (Failed ''could not list vaults'')
      | Inr gs \<Rightarrow> respond_vaults due_soon wanted now gs)"

definition api_get_vault ::
    "(string \<Rightarrow> pubkey option) \<Rightarrow> i64 \<Rightarrow> string \<Rightarrow> int \<Rightarrow> (pubkey \<Rightarrow> 'e + go_vault option) \<Rightarrow> api_answer" where
  "api_get_vault parse_key due_soon path now lookup =
     (case parse_key path of
        None \<Rightarrow> Answer 400 (Failed ''address is not a valid public key'')
      | Some addr \<Rightarrow>
          (case lookup addr of
             Inl _ \<Rightarrow> Answer 500 (Failed ''could not read vault'')
           | Inr None \<Rightarrow> Answer 404 (Failed ''no such vault'')
           | Inr (Some g) \<Rightarrow> Answer 200 (OneVault (api_view due_soon g now))))"

definition api_list_by_owner ::
    "(string \<Rightarrow> pubkey option) \<Rightarrow> i64 \<Rightarrow> string \<Rightarrow> string \<Rightarrow> int \<Rightarrow> (pubkey \<Rightarrow> 'e + go_vault list) \<Rightarrow> api_answer" where
  "api_list_by_owner parse_key due_soon path wanted now by_owner =
     (case parse_key path of
        None \<Rightarrow> Answer 400 (Failed ''owner is not a valid public key'')
      | Some own \<Rightarrow>
          (case by_owner own of
             Inl _ \<Rightarrow> Answer 500 (Failed ''could not list vaults'')
           | Inr gs \<Rightarrow> respond_vaults due_soon wanted now gs))"

lemma wanted_views_filter:
  "wanted_views due_soon wanted now gs =
     filter (\<lambda>vw. wanted = '''' \<or> status_text (vw_status vw) = wanted) (map (\<lambda>g. api_view due_soon g now) gs)"
  by (induction gs) (auto simp: Let_def)

lemma status_text_inject: "status_text a = status_text b \<longleftrightarrow> a = b"
  by (cases a; cases b) simp_all

section \<open>Settings\<close>

text \<open>
  \<open>os.Getenv\<close> gives the empty string for a variable that is not set. What \<open>time.ParseDuration\<close> makes of
  a text is an argument: it goes through floating point for fractions.
\<close>

record config =
  cfg_rpc_endpoint :: string
  cfg_program_id :: pubkey
  cfg_scan_interval :: i64
  cfg_thresholds :: "i64 list"
  cfg_due_soon :: i64
  cfg_listen_addr :: string
  cfg_postgres_dsn :: string
  cfg_telegram_token :: string
  cfg_telegram_chat_id :: string

datatype config_error =
    BadProgramId
  | BadInterval
  | IntervalTooShort
  | BadThreshold string
  | NotPositive string
  | NoThresholds
  | HalfATelegram

definition env_or :: "(string \<Rightarrow> string) \<Rightarrow> string \<Rightarrow> string \<Rightarrow> string" where
  "env_or getenv key fallback = (let v = getenv key in if v \<noteq> '''' then v else fallback)"

definition env_duration ::
    "(string \<Rightarrow> i64 option) \<Rightarrow> (string \<Rightarrow> string) \<Rightarrow> string \<Rightarrow> i64 \<Rightarrow> config_error + i64" where
  "env_duration parse getenv key fallback =
     (let raw = getenv key in if raw = '''' then Inr fallback else ok_or (parse raw) BadInterval)"

text \<open>\<open>strings.Split\<close> at a comma, and \<open>strings.TrimSpace\<close> on ASCII text.\<close>

fun split_commas :: "string \<Rightarrow> string list" where
  "split_commas [] = [[]]"
| "split_commas (c # cs) =
     (if c = CHR '','' then [] # split_commas cs
      else case split_commas cs of [] \<Rightarrow> [[c]] | part # parts \<Rightarrow> (c # part) # parts)"

definition blank :: "char \<Rightarrow> bool" where
  "blank c \<longleftrightarrow> (of_char c :: nat) \<in> {9, 10, 11, 12, 13, 32}"

definition trim_space :: "string \<Rightarrow> string" where
  "trim_space cs = rev (dropWhile blank (rev (dropWhile blank cs)))"

fun parse_thresholds :: "(string \<Rightarrow> i64 option) \<Rightarrow> string list \<Rightarrow> config_error + i64 list" where
  "parse_thresholds parse [] = Inr []"
| "parse_thresholds parse (part # parts) =
     (let part = trim_space part
      in if part = '''' then parse_thresholds parse parts
         else and_then (ok_or (parse part) (BadThreshold part)) (\<lambda>d.
              and_then (require (0 < sint d) (NotPositive part)) (\<lambda>_.
              and_then (parse_thresholds parse parts) (\<lambda>ds. Inr (d # ds)))))"

definition go_hour :: i64 where
  "go_hour = 3600000000000"

definition default_thresholds :: "i64 list" where
  "default_thresholds = [14 * 24 * go_hour, 7 * 24 * go_hour, 24 * go_hour, go_hour]"

definition config_thresholds ::
    "(string \<Rightarrow> i64 option) \<Rightarrow> (string \<Rightarrow> string) \<Rightarrow> config_error + i64 list" where
  "config_thresholds parse getenv =
     (let raw = getenv ''DMS_REMIND_AT''
      in if raw = '''' then Inr default_thresholds
         else and_then (parse_thresholds parse (split_commas raw)) (\<lambda>out.
              and_then (require (out \<noteq> []) NoThresholds) (\<lambda>_. Inr (rev (sort_key sint out)))))"

definition load_config ::
    "(string \<Rightarrow> pubkey option) \<Rightarrow> (string \<Rightarrow> i64 option) \<Rightarrow> (string \<Rightarrow> string) \<Rightarrow> config_error + config" where
  "load_config parse_key parse getenv =
     and_then (ok_or (parse_key (env_or getenv ''DMS_PROGRAM_ID'' ''9tfSr7zg9bGBfpSqqdwCACiSfAqsbdE4rNnwezFe5Ldm''))
                 BadProgramId) (\<lambda>program.
     and_then (env_duration parse getenv ''DMS_SCAN_INTERVAL'' 300000000000) (\<lambda>interval.
     and_then (require (1000000000 \<le> sint interval) IntervalTooShort) (\<lambda>_.
     and_then (config_thresholds parse getenv) (\<lambda>ts.
     let token = getenv ''DMS_TELEGRAM_TOKEN''; chat = getenv ''DMS_TELEGRAM_CHAT_ID''
     in and_then (require ((token = '''') = (chat = '''')) HalfATelegram) (\<lambda>_.
       Inr \<lparr>cfg_rpc_endpoint = env_or getenv ''DMS_RPC_ENDPOINT'' ''https://api.devnet.solana.com'',
            cfg_program_id = program, cfg_scan_interval = interval, cfg_thresholds = ts,
            cfg_due_soon = hd ts, cfg_listen_addr = env_or getenv ''DMS_LISTEN_ADDR'' '':8080'',
            cfg_postgres_dsn = getenv ''DMS_POSTGRES_DSN'', cfg_telegram_token = token,
            cfg_telegram_chat_id = chat\<rparr>)))))"

lemma parse_thresholds_positive:
  "parse_thresholds parse parts = Inr ds \<Longrightarrow> list_all (\<lambda>d. 0 < sint d) ds"
  by (induction parts arbitrary: ds) (auto simp: Let_def and_then_eq_Inr split: if_splits)

text \<open>Whatever the environment: at least one threshold, all positive, the widest first.\<close>

lemma config_thresholds_sorted:
  assumes "config_thresholds parse getenv = Inr ts"
  shows "ts \<noteq> []" "list_all (\<lambda>d. 0 < sint d) ts" "sorted (rev (map sint ts))"
proof -
  have "ts \<noteq> [] \<and> list_all (\<lambda>d. 0 < sint d) ts \<and> sorted (rev (map sint ts))"
  proof (cases "getenv ''DMS_REMIND_AT'' = ''''")
    case True
    then show ?thesis using assms by (auto simp: config_thresholds_def default_thresholds_def go_hour_def)
  next
    case False
    then obtain out where out: "parse_thresholds parse (split_commas (getenv ''DMS_REMIND_AT'')) = Inr out"
      "out \<noteq> []" "ts = rev (sort_key sint out)"
      using assms by (auto simp: config_thresholds_def Let_def and_then_eq_Inr split: if_splits)
    have "list_all (\<lambda>d. 0 < sint d) ts"
      using parse_thresholds_positive [OF out(1)] by (simp add: out(3) list_all_iff)
    moreover have "sort_key sint out \<noteq> []" using out(2) by (metis length_sort length_0_conv)
    ultimately show ?thesis by (simp add: out(3) rev_map)
  qed
  then show "ts \<noteq> []" "list_all (\<lambda>d. 0 < sint d) ts" "sorted (rev (map sint ts))" by auto
qed

lemma load_config_thresholds:
  assumes "load_config parse_key parse getenv = Inr cfg"
  shows "cfg_thresholds cfg \<noteq> []" "list_all (\<lambda>d. 0 < sint d) (cfg_thresholds cfg)"
    "sorted (rev (map sint (cfg_thresholds cfg)))" "cfg_due_soon cfg = hd (cfg_thresholds cfg)"
    "1000000000 \<le> sint (cfg_scan_interval cfg)"
proof -
  have "config_thresholds parse getenv = Inr (cfg_thresholds cfg) \<and> cfg_due_soon cfg = hd (cfg_thresholds cfg) \<and>
      1000000000 \<le> sint (cfg_scan_interval cfg)"
    using assms by (auto simp: load_config_def Let_def and_then_eq_Inr split: if_splits)
  then show "cfg_thresholds cfg \<noteq> []" "list_all (\<lambda>d. 0 < sint d) (cfg_thresholds cfg)"
    "sorted (rev (map sint (cfg_thresholds cfg)))" "cfg_due_soon cfg = hd (cfg_thresholds cfg)"
    "1000000000 \<le> sint (cfg_scan_interval cfg)"
    using config_thresholds_sorted by blast+
qed

text \<open>The tracker of a keeper with these settings keeps them as they are.\<close>

lemma new_tracker_config:
  assumes "list_all (\<lambda>d. 0 < sint d) ts" "sorted (rev (map sint ts))"
  shows "thresholds (new_tracker (map sint ts)) = map sint ts"
proof -
  have "filter (\<lambda>t. 0 < t) (map sint ts) = map sint ts"
    using assms(1) by (auto simp: list_all_iff intro: filter_True)
  moreover have "sort (map sint ts) = rev (map sint ts)"
    using assms(2) by (intro properties_for_sort) simp_all
  ultimately show ?thesis by (simp add: new_tracker_def)
qed

lemma crossed_iff_due_soon:
  assumes "ts \<noteq> []" "list_all (\<lambda>d. 0 < d) ts" "sorted (rev ts)" "(0::int) < left"
  shows "last_crossed ts left \<noteq> 0 \<longleftrightarrow> left \<le> hd ts"
proof
  assume "last_crossed ts left \<noteq> 0"
  then obtain th where "th \<in> set ts" "left \<le> th" using last_crossed_mem by blast
  moreover have "th \<le> hd ts" if "th \<in> set ts" for th
    using assms(1,3) that by (cases ts) (auto simp: sorted_append)
  ultimately show "left \<le> hd ts" by fastforce
next
  assume "left \<le> hd ts"
  moreover have "hd ts \<in> set ts" using assms(1) by simp
  ultimately show "last_crossed ts left \<noteq> 0" using last_crossed_least [OF assms(3,2)] by fastforce
qed

text \<open>
  The API and the reminders speak with one voice: on a vault nothing has been said about, the tracker has a
  reminder exactly when the API gives the vault a status that needs attention, and the reminder says the same.
\<close>

lemma api_and_reminders_agree:
  assumes "load_config parse_key parse getenv = Inr cfg"
    and "t = new_tracker (map sint (cfg_thresholds cfg))"
  shows "map_option rem_status (fst (tracker_due t g now)) =
    (let status = go_status_of g now (cfg_due_soon cfg)
     in if needs_attention status then Some status else None)"
proof (cases "gv_is_claimed g")
  case True
  then show ?thesis by (simp add: tracker_due_def go_status_of_def needs_attention_def)
next
  case False
  note cfg = load_config_thresholds [OF assms(1)]
  let ?ts = "map sint (cfg_thresholds cfg)" and ?left = "go_time_left g now"
  have ts: "thresholds t = ?ts" using new_tracker_config [OF cfg(2,3)] by (simp add: assms(2))
  have none: "fired_at t a due = {}" for a due by (simp add: assms(2) new_tracker_def fired_at_def)
  have late: "?left \<le> 0 \<longleftrightarrow> \<not> now < go_deadline g" by (auto simp: go_time_left_def)
  have "hd ?ts = sint (cfg_due_soon cfg)" using cfg(1,4) by (simp add: hd_map)
  moreover have "0 < ?left \<Longrightarrow> last_crossed ?ts ?left \<noteq> 0 \<longleftrightarrow> ?left \<le> hd ?ts"
    using cfg(1,2,3) by (intro crossed_iff_due_soon) (simp_all add: list_all_iff)
  ultimately show ?thesis
    using False late by (auto simp: tracker_due_eq Let_def ts none go_status_of_def make_reminder_def needs_attention_def)
qed

section \<open>Channels\<close>

text \<open>
  \<open>Multi\<close> of \<open>keeper/internal/notify/notify.go\<close> hands a reminder to every channel. A channel may change the
  world and may fail. The error says how many of how many failed, and how the first one did.
\<close>

fun notify_each ::
    "('r \<Rightarrow> 'w \<Rightarrow> 'e option \<times> 'w) list \<Rightarrow> 'r \<Rightarrow> 'w \<Rightarrow> 'e list \<Rightarrow> 'e list \<times> 'w" where
  "notify_each [] r w failures = (failures, w)"
| "notify_each (channel # channels) r w failures =
     (case channel r w of
        (None, w') \<Rightarrow> notify_each channels r w' failures
      | (Some e, w') \<Rightarrow> notify_each channels r w' (failures @ [e]))"

definition multi_notify ::
    "('r \<Rightarrow> 'w \<Rightarrow> 'e option \<times> 'w) list \<Rightarrow> 'r \<Rightarrow> 'w \<Rightarrow> (nat \<times> nat \<times> 'e) option \<times> 'w" where
  "multi_notify channels r w =
     (case notify_each channels r w [] of (failures, w') \<Rightarrow>
       (if failures = [] then None else Some (length failures, length channels, hd failures), w'))"

text \<open>No failure keeps a later channel from being asked.\<close>

lemma notify_each_world:
  "snd (notify_each channels r w failures) = fold (\<lambda>channel w. snd (channel r w)) channels w"
  by (induction channels arbitrary: w failures) (auto split: prod.split option.split)

lemma multi_notify_asks_all:
  "snd (multi_notify channels r w) = fold (\<lambda>channel w. snd (channel r w)) channels w"
  using notify_each_world [of channels r w "[]"] by (simp add: multi_notify_def split_beta)

section \<open>The API over a cache\<close>

context vault_cache
begin

lemma vault_is_served:
  assumes "distinct (map gv_address gs)" "list_all storable gs" "parse_key path = Some key"
  shows "api_get_vault parse_key due_soon path now (\<lambda>a. Inr (lookup (replace gs s) a)) =
    (case find (\<lambda>g. gv_address g = key) gs of
       None \<Rightarrow> Answer 404 (Failed ''no such vault'')
     | Some g \<Rightarrow> Answer 200 (OneVault (api_view due_soon g now)))"
  using assms by (simp add: api_get_vault_def lookup_replace split: option.split)

end

end
