(* ===== verification/Keeper_Properties.thy ===== *)
theory Keeper_Properties
  imports Keeper_Api Scenarios
begin

text \<open>
  What the keeper's API tells of the chain, over either store, and that it agrees with the
  reminders.
\<close>

section \<open>The API tells the chain\<close>

text \<open>What the API should answer to a request for the vault at an address.\<close>

definition chain_answer :: "i64 \<Rightarrow> chain \<Rightarrow> pubkey \<Rightarrow> int \<Rightarrow> api_answer" where
  "chain_answer due_soon s key now =
     (case vault_at (accounts s) key of
        None \<Rightarrow> Answer 404 (Failed ''no such vault'')
      | Some v \<Rightarrow> Answer 200 (OneVault (api_view due_soon (seen_vault (accounts s) key v) now)))"

definition seen_by :: "ledger \<Rightarrow> pubkey \<Rightarrow> go_vault" where
  "seen_by A k = seen_vault A k (the (vault_at A k))"

lemma seen_by_address [simp]: "gv_address (seen_by A k) = k"
  by (simp add: seen_by_def seen_vault_def view_vault_def)

text \<open>What a scan that is true to a ledger, and complete, hands to a store.\<close>

lemma true_scan:
  assumes "true_answer A accs" "fst ` set accs = {k. vault_at A k \<noteq> None}"
    and inv: "\<And>k v. vault_at A k = Some v \<Longrightarrow> vault_inv v"
  shows "\<exists>vs. fetch_vaults accs = Inr vs \<and> distinct (map gv_address vs) \<and> list_all storable vs \<and>
    (\<forall>key. find (\<lambda>g. gv_address g = key) vs = map_option (seen_vault A key) (vault_at A key))"
proof -
  let ?vs = "map (seen_by A) (map fst accs)"
  have "fetch_vaults accs = Inr (map (\<lambda>(k, balance, bytes). seen_vault A k (the (vault_at A k))) accs)"
    by (rule fetch_true_answer [OF assms(1) inv])
  then have "fetch_vaults accs = Inr ?vs" by (simp add: seen_by_def [abs_def] split_beta comp_def)
  moreover have dist: "distinct (map gv_address ?vs)"
    using assms(1) by (simp add: comp_def true_answer_def)
  moreover have "storable (seen_by A k)" if "k \<in> fst ` set accs" for k
  proof -
    from that assms(2) obtain v where v: "vault_at A k = Some v" by auto
    from storable_seen [OF inv [OF v]] show ?thesis by (simp add: seen_by_def v)
  qed
  then have "list_all storable ?vs" by (simp add: list_all_iff)
  moreover have "find (\<lambda>g. gv_address g = key) ?vs = map_option (seen_vault A key) (vault_at A key)" for key
  proof (cases "vault_at A key")
    case None
    then have "key \<notin> gv_address ` set ?vs" using assms(2) by (auto simp: image_image)
    then have "find (\<lambda>g. gv_address g = key) ?vs = None" unfolding find_key_None .
    then show ?thesis using None by simp
  next
    case (Some v)
    then have "key \<in> fst ` set accs" using assms(2) by simp
    then have "seen_by A key \<in> set ?vs" unfolding set_map by (intro imageI)
    from find_key [OF dist this] have "find (\<lambda>g. gv_address g = key) ?vs = Some (seen_by A key)"
      unfolding seen_by_address .
    then show ?thesis using Some by (simp add: seen_by_def)
  qed
  ultimately show ?thesis by blast
qed

lemma seen_view:
  assumes "vault_inv v" and vw: "vw = api_view due_soon (seen_vault A key v) (time_unix t)"
  shows "vw_status vw = StatusExpired \<longleftrightarrow> \<not> is_claimed v \<and> is_expired v t = Inr True"
    and "vw_lamports vw = lamports (A key)" "vw_claim_pool vw = claim_pool v"
    and "\<exists>d. deadline v = Inr d \<and> vw_deadline vw = time_unix d"
proof -
  obtain d where d: "deadline v = Inr d" "go_deadline (view_vault key v) = sint d * 1000000000"
    using keeper_deadline [OF assms(1)] by blast
  show "vw_status vw = StatusExpired \<longleftrightarrow> \<not> is_claimed v \<and> is_expired v t = Inr True"
    using d by (auto simp: vw api_view_def go_status_of_def seen_vault_def is_expired_def time_unix_def)
       (auto simp: view_vault_def)
  show "vw_lamports vw = lamports (A key)" "vw_claim_pool vw = claim_pool v"
    by (simp_all add: vw api_view_def seen_vault_def view_vault_def)
  show "\<exists>d. deadline v = Inr d \<and> vw_deadline vw = time_unix d"
    using d by (simp add: vw api_view_def seen_vault_def time_unix_def)
qed

text \<open>
  C36: the API tells the chain. After a scan of a reachable chain, whose vaults the node returned as they are,
  a request for an address is answered with the vault at that address, or 404 if there is
  none: by the cache in memory, and the same by the one in Postgres, where everything goes through
  text, numbers and JSON, whatever the tables held before. A vault that is shown as expired is one
  that the program lets its heirs claim, and the balance, deadline and pool are those of the chain.
\<close>

theorem api_tells_the_chain:
  assumes "runtime_laws rt" "find_program_address_law rt" "reachable rt s" "database_laws db"
    and "true_answer (accounts s) accs" "fst ` set accs = {k. vault_at (accounts s) k \<noteq> None}"
    and "parse_key path = Some key"
  shows "\<exists>vs. fetch_vaults accs = Inr vs \<and>
    api_get_vault parse_key due_soon path now (\<lambda>a. Inr (memory_get (memory_replace vs m) a))
      = chain_answer due_soon s key now \<and>
    api_get_vault parse_key due_soon path now (pg_get db (pg_replace db vs rows))
      = chain_answer due_soon s key now \<and>
    (\<forall>v. vault_at (accounts s) key = Some v \<longrightarrow>
      (let vw = api_view due_soon (seen_vault (accounts s) key v) (time_unix (unix_timestamp s))
       in (vw_status vw = StatusExpired \<longleftrightarrow> \<not> is_claimed v \<and> is_expired v (unix_timestamp s) = Inr True) \<and>
          vw_lamports vw = lamports (accounts s key) \<and> vw_claim_pool vw = claim_pool v \<and>
          (\<exists>d. deadline v = Inr d \<and> vw_deadline vw = time_unix d)))"
proof -
  have inv: "vault_inv v" if "vault_at (accounts s) k = Some v" for k v
    using reachable_ok [OF assms(1-3)] that by (auto simp: vault_at_Some vault_ok_def dest: ledger_okD)
  from true_scan [OF assms(5,6)] inv obtain vs where vs: "fetch_vaults accs = Inr vs"
    "distinct (map gv_address vs)" "list_all storable vs"
    "\<And>key. find (\<lambda>g. gv_address g = key) vs = map_option (seen_vault (accounts s) key) (vault_at (accounts s) key)"
    by blast
  have mem: "api_get_vault parse_key due_soon path now (\<lambda>a. Inr (memory_get (memory_replace vs m) a))
      = chain_answer due_soon s key now"
    using memory.vault_is_served [where parse_key = parse_key, OF vs(2), of path key due_soon now m] vs(4) assms(7)
    by (cases "vault_at (accounts s) key") (simp_all add: chain_answer_def list_all_iff)
  have pg: "api_get_vault parse_key due_soon path now (pg_get db (pg_replace db vs rows))
      = chain_answer due_soon s key now"
    unfolding api_get_vault_def assms(7) chain_answer_def
    by (simp add: pg_get_replace [OF assms(4) vs(2,3)] vs(4) split: option.split)
  have "let vw = api_view due_soon (seen_vault (accounts s) key v) (time_unix (unix_timestamp s))
       in (vw_status vw = StatusExpired \<longleftrightarrow> \<not> is_claimed v \<and> is_expired v (unix_timestamp s) = Inr True) \<and>
          vw_lamports vw = lamports (accounts s key) \<and> vw_claim_pool vw = claim_pool v \<and>
          (\<exists>d. deadline v = Inr d \<and> vw_deadline vw = time_unix d)"
    if "vault_at (accounts s) key = Some v" for v
    using seen_view [OF inv [OF that] refl, of due_soon "accounts s" key "unix_timestamp s"]
    unfolding Let_def by (intro conjI)
  then show ?thesis using vs(1) mem pg by blast
qed

text \<open>A database for the witness: keys as decimal numbers, heir tables as they are.\<close>

definition sample_db :: "go_beneficiary list database" where
  "sample_db = \<lparr>key_text = (\<lambda>k. decimal (unat k)), text_key = (\<lambda>cs. Some (of_nat (read_decimal cs))),
     heirs_json = (\<lambda>hs. hs), json_heirs = Some, order_rows = sort_key\<rparr>"

lemma sample_db_laws: "database_laws sample_db"
  by (simp add: database_laws_def sample_db_def read_decimal)

theorem api_tells_the_chain_witness:
  "\<exists>vs. fetch_vaults [(1564, 3260560, vault_image (sample_vault 7 None True False 1000000))] = Inr vs \<and>
    api_get_vault (text_key sample_db) 0 (decimal 1564) 0 (pg_get sample_db (pg_replace sample_db vs []))
      = chain_answer 0 sol_tripped 1564 0"
proof -
  have only: "vault_at (accounts sol_tripped) k = None" if "k \<noteq> 1564" for k
    using that by (simp add: vault_at_def sol_chain_defs account_defs)
  have balance: "lamports (accounts sol_tripped 1564) = 3260560" by (simp add: sol_tripped_def)
  have complete: "{k. vault_at (accounts sol_tripped) k \<noteq> None} = {1564}"
  proof (intro equalityI subsetI)
    fix k assume "k \<in> {k. vault_at (accounts sol_tripped) k \<noteq> None}"
    then show "k \<in> {1564}" using only [of k] by (cases "k = 1564") simp_all
  next
    fix k :: pubkey assume "k \<in> {1564}"
    then show "k \<in> {k. vault_at (accounts sol_tripped) k \<noteq> None}" using sol_vaults(4) by simp
  qed
  have answer: "true_answer (accounts sol_tripped)
      [(1564, 3260560, vault_image (sample_vault 7 None True False 1000000))]"
    using sol_vaults(4) balance by (simp add: true_answer_def)
  have key: "text_key sample_db (decimal 1564) = Some 1564"
    by (simp add: sample_db_def read_decimal)
  have "fst ` set [(1564, 3260560 :: u64, vault_image (sample_vault 7 None True False 1000000))]
      = {k. vault_at (accounts sol_tripped) k \<noteq> None}"
    unfolding complete by simp
  from api_tells_the_chain [where parse_key = "text_key sample_db" and path = "decimal 1564",
      OF sample_laws sample_find_law sol_reachable(4) sample_db_laws answer this key, of 0 0 new_memory "[]"]
  show ?thesis by blast
qed

end
