(* ===== verification/Spec2Isabelle.thy ===== *)
theory Spec2Isabelle
  imports Component_Properties Client_Properties Service_Properties Will_Properties Keeper_Properties
begin

text \<open>
  Dead Man's Switch: a verification of the Solana program \<open>programs/dead-man-switch\<close> and of what
  talks to it: the Rust client and fuzz campaign of its test harness, and the Go keeper.

  The program keeps one \<open>Vault\<close> account per owner and id, with a table of at most five heirs and
  their shares in basis points. The owner funds it (lamports in the account itself, or tokens
  in the associated token account of its address) and checks in. Once a check-in is older
  than the timeout any listed heir may claim; the first claim trips the switch for good and
  fixes the pool, every heir takes a rounded-down share of it and the last one takes the rest.

  THE THEORIES, and the code they model (paths under \<open>src/programs/dead-man-switch/src\<close> unless
  they say otherwise)

  \<^item> \<open>Prelude\<close>: machine integers, \<open>Result\<close> with the question mark (\<open>and_then\<close>), \<open>require!\<close>, \<open>ok_or\<close>,
    checked arithmetic of the Rust library, facts on lists and words.
  \<^item> \<open>Dms_Error\<close>: \<open>constants.rs\<close>, \<open>error.rs\<close>. An error is one of the program's, a failed account check of
    Anchor, an error of a called program, or a panic.
  \<^item> \<open>Vault_State\<close>: \<open>state.rs\<close>, the records and every method of \<open>impl Vault\<close>; \<open>vault_inv\<close> is what a stored
    vault satisfies.
  \<^item> \<open>Claim_Rules\<close>: what \<open>handle_claim_sol\<close> and \<open>handle_claim_spl\<close> share, with amounts and accounts.
  \<^item> \<open>Estate\<close>: the abstract inheritance that a claim refines, and the locales \<open>claim_path\<close> and
    \<open>paying_path\<close>, the contract of a way to claim; facts on sequences of claims are proved there
    once and used for SOL and for SPL vaults.
  \<^item> \<open>Ledger\<close>: accounts, the outside world (record \<open>runtime\<close>), the account checks that the
    \<open>#[account(...)]\<close> attributes ask for, and \<open>move_lamports\<close> of \<open>utils.rs\<close>.
  \<^item> \<open>Runtime_Laws\<close>: the documented behaviour of the outside world, one definition \<open>..._law\<close> per call.
  \<^item> \<open>Vault_Setup\<close>, \<open>Sol_Vault\<close>, \<open>Spl_Vault\<close>, \<open>Close_Vault\<close>: \<open>instructions/*.rs\<close>. Each instruction is
    \<open>accounts_x\<close> (the accounts struct, in the order Anchor checks it), \<open>handle_x\<close> (the handler) and
    \<open>x\<close> (the entry point of \<open>lib.rs\<close>, which also stores the vault).
  \<^item> \<open>Program\<close>: \<open>lib.rs\<close>, \<open>dispatch\<close> over the ten instructions, transactions (\<open>run\<close>), the step relation of
    the chain (instructions, time, other programs) and its reachable states.
  \<^item> \<open>Invariants\<close>, \<open>Token_Frames\<close>, \<open>Spl_Invariant\<close>: the invariants of reachable chains. \<open>Lifecycle\<close>, \<open>Custody\<close>, \<open>Succession\<close>:
    what can happen to one vault, what can leave it, and how claims after the deadline end.
    \<open>Conservation\<close>: no instruction makes or loses a lamport. \<open>No_Overflow\<close>: no instruction panics, and which can
    overflow.
  \<^item> \<open>Will\<close>: the abstract specification of a whole vault, a state machine over numbers with its events, and
    what every legal history of it promises. \<open>Will_Refinement\<close>: a SOL vault is read as a will, and every
    instruction is a step of the will at every address. \<open>Will_Spl\<close>: the same for SPL vaults, in tokens.
  \<^item> \<open>Borsh\<close>, \<open>Account_Layout\<close>: the bytes of accounts and arguments; the locale \<open>codec\<close> is the contract
    between an encoder and its decoder, interpreted for every format.
  \<^item> \<open>Client\<close>, \<open>Client_Sol\<close>, \<open>Client_Spl\<close>, \<open>Client_Errors\<close>: the client in
    \<open>src/trident-tests/fuzz_0/types.rs\<close>.
  \<^item> \<open>Wire\<close>: \<open>route\<close>, from the bytes of a transaction to an entry point, and which accounts
    an instruction writes. \<open>Wire_Extras\<close>: what a transaction carries beyond its instruction, and accounts
    named twice.
  \<^item> \<open>Keeper\<close>: of the Go keeper, the account decoder and status (\<open>src/keeper/internal/dms\<close>) and the
    instructions it builds (\<open>src/keeper/internal/client/instructions.go\<close>); the locale \<open>field_reader\<close> relates
    its cursor to the encodings. \<open>Keeper_Store\<close>: a fetch (\<open>dms/client.go\<close>) and the in-memory store
    (\<open>internal/store\<close>); the locale \<open>vault_cache\<close> is the contract of a store, \<open>ordered_cache\<close> that of one which
    keeps the order of the scan. \<open>Postgres_Store\<close>: the same contract for \<open>store/postgres.go\<close>, through rows, text and
    transactions. \<open>Keeper_Api\<close>: the answers of the API (\<open>internal/api\<close>), the settings (\<open>internal/config\<close>) and the
    fan-out of reminders (\<open>internal/notify\<close>). \<open>Reminders\<close>: the tracker and one scan
    (\<open>internal/watch\<close>). \<open>Blink\<close>: the decisions of the blink server (\<open>internal/blink/server.go\<close>).
  \<^item> \<open>Fuzz_Oracle\<close>: \<open>check_invariants\<close> of \<open>src/trident-tests/fuzz_0/test_fuzz.rs\<close>, what the fuzz harness
    asserts of a vault after every transaction. \<open>Fuzz_Flows\<close>: the accounts (\<open>fuzz_accounts.rs\<close>) and flows
    of the campaign, with every assertion as an error; what Trident draws, picks and executes is the record
    \<open>trident\<close>. \<open>Fuzz_Campaign\<close>: the invariant of the chain that keeps the assertions from firing.
  \<^item> \<open>Sample_World\<close>, \<open>Scenarios\<close>: a concrete runtime that obeys every law, and runs of the program on
    it; the witnesses of the properties are taken from there.
  \<^item> \<open>Component_Properties\<close>, \<open>Client_Properties\<close>, \<open>Service_Properties\<close>: properties of single components,
    of the edge, and of the campaign and the keeper. \<open>Will_Properties\<close>: the refinement of the will and
    the history of every vault, the lamports and the arithmetic. \<open>Keeper_Properties\<close>: what the API tells. This
    theory: other properties of the whole program.

  STATE AND OUTSIDE WORLD

  A \<open>chain\<close> is a clock and a ledger, a total function from addresses to accounts. Account data is
  kept as the value it deserialises to; \<open>Account_Layout\<close> closes the gap to bytes for vaults. The
  runtime, the System and token programs and address derivation are fields of the record
  \<open>runtime\<close>, an argument of every definition that uses them. \<open>runtime_laws\<close> and
  \<open>find_program_address_law\<close> state what their documentation promises; \<open>sample_laws\<close> shows that the
  laws can hold together. Transfer fees of Token-2022 are allowed by the laws, except where a
  theorem names \<open>exact_transfer_law\<close>; \<open>transfer_progress_law\<close> (a transfer that has all it needs succeeds)
  is used by one theorem only. \<open>init_exact_law\<close> (creating an account tops it up to its reserve and no further)
  and \<open>trident_laws\<close> are used by the campaign only; a transaction of the campaign is one instruction.

  A handler that fails leaves no trace (the runtime rolls back), so its result is only the error. No
  definition uses fuel: the two loops of the program, over a heir table and over five slots, are
  structural recursions, hence every instruction returns, and a claim strictly decreases what is left to
  claim, hence the claims on a vault end. The one numeric bound is the campaign's: a hundred flows, each
  of which deposits at most 20 SOL on top of the 50 of the opening, keep the oracle's products
  (pool times 10000 in \<open>u64\<close>) from overflowing; the harness runs at most that many.

  WHAT IS SHOWN

  The program refines the will: every vault of a reachable chain has a legal history from its
  opening, in which the books balance and every inheritance was due, paid once and in full. A deposit of
  tokens counts as a gift there, for anybody may send tokens and a mint may take a fee; the closing of an SPL
  vault ends the history without a claim about its tokens, which may lie in another account than the one shown.
  A tripped vault can always pay what it owes (SOL and SPL); heirs get their percentages in
  any order and the last one leaves nothing; nothing leaves a vault except by the rules;
  the owner is locked out after the trip; a claim that is due goes through; transactions and
  account bytes survive the round trip; the keeper reads and reports what the program means.
  An iteration of the fuzz campaign passes, whatever is drawn. The keeper's reminders are those a look at the
  whole history of polls would give, are bounded in number, and reach every expired owner whose
  vault is fetched; its API answers what the chain holds, from memory or from Postgres, and agrees with the
  reminders on what is urgent (\<open>api_and_reminders_agree\<close>); for a SOL vault the blink server offers what the program
  would authorise. While the lamports of the chain fit \<open>u64\<close> no instruction panics.
  Other results are about limits of the code. When two or more heirs are entitled to less
  than one unit, the vault deadlocks (\<open>small_pools_deadlock\<close>, \<open>dust_is_locked_for_ever\<close>). An SPL
  vault can be closed through any empty token account of its authority, so that its tokens are
  orphaned (\<open>spl_close_orphans_tokens\<close>), and after a re-opening the owner can take what an heir
  is owed (\<open>owner_takes_heirs_tokens\<close>). The blink server offers the heirs of an SPL vault
  a claim that must fail (\<open>blink_offers_doomed_claim\<close>); a reminder that could not be delivered is
  not repeated (\<open>lost_reminder_stays_lost\<close>); one undecodable account hides every vault from the keeper
  (\<open>one_bad_account_hides_all\<close>).

  NOT MODELLED

  Log messages; transaction fees; the runtime's own checks around an instruction (rent
  states, compute budget; that the sum of lamports stays the same is \<open>lamports_conserved\<close>), which can only turn
  a success into a failure; the order of
  errors inside one account check and the numbers of Anchor's own errors. Anchor's refusal of duplicate
  mutable accounts is its own code; \<open>no_account_twice\<close> shows that it never decides anything. Discriminators are the
  constants of the IDL, not computed from names. The module list \<open>instructions.rs\<close> and the imports have
  no content of their own, and the random draws of the harness are arguments. In the keeper: HTTP, JSON
  and base 58, the calls to the RPC node and to Postgres themselves, Telegram and the log, command lines, the
  timer around a scan, the parser of durations, and texts for people (durations, percentages), which use
  floating point and which no decision depends on. The tests of the program are not replayed, but for the two
  vaults of \<open>test_golden_layout.rs\<close>.
\<close>

section \<open>The invariants of every reachable chain\<close>

text \<open>
  C1: in every chain the program can reach, a native SOL vault whose switch has tripped holds,
  above its rent-exempt reserve, at least the sum of what its unpaid heirs are entitled to
  out of the pool fixed by the first claim. No instruction, in any order and with any
  accounts and signers, ever makes a tripped vault insolvent.
\<close>

theorem sol_vault_solvent:
  assumes "runtime_laws rt" "find_program_address_law rt" "reachable rt s"
    and "vault_at (accounts s) key = Some v" "is_sol v" "is_claimed v"
  shows "owed v + unat (minimum_balance rt (8 + vault_init_space)) \<le> unat (lamports (accounts s key))"
proof -
  have "vault_ok rt key (accounts s key) v"
    using reachable_ok [OF assms(1-3)] assms(4) by (auto simp: vault_at_Some dest: ledger_okD)
  then show ?thesis
    using assms(5,6) by (auto simp: vault_ok_def solvent_def unat_withdrawable)
qed

theorem sol_vault_solvent_witness:
  "owed (sample_vault 7 None True False 1000000) + unat (minimum_balance sample_rt (8 + vault_init_space))
     \<le> unat (lamports (accounts sol_tripped 1564))"
  by (rule sol_vault_solvent [OF sample_laws sample_find_law sol_reachable(4) sol_vaults(4)]) simp_all



text \<open>
  C16: every vault stored in a reachable chain is well formed: its heir table can be read
  without a panic, has one to five distinct, non-zero addresses with positive shares that
  add up to exactly 10000 basis points; its timeout is between a minute and ten years; its
  deadline does not overflow; a pool is recorded, and an heir marked paid, exactly when the
  switch has tripped; and it lives at the address derived from its owner, id and bump, in
  an account that keeps its rent-exempt reserve.
\<close>

theorem stored_vault_well_formed:
  assumes "runtime_laws rt" "find_program_address_law rt" "reachable rt s"
    and "vault_at (accounts s) key = Some v"
  shows "active v = Inr (heirs v) \<and> 0 < length (heirs v) \<and> length (heirs v) \<le> 5 \<and>
    distinct (map address (heirs v)) \<and> list_all (\<lambda>b. address b \<noteq> 0 \<and> 0 < share_bps b) (heirs v) \<and>
    sum_list (map (\<lambda>b. unat (share_bps b)) (heirs v)) = 10000 \<and>
    60 \<le> sint (timeout_seconds v) \<and> sint (timeout_seconds v) \<le> 10 * 365 * 24 * 60 * 60 \<and>
    (\<exists>d. deadline v = Inr d \<and> sint d = sint (last_checkin v) + sint (timeout_seconds v)) \<and>
    (is_claimed v \<longleftrightarrow> claim_pool v \<noteq> 0) \<and> (is_claimed v \<longleftrightarrow> list_ex claimed (heirs v)) \<and>
    load_vault rt (accounts s) key = Inr v \<and>
    unat (minimum_balance rt (data_len (accounts s key))) \<le> unat (lamports (accounts s key))"
proof -
  have ok: "vault_ok rt key (accounts s key) v"
    using reachable_ok [OF assms(1-3)] assms(4) by (auto simp: vault_at_Some dest: ledger_okD)
  then have inv: "vault_inv v" by (simp add: vault_ok_def)
  have "\<not> list_ex claimed (heirs v)" if "unpaid v = heirs v"
    using that by (auto simp: unpaid_def list_ex_iff filter_id_conv)
  then show ?thesis
    using ok vault_inv_active [OF inv] vault_inv_deadline [OF inv] assms(4) inv
    by (auto simp: vault_ok_def vault_inv_def valid_table_def shares_total_def MAX_BENEFICIARIES_def
        load_vault_Inr vault_at_Some word_neq_0_conv [symmetric] split: if_splits)
qed

theorem stored_vault_well_formed_witness:
  "load_vault sample_rt (accounts sol_tripped) 1564 = Inr (sample_vault 7 None True False 1000000) \<and>
   sum_list (map (\<lambda>b. unat (share_bps b)) (heirs (sample_vault 7 None True False 1000000))) = 10000"
  using stored_vault_well_formed [OF sample_laws sample_find_law sol_reachable(4) sol_vaults(4)] by blast

section \<open>Who can take what\<close>

text \<open>
  C8: whatever instruction runs, with whatever accounts and signers, lamports leave a vault
  account only when the owner, having signed, withdraws no more than is above the reserve
  before the switch trips, when a listed and unpaid heir, having signed, claims after the
  deadline, or when the owner closes a vault, which for a SOL vault must hold nothing above
  the reserve.
\<close>

theorem lamports_leave_by_rule:
  assumes "runtime_laws rt" "find_program_address_law rt" "reachable rt s"
    and "vault_at (accounts s) key = Some v" "dispatch rt signers ix s = Inr s'"
    and "lamports (accounts s' key) < lamports (accounts s key)"
  shows "(\<exists>amount. ix = WithdrawSol (owner v) key amount \<and> owner v \<in> set signers \<and> \<not> is_claimed v \<and>
            amount \<le> withdrawable_lamports rt (accounts s key)) \<or>
    (\<exists>k. ix = ClaimSol k key \<and> k \<in> set signers \<and>
       sint (last_checkin v) + sint (timeout_seconds v) \<le> sint (unix_timestamp s) \<and>
       (\<exists>b\<in>set (heirs v). address b = k \<and> \<not> claimed b)) \<or>
    (\<exists>vt p. ix = CloseVault (owner v) key vt p \<and> owner v \<in> set signers \<and>
       (is_sol v \<longrightarrow> withdrawable_lamports rt (accounts s key) = 0))"
proof -
  have "vault_inv v"
    using reachable_ok [OF assms(1-3)] assms(4) by (auto simp: vault_at_Some vault_ok_def dest!: ledger_okD)
  from lamports_leave [OF assms(1,5,4) this assms(6)] show ?thesis by (simp add: heir_due_def)
qed

theorem lamports_leave_by_rule_witness:
  "\<exists>k. ClaimSol 2 1564 = ClaimSol k 1564 \<and> k \<in> set [2 :: pubkey]"
proof -
  have "lamports (accounts sol_tripped 1564) < lamports (accounts sol_late 1564)"
    by (simp add: sol_tripped_def sol_late_def sol_funded_def)
  from lamports_leave_by_rule [OF sample_laws sample_find_law sol_reachable(3) sol_vaults(3)
      sol_claim_2_step this]
  show ?thesis by auto
qed

text \<open>
  C11: whatever instruction runs, the tokens of a mint held under a vault's authority go
  down in an account only in a withdrawal of the vault's mint signed by the owner before
  the switch trips, or in a claim of it signed by a listed, unpaid heir after the deadline.
\<close>

theorem tokens_leave_by_rule:
  assumes "runtime_laws rt" "find_program_address_law rt" "reachable rt s"
    and "wallets signers (accounts s)"
    and "vault_at (accounts s) key = Some v" "dispatch rt signers ix s = Inr s'"
    and "tokens_of (accounts s') tkey key mnt < tokens_of (accounts s) tkey key mnt"
  shows "(\<exists>own_token prog amount vt m. ix = WithdrawSpl (owner v) key m vt own_token prog amount \<and>
            mint v = Some m \<and> owner v \<in> set signers \<and> \<not> is_claimed v) \<or>
    (\<exists>k k_token prog vt m. ix = ClaimSpl k key m vt k_token prog \<and> mint v = Some m \<and>
       k \<in> set signers \<and>
       sint (last_checkin v) + sint (timeout_seconds v) \<le> sint (unix_timestamp s) \<and>
       (\<exists>b\<in>set (heirs v). address b = k \<and> \<not> claimed b))"
proof -
  have "vault_inv v"
    using reachable_ok [OF assms(1-3)] assms(5) by (auto simp: vault_at_Some vault_ok_def dest!: ledger_okD)
  from tokens_leave [OF assms(1,4,6,5) this assms(7)] show ?thesis by (simp add: heir_due_def)
qed

theorem tokens_leave_by_rule_witness:
  "\<exists>k k_token prog vt m. ClaimSpl 2 1565 50 156505006 205006 6 = ClaimSpl k 1565 m vt k_token prog \<and>
     k \<in> set [2 :: pubkey]"
proof -
  have "wallets [2] (accounts spl_late)"
    by (simp add: wallets_def vault_at_def spl_chain_defs account_defs)
  moreover have "tokens_of (accounts spl_tripped) 156505006 1565 50 < tokens_of (accounts spl_late) 156505006 1565 50"
    by (simp add: tokens_of_def token_at_def spl_tripped_def spl_late_def spl_funded_def token_acct_def)
  ultimately show ?thesis
    using tokens_leave_by_rule [OF sample_laws sample_find_law spl_reachable(3) _ spl_vaults(3)
        spl_claim_2_step] by blast
qed

text \<open>
  C17: a transaction signed neither by the owner of a vault nor by any heir of it who is due
  (listed, unpaid, deadline passed) cannot touch the vault: after any successful
  instruction its stored state is the same, its account has not lost a lamport, and no
  account under its authority has lost a token.
\<close>

theorem strangers_are_powerless:
  assumes "runtime_laws rt" "find_program_address_law rt" "reachable rt s"
    and "wallets signers (accounts s)"
    and "vault_at (accounts s) key = Some v" "dispatch rt signers ix s = Inr s'"
    and "owner v \<notin> set signers"
    and "\<forall>b\<in>set (heirs v). address b \<in> set signers \<longrightarrow>
       claimed b \<or> sint (unix_timestamp s) < sint (last_checkin v) + sint (timeout_seconds v)"
  shows "vault_at (accounts s') key = Some v \<and> lamports (accounts s key) \<le> lamports (accounts s' key) \<and>
    tokens_of (accounts s) tkey key mnt \<le> tokens_of (accounts s') tkey key mnt"
proof -
  have inv: "vault_inv v"
    using reachable_ok [OF assms(1-3)] assms(5) by (auto simp: vault_at_Some vault_ok_def dest!: ledger_okD)
  have due: "\<not> heir_due signers (unix_timestamp s) v k" for k
    using assms(8) by (auto simp: heir_due_def)
  have "lamports (accounts s key) \<le> lamports (accounts s' key)"
    using lamports_leave [OF assms(1,6,5) inv] assms(7) due by (meson not_less)
  moreover have "tokens_of (accounts s) tkey key mnt \<le> tokens_of (accounts s') tkey key mnt"
    using tokens_leave [OF assms(1,4,6,5) inv] assms(7) due by (meson not_less)
  ultimately show ?thesis using stranger_vault [OF assms(1,6,5) inv assms(7) due] by blast
qed

theorem strangers_are_powerless_witness:
  "vault_at (accounts sol_other) 1564 = Some (sample_vault 7 None False False 0) \<and>
   lamports (accounts sol_funded 1564) \<le> lamports (accounts sol_other 1564)"
  using strangers_are_powerless [OF sample_laws sample_find_law sol_reachable(2) sol_other_wallets
      sol_vaults(2) sol_other_step] by simp

section \<open>After the switch trips\<close>

text \<open>
  C12: tripping is final. After the first claim, an instruction leaves a stored vault exactly
  as it is, or marks one more heir paid, one who was unpaid, signed and came after the
  deadline, or removes the vault on its owner's signature. Owner, mint, timer, heirs, shares
  and pool can never change again.
\<close>

theorem tripped_is_final:
  assumes "runtime_laws rt" "find_program_address_law rt" "reachable rt s"
    and "vault_at (accounts s) key = Some v" "is_claimed v" "dispatch rt signers ix s = Inr s'"
  shows "vault_at (accounts s') key = None \<and> owner v \<in> set signers \<or>
    vault_at (accounts s') key = Some v \<or>
    (\<exists>i<length (heirs v). \<not> claimed (heirs v ! i) \<and> address (heirs v ! i) \<in> set signers \<and>
       sint (last_checkin v) + sint (timeout_seconds v) \<le> sint (unix_timestamp s) \<and>
       vault_at (accounts s') key = Some (v\<lparr>beneficiaries :=
         (beneficiaries v)[i := (beneficiaries v ! i)\<lparr>claimed := True\<rparr>]\<rparr>))"
proof -
  have inv: "vault_inv v"
    using reachable_ok [OF assms(1-3)] assms(4) by (auto simp: vault_at_Some vault_ok_def dest!: ledger_okD)
  have "life_step signers (unix_timestamp s) (Some v) (vault_at (accounts s') key)"
    using dispatch_life [OF assms(1,6), of key] assms(4) by simp
  from life_tripped [OF this inv assms(5)] show ?thesis
    by (auto simp: heir_due_def mark_claimed_def)
qed

theorem tripped_is_final_witness:
  "vault_at (accounts sol_spent) 1564 = None \<and> 1 \<in> set [3 :: pubkey] \<or>
   vault_at (accounts sol_spent) 1564 = Some (sample_vault 7 None True False 1000000) \<or>
   (\<exists>i<2. \<not> claimed ([heir_2 True, heir_3 False] ! i))"
  using tripped_is_final [OF sample_laws sample_find_law sol_reachable(4) sol_vaults(4) _ sol_claim_3_step]
  by auto



section \<open>Heirs are paid\<close>

text \<open>
  C6: heirs of a SOL vault claim one after the other, in any order. Whatever leaves the vault
  arrives with the claimants, to the lamport; each of them claims once and receives at least
  their percentage, rounded down, of the pool (what the vault held at the first claim); and
  when nobody is left unpaid nothing is left above the reserve.
\<close>

theorem sol_heirs_paid:
  assumes "runtime_laws rt" "find_program_address_law rt" "reachable rt s"
    and "vault_at (accounts s) key = Some v" "is_sol v" "key \<notin> set ks"
    and "run rt (map (\<lambda>k. (signers k, ClaimSol k key)) ks) s = Inr s'"
  shows "\<exists>v'. vault_at (accounts s') key = Some v' \<and> distinct ks \<and>
    unat (withdrawable_lamports rt (accounts s key)) =
      sum_list (map (\<lambda>k. unat (lamports (accounts s' k)) - unat (lamports (accounts s k))) ks)
        + unat (withdrawable_lamports rt (accounts s' key)) \<and>
    (\<forall>k\<in>set ks. \<exists>b\<in>set (unpaid v). address b = k \<and>
       unat (lamports (accounts s k)) +
         unat (if is_claimed v then claim_pool v else withdrawable_lamports rt (accounts s key))
           * unat (share_bps b) div 10000 \<le> unat (lamports (accounts s' k))) \<and>
    (ks \<noteq> [] \<and> unpaid v' = [] \<longrightarrow> withdrawable_lamports rt (accounts s' key) = 0)"
proof -
  have ok: "vault_ok rt key (accounts s key) v"
    using reachable_ok [OF assms(1-3)] assms(4) by (auto simp: vault_at_Some dest: ledger_okD)
  have view: "sol_view rt key s = Some (v, withdrawable_lamports rt (accounts s key))"
    using assms(4) by (simp add: sol_view_def)
  have "sol.sound rt key s"
    using ok assms(5) view by (simp add: sol.sound_def vault_ok_def)
  from sol_pay.claims_pay [OF assms(7) [unfolded run_claims_sol] _ this view] assms(6)
  show ?thesis
    by (fastforce simp: sol_view_def lamports_of_def entitlement_def pool_of_def split: option.splits)
qed

theorem sol_heirs_paid_witness:
  "vault_at (accounts sol_spent) 1564 = Some (sample_vault 7 None True True 1000000) \<and>
   1000600000 \<le> unat (lamports (accounts sol_spent 2)) \<and>
   withdrawable_lamports sample_rt (accounts sol_spent 1564) = 0"
proof -
  have run: "run sample_rt (map (\<lambda>k. ([k], ClaimSol k 1564)) [2, 3]) sol_late = Inr sol_spent"
    using sol_claim_2_step sol_claim_3_step by simp
  have now: "lamports (accounts sol_late 2) = 1000000000"
    "withdrawable_lamports sample_rt (accounts sol_late 1564) = 1000000"
    by (simp_all add: sol_chain_defs wallet_account_def withdrawable_lamports_def saturating_sub_def)
  show ?thesis
    using sol_heirs_paid [OF sample_laws sample_find_law sol_reachable(3) sol_vaults(3) _ _ run]
      sol_vaults(5) now by (auto dest!: bspec [of _ _ 2])
qed











section \<open>Closing\<close>

text \<open>
  The owner of a SOL vault cannot close it over the heads of its heirs: in every reachable
  chain, while a tripped SOL vault owes anything to an unpaid heir, every attempt to close
  it fails, whoever signs.
\<close>

theorem sol_vault_open_while_owing:
  assumes "runtime_laws rt" "find_program_address_law rt" "reachable rt s"
    and "vault_at (accounts s) key = Some v" "is_sol v" "is_claimed v" "0 < owed v"
  shows "\<exists>e. dispatch rt signers (CloseVault own key vt prog) s = Inl e"
proof (cases "close_vault rt signers own key vt prog s")
  case (Inr s')
  have "vault_ok rt key (accounts s key) v"
    using reachable_ok [OF assms(1-3)] assms(4) by (auto simp: vault_at_Some dest: ledger_okD)
  moreover have "withdrawable_lamports rt (accounts s key) = 0"
    by (rule close_sol_empty [OF Inr assms(4,5)])
  ultimately show ?thesis using assms(5-7) by (simp add: vault_ok_def solvent_def)
qed simp

theorem sol_vault_open_while_owing_witness:
  "\<exists>e. dispatch sample_rt [1] (CloseVault 1 1564 None None) sol_tripped = Inl e"
  by (rule sol_vault_open_while_owing [OF sample_laws sample_find_law sol_reachable(4) sol_vaults(4)])
     (simp_all add: owed_def entitlement_def)

text \<open>
  An SPL vault can be closed while it still holds tokens. Closing looks at the token account
  it is given, so if that is not the one with the vault's tokens, the vault is gone
  afterwards and every other token account under its authority is exactly as full as before.
\<close>

theorem spl_close_orphans_tokens:
  assumes "runtime_laws rt" "close_vault rt signers own key (Some decoy) (Some p) s = Inr s'"
    and "vault_at (accounts s) key = Some v" "mint v = Some m"
    and "token_at (accounts s) vt = Some t" "tok_owner t = key" "vt \<noteq> decoy"
  shows "vault_at (accounts s') key = None \<and>
    (\<exists>t'. token_at (accounts s') vt = Some t' \<and> tok_owner t' = key \<and> tok_mint t' = tok_mint t \<and>
       tok_amount t' = tok_amount t)"
proof -
  from assms(2,3) have "load_vault rt (accounts s) key = Inr v"
    by (auto simp: close_vault_Inr accounts_close_vault_Inr load_vault_Inr vault_at_Some)
  from assms(2) [unfolded close_spl_Inr [OF this assms(4)]] obtain A where
    cta: "close_token_account rt p decoy own key (accounts s) = Inr A"
    and cl: "close_to rt key own A = Inr (accounts s')" by auto
  have A: "A own = (accounts s own)\<lparr>lamports := lamports (accounts s own) + lamports (accounts s decoy)\<rparr>"
    "\<And>k. k \<noteq> decoy \<Longrightarrow> k \<noteq> own \<Longrightarrow> A k = accounts s k"
    using runtime_lawsD(5) [OF assms(1)] cta unfolding close_token_account_law_def by blast+
  have "vt \<noteq> key" using assms(3,5) by (auto simp: vault_at_Some token_at_Some)
  moreover have "data (A vt) = TokenData t"
    using A assms(5,7) by (cases "vt = own") (auto simp: token_at_Some)
  ultimately have "token_at (accounts s') vt = Some t"
    using cl by (auto simp: close_to_Inr token_at_def)
  moreover have "vault_at (accounts s') key = None"
    using close_vault_kept(2) [OF assms(1,2)] .
  ultimately show ?thesis using assms(6) by blast
qed

theorem spl_close_orphans_tokens_witness:
  "vault_at (accounts spl_closed) 1565 = None \<and>
   (\<exists>t'. token_at (accounts spl_closed) 156505006 = Some t' \<and> tok_owner t' = 1565 \<and> tok_amount t' = 400)"
proof -
  have "token_at (accounts spl_decoy) 156505006 = Some \<lparr>tok_mint = 50, tok_owner = 1565, tok_amount = 400\<rparr>"
    "vault_at (accounts spl_decoy) 1565 = Some (sample_vault 8 (Some 50) True False 1000)"
    by (simp_all add: token_at_def vault_at_def spl_decoy_def spl_tripped_def token_acct_def)
  then show ?thesis
    using spl_close_orphans_tokens [OF sample_laws, of "[1]" 1 1565 77 6 spl_decoy spl_closed
        "sample_vault 8 (Some 50) True False 1000" 50 156505006] spl_close_step by auto
qed

text \<open>
  C22: what an owner can do with that. There is a world that obeys every law of the runtime and a
  reachable chain in it where an SPL vault has tripped, heir 2 has been paid and heir 3 is
  still owed 400 tokens, which the vault holds; one transaction signed by the owner alone
  closes the vault (naming an empty token account that anyone can create under the vault's
  authority), opens it again and withdraws, and the owner has the 400 tokens.
\<close>

theorem owner_takes_heirs_tokens:
  "runtime_laws sample_rt \<and> find_program_address_law sample_rt \<and> reachable sample_rt spl_decoy \<and>
   (\<exists>v. vault_at (accounts spl_decoy) 1565 = Some v \<and> is_claimed v \<and> owed v = 400 \<and>
        map address (unpaid v) = [3]) \<and>
   tokens_of (accounts spl_decoy) 156505006 1565 50 = 400 \<and>
   tokens_of (accounts spl_decoy) 105006 1 50 = 0 \<and>
   run sample_rt [([1], CloseVault 1 1565 (Some 77) (Some 6)),
                  ([1], InitializeVault 1 1565 (Some 50) 8 60 sample_inputs),
                  ([1], WithdrawSpl 1 1565 50 156505006 105006 6 400)] spl_decoy = Inr spl_drained \<and>
   tokens_of (accounts spl_drained) 156505006 1565 50 = 0 \<and>
   tokens_of (accounts spl_drained) 105006 1 50 = 400"
proof -
  have "vault_at (accounts spl_decoy) 1565 = Some (sample_vault 8 (Some 50) True False 1000)"
    by (simp add: vault_at_def spl_decoy_def spl_tripped_def)
  moreover have "owed (sample_vault 8 (Some 50) True False 1000) = 400"
    by (simp add: owed_def entitlement_def)
  moreover have "tokens_of (accounts spl_decoy) 156505006 1565 50 = 400"
    "tokens_of (accounts spl_decoy) 105006 1 50 = 0"
    "tokens_of (accounts spl_drained) 156505006 1565 50 = 0"
    "tokens_of (accounts spl_drained) 105006 1 50 = 400"
    by (simp_all add: tokens_of_def token_at_def spl_drained_def spl_decoy_def spl_tripped_def spl_late_def
        spl_funded_def token_acct_def)
  ultimately show ?thesis
    using sample_laws sample_find_law spl_decoy_reachable spl_close_step spl_reopen_step spl_drain_step
    by simp
qed

end
